(* ===== verification/Prelude.thy ===== *)
theory Prelude
  imports Main "HOL-Library.Word"
begin

text \<open>
  Shared vocabulary of the development.

  \<^item> machine-level types (\<open>byte\<close>, \<open>bytes\<close>) and the integer casts the Rust code performs
    (\<open>as i64\<close>, wrapping \<open>u64\<close> subtraction, saturating subtraction);
  \<^item> the state-and-error monad in which every stateful operation of the program is written:
    a computation maps a state to a result (\<open>Inl\<close> the error, \<open>Inr\<close> the value) together with
    the state it leaves behind. The state is kept on the error branch too, because an early
    return of the Rust code leaves all the side effects performed so far in place;
  \<^item> generic lemmas about overwriting a slice of a list, used by the buffer, by the file
    model and by the block layout of an encrypted file.
\<close>

subsection \<open>Bytes and integer casts\<close>

type_synonym byte = "8 word"
type_synonym bytes = "byte list"

text \<open>The two's complement value of an integer truncated to 64 bits (\<open>x as i64\<close>).\<close>

definition wrap_i64 :: "int \<Rightarrow> int" where
  "wrap_i64 z = (z + 2 ^ 63) mod 2 ^ 64 - 2 ^ 63"

definition as_i64 :: "nat \<Rightarrow> int" where
  "as_i64 n = wrap_i64 (int n)"

text \<open>Release-mode \<open>u64\<close> subtraction: wraps around below zero.\<close>

definition u64_sub :: "nat \<Rightarrow> nat \<Rightarrow> nat" where
  "u64_sub a b = nat ((int a - int b) mod 2 ^ 64)"

text \<open>\<open>u64::to_le_bytes\<close>: eight bytes, least significant first.\<close>

definition to_le_bytes :: "nat \<Rightarrow> bytes" where
  "to_le_bytes n = map (\<lambda>i. word_of_nat (n div 256 ^ i)) [0..<8]"

lemma wrap_i64_id [simp]: "- (2 ^ 63) \<le> z \<Longrightarrow> z < 2 ^ 63 \<Longrightarrow> wrap_i64 z = z"
  by (simp add: wrap_i64_def)

lemma wrap_i64_sint: "wrap_i64 z = sint (word_of_int z :: 64 word)"
  by (simp add: wrap_i64_def sint_sbintrunc' signed_take_bit_eq_take_bit_shift take_bit_eq_mod)

lemma as_i64_small [simp]: "n < 2 ^ 63 \<Longrightarrow> as_i64 n = int n"
proof -
  assume "n < 2 ^ 63"
  then have "int n < 2 ^ 63"
    by (metis of_nat_less_iff of_nat_numeral of_nat_power)
  then show ?thesis by (simp add: as_i64_def)
qed

lemma as_i64_0 [simp]: "as_i64 0 = 0"
  by (simp add: as_i64_def wrap_i64_def)

lemma u64_sub_le [simp]: "b \<le> a \<Longrightarrow> a < 2 ^ 64 \<Longrightarrow> u64_sub a b = a - b"
  by (simp add: u64_sub_def nat_diff_distrib')

lemma length_to_le_bytes [simp]: "length (to_le_bytes n) = 8"
  by (simp add: to_le_bytes_def)

subsection \<open>The state-and-error monad\<close>

type_synonym ('s, 'e, 'a) sem = "'s \<Rightarrow> ('e + 'a) \<times> 's"

definition ret :: "'a \<Rightarrow> ('s, 'e, 'a) sem" where
  "ret a = (\<lambda>s. (Inr a, s))"

definition throw :: "'e \<Rightarrow> ('s, 'e, 'a) sem" where
  "throw e = (\<lambda>s. (Inl e, s))"

definition bnd :: "('s, 'e, 'a) sem \<Rightarrow> ('a \<Rightarrow> ('s, 'e, 'b) sem) \<Rightarrow> ('s, 'e, 'b) sem" where
  "bnd m f = (\<lambda>s. case m s of (r, s') \<Rightarrow> (case r of Inl e \<Rightarrow> (Inl e, s') | Inr a \<Rightarrow> f a s'))"

definition gets :: "('s \<Rightarrow> 'a) \<Rightarrow> ('s, 'e, 'a) sem" where
  "gets f = (\<lambda>s. (Inr (f s), s))"

definition modif :: "('s \<Rightarrow> 's) \<Rightarrow> ('s, 'e, unit) sem" where
  "modif f = (\<lambda>s. (Inr (), f s))"

text \<open>Lift a result that needs no state (\<open>?\<close> on a \<open>Result\<close> value).\<close>

definition lift :: "'e + 'a \<Rightarrow> ('s, 'e, 'a) sem" where
  "lift r = (\<lambda>s. (r, s))"

text \<open>Run a computation on a component of the state.\<close>

definition zoom :: "('s \<Rightarrow> 't) \<Rightarrow> ('t \<Rightarrow> 's \<Rightarrow> 's) \<Rightarrow> ('t, 'e, 'a) sem \<Rightarrow> ('s, 'e, 'a) sem" where
  "zoom g p m = (\<lambda>s. case m (g s) of (r, t) \<Rightarrow> (r, p t s))"

text \<open>\<open>Result::map_err\<close>, and the implicit \<open>From\<close> conversion of the \<open>?\<close> operator.\<close>

definition map_err :: "('e \<Rightarrow> 'f) \<Rightarrow> ('s, 'e, 'a) sem \<Rightarrow> ('s, 'f, 'a) sem" where
  "map_err h m = (\<lambda>s. case m s of (r, s') \<Rightarrow> (case r of Inl e \<Rightarrow> (Inl (h e), s') | Inr a \<Rightarrow> (Inr a, s')))"

text \<open>Observe the result of a fallible call without propagating its error.\<close>

definition attempt :: "('s, 'e, 'a) sem \<Rightarrow> ('s, 'f, 'e + 'a) sem" where
  "attempt m = (\<lambda>s. case m s of (r, s') \<Rightarrow> (Inr r, s'))"

definition whenM :: "bool \<Rightarrow> ('s, 'e, unit) sem \<Rightarrow> ('s, 'e, unit) sem" where
  "whenM b m = (if b then m else ret ())"

text \<open>\<open>for\<close> over a list, stopping at the first error.\<close>

primrec for_each :: "('a \<Rightarrow> ('s, 'e, unit) sem) \<Rightarrow> 'a list \<Rightarrow> ('s, 'e, unit) sem" where
  "for_each f [] = ret ()"
| "for_each f (x # xs) = bnd (f x) (\<lambda>_. for_each f xs)"

named_theorems sem_simps \<open>unfolding the monad on a concrete state\<close>

lemma bnd_apply [sem_simps]:
  "bnd m f s = (case m s of (r, s') \<Rightarrow> (case r of Inl e \<Rightarrow> (Inl e, s') | Inr a \<Rightarrow> f a s'))"
  by (simp add: bnd_def)

lemma bnd_Inr [simp]: "m s = (Inr a, s') \<Longrightarrow> bnd m f s = f a s'"
  by (simp add: bnd_def)

lemma bnd_Inl [simp]: "m s = (Inl e, s') \<Longrightarrow> bnd m f s = (Inl e, s')"
  by (simp add: bnd_def)

lemma ret_apply [simp, sem_simps]: "ret a s = (Inr a, s)"
  by (simp add: ret_def)

lemma throw_apply [simp, sem_simps]: "throw e s = (Inl e, s)"
  by (simp add: throw_def)

lemma gets_apply [simp, sem_simps]: "gets f s = (Inr (f s), s)"
  by (simp add: gets_def)

lemma modif_apply [simp, sem_simps]: "modif f s = (Inr (), f s)"
  by (simp add: modif_def)

lemma lift_apply [simp, sem_simps]: "lift r s = (r, s)"
  by (simp add: lift_def)

lemma zoom_apply [sem_simps]: "zoom g p m s = (case m (g s) of (r, t) \<Rightarrow> (r, p t s))"
  by (simp add: zoom_def)

lemma zoom_eq [simp]: "m (g s) = (r, t) \<Longrightarrow> zoom g p m s = (r, p t s)"
  by (simp add: zoom_def)

lemma map_err_apply [sem_simps]:
  "map_err h m s = (case m s of (r, s') \<Rightarrow> (case r of Inl e \<Rightarrow> (Inl (h e), s') | Inr a \<Rightarrow> (Inr a, s')))"
  by (simp add: map_err_def)

lemma map_err_Inr [simp]: "m s = (Inr a, s') \<Longrightarrow> map_err h m s = (Inr a, s')"
  by (simp add: map_err_def)

lemma map_err_Inl [simp]: "m s = (Inl e, s') \<Longrightarrow> map_err h m s = (Inl (h e), s')"
  by (simp add: map_err_def)

lemma attempt_apply [sem_simps]: "attempt m s = (case m s of (r, s') \<Rightarrow> (Inr r, s'))"
  by (simp add: attempt_def)

lemma attempt_eq [simp]: "m s = (r, s') \<Longrightarrow> attempt m s = (Inr r, s')"
  by (simp add: attempt_def)

lemma whenM_True [simp]: "b \<Longrightarrow> whenM b m = m"
  by (simp add: whenM_def)

lemma whenM_False [simp]: "\<not> b \<Longrightarrow> whenM b m = ret ()"
  by (simp add: whenM_def)

lemma bnd_ret [simp]: "bnd (ret a) f = f a"
  by (simp add: bnd_def fun_eq_iff)

lemma bnd_assoc: "bnd (bnd m f) g = bnd m (\<lambda>a. bnd (f a) g)"
  by (auto simp: bnd_def fun_eq_iff split: prod.split sum.split)

lemma bnd_InrE:
  assumes "bnd m f s = (Inr b, s'')"
  obtains a s' where "m s = (Inr a, s')" "f a s' = (Inr b, s'')"
  using assms by (auto simp: bnd_def split: prod.splits sum.splits)

text \<open>Two views of one call: what it returns, and the state it leaves.\<close>

abbreviation result_of :: "('e + 'a) \<times> 's \<Rightarrow> 'e + 'a" where
  "result_of \<equiv> fst"

abbreviation state_of :: "('e + 'a) \<times> 's \<Rightarrow> 's" where
  "state_of \<equiv> snd"

text \<open>
  What a computation preserves, whether it fails or not. The rules follow the combinators, so that
  a preservation proof about an operation is the introduction of its combinators.
\<close>

definition pres :: "('s \<Rightarrow> bool) \<Rightarrow> ('s, 'e, 'a) sem \<Rightarrow> bool" where
  "pres I m \<longleftrightarrow> (\<forall>s. I s \<longrightarrow> I (state_of (m s)))"

named_theorems pres_rules \<open>preservation of a predicate by the combinators\<close>

lemma presI: "(\<And>s. I s \<Longrightarrow> I (state_of (m s))) \<Longrightarrow> pres I m"
  by (simp add: pres_def)

lemma presD: "pres I m \<Longrightarrow> m s = (r, s') \<Longrightarrow> I s \<Longrightarrow> I s'"
  unfolding pres_def by (metis snd_conv)

lemma pres_ret [pres_rules]: "pres I (ret a)"
  by (simp add: pres_def)

lemma pres_throw [pres_rules]: "pres I (throw e)"
  by (simp add: pres_def)

lemma pres_gets [pres_rules]: "pres I (gets f)"
  by (simp add: pres_def)

lemma pres_lift [pres_rules]: "pres I (lift r)"
  by (simp add: pres_def)

lemma pres_modif: "(\<And>s. I s \<Longrightarrow> I (g s)) \<Longrightarrow> pres I (modif g)"
  by (simp add: pres_def)

lemma pres_bnd [pres_rules]:
  assumes "pres I m" "\<And>a. pres I (f a)"
  shows "pres I (bnd m f)"
proof (rule presI)
  fix s assume "I s"
  obtain r s' where m: "m s = (r, s')" by (cases "m s")
  have "I s'" by (rule presD [OF assms(1) m \<open>I s\<close>])
  with m assms(2) show "I (state_of (bnd m f s))" by (cases r) (auto simp: bnd_def pres_def)
qed

text \<open>After reading the state, the continuation may use what it has read.\<close>

lemma pres_bnd_gets: "(\<And>s. I s \<Longrightarrow> I (state_of (f (g s) s))) \<Longrightarrow> pres I (bnd (gets g) f)"
  by (simp add: pres_def)

lemma pres_if [pres_rules]: "(b \<Longrightarrow> pres I m) \<Longrightarrow> (\<not> b \<Longrightarrow> pres I n) \<Longrightarrow> pres I (if b then m else n)"
  by simp

lemma pres_option [pres_rules]:
  "(x = None \<Longrightarrow> pres I m) \<Longrightarrow> (\<And>a. x = Some a \<Longrightarrow> pres I (f a)) \<Longrightarrow> pres I (case x of None \<Rightarrow> m | Some a \<Rightarrow> f a)"
  by (cases x) simp_all

lemma pres_sum [pres_rules]:
  "(\<And>a. x = Inl a \<Longrightarrow> pres I (f a)) \<Longrightarrow> (\<And>a. x = Inr a \<Longrightarrow> pres I (g a)) \<Longrightarrow> pres I (case x of Inl a \<Rightarrow> f a | Inr a \<Rightarrow> g a)"
  by (cases x) simp_all

lemma pres_prod [pres_rules]: "(\<And>a b. x = (a, b) \<Longrightarrow> pres I (f a b)) \<Longrightarrow> pres I (case x of (a, b) \<Rightarrow> f a b)"
  by (cases x) simp

lemma pres_let [pres_rules]: "(\<And>a. a = x \<Longrightarrow> pres I (f a)) \<Longrightarrow> pres I (let a = x in f a)"
  by simp

lemma pres_whenM [pres_rules]: "(b \<Longrightarrow> pres I m) \<Longrightarrow> pres I (whenM b m)"
  by (cases b) (simp_all add: pres_ret)

lemma pres_attempt [pres_rules]: "pres I m \<Longrightarrow> pres I (attempt m)"
  by (auto simp: pres_def attempt_def split: prod.split)

lemma pres_map_err [pres_rules]: "pres I m \<Longrightarrow> pres I (map_err h m)"
  by (auto simp: pres_def map_err_def split: prod.split sum.split)

lemma pres_for_each [pres_rules]: "(\<And>x. pres I (f x)) \<Longrightarrow> pres I (for_each f xs)"
  by (induction xs) (simp_all add: pres_ret pres_bnd)

subsection \<open>Overwriting a slice of a list\<close>

text \<open>\<open>xs[p..p + ys.len()].copy_from_slice(ys)\<close> for a slice that is in range.\<close>

definition overlay :: "'a list \<Rightarrow> nat \<Rightarrow> 'a list \<Rightarrow> 'a list" where
  "overlay xs p ys = take p xs @ ys @ drop (p + length ys) xs"

lemma length_overlay [simp]: "p + length ys \<le> length xs \<Longrightarrow> length (overlay xs p ys) = length xs"
  by (simp add: overlay_def)

lemma overlay_Nil [simp]: "overlay xs p [] = xs"
  by (simp add: overlay_def)

lemma overlay_0_full [simp]: "length xs \<le> length ys \<Longrightarrow> overlay xs 0 ys = ys"
  by (simp add: overlay_def)

lemma overlay_at_end: "p = length xs \<Longrightarrow> overlay xs p ys = xs @ ys"
  by (simp add: overlay_def)

lemma take_overlay_before: "n \<le> p \<Longrightarrow> p \<le> length xs \<Longrightarrow> take n (overlay xs p ys) = take n xs"
  by (simp add: overlay_def min_def)

lemma take_overlay_upto:
  "p \<le> length xs \<Longrightarrow> take (p + length ys) (overlay xs p ys) = take p xs @ ys"
  by (simp add: overlay_def)

lemma drop_overlay_at: "p \<le> length xs \<Longrightarrow> drop p (overlay xs p ys) = ys @ drop (p + length ys) xs"
  by (simp add: overlay_def)

lemma drop_overlay_after:
  "p + length ys \<le> n \<Longrightarrow> p \<le> length xs \<Longrightarrow> drop n (overlay xs p ys) = drop n xs"
  by (simp add: overlay_def)

lemma slice_overlay_before:
  "a + n \<le> p \<Longrightarrow> p \<le> length xs \<Longrightarrow> take n (drop a (overlay xs p ys)) = take n (drop a xs)"
  by (simp add: take_drop take_overlay_before)

lemma slice_overlay_after:
  "p + length ys \<le> a \<Longrightarrow> p \<le> length xs \<Longrightarrow> take n (drop a (overlay xs p ys)) = take n (drop a xs)"
  by (simp add: drop_overlay_after)

lemma slice_overlay_exact:
  "p \<le> length xs \<Longrightarrow> take (length ys) (drop p (overlay xs p ys)) = ys"
  by (simp add: drop_overlay_at)

lemma overlay_append_right:
  "p + length ys \<le> length xs \<Longrightarrow> overlay (xs @ zs) p ys = overlay xs p ys @ zs"
  by (simp add: overlay_def)

lemma overlay_overlay_adjacent:
  "p + length ys \<le> length xs \<or> p \<le> length xs \<Longrightarrow>
   overlay (overlay xs p ys) (p + length ys) zs = overlay xs p (ys @ zs)"
  by (auto simp: overlay_def ac_simps)

lemma take_overlay_max:
  assumes "p \<le> n" "n \<le> length xs" "p + length ys \<le> length xs"
  shows "take (max (p + length ys) n) (overlay xs p ys) = overlay (take n xs) p ys"
proof (cases "n \<le> p + length ys")
  case True
  with assms show ?thesis by (cases ys) (auto simp: overlay_def max_def min_def)
next
  case False
  with assms show ?thesis by (simp add: overlay_def max_def min_def drop_take)
qed

subsection \<open>Arithmetic on block positions\<close>

lemma block_split: "(0::nat) < b \<Longrightarrow> n = (n div b) * b + n mod b"
  by simp

lemma div_add_block [simp]: "r < b \<Longrightarrow> (q * b + r) div b = (q::nat)"
  by (metis add.commute add_cancel_right_right div_less div_mult_self1 not_less_zero)

lemma mod_add_block [simp]: "r < b \<Longrightarrow> (q * b + r) mod b = (r::nat)"
  by simp

end
