(* ===== verification/Std_IO.thy ===== *)
theory Std_IO
  imports Prelude
begin

text \<open>
  What the program uses of \<open>std::io\<close>: error kinds, \<open>SeekFrom\<close>, an open file or cursor (its
  bytes and its position), the provided methods \<open>Write::write_all\<close> and
  \<open>Read::read_to_end\<close>, and the contracts of the \<open>Read\<close> and \<open>Write\<close> traits as locales.

  A panic of the Rust code (an \<open>unwrap\<close> of \<open>None\<close>, a slice out of range) is the error value
  \<open>Panic\<close>; it is never produced by a regular \<open>Err\<close>.
\<close>

subsection \<open>Errors and seek targets\<close>

datatype io_kind = InvalidInput | UnexpectedEof | WriteZero | NotFound | AlreadyExists
  | NotADirectory | DirectoryNotEmpty | IsADirectory | InvalidData | Other

datatype io_error = IoErr io_kind string | Panic

datatype SeekFrom = Start nat | End int | Current int

text \<open>An open \<open>File\<close> or an \<open>io::Cursor\<close>: the bytes behind it and the stream position.\<close>

record stream =
  sdata :: bytes
  spos :: nat

abbreviation stream_of :: "bytes \<Rightarrow> stream" where
  "stream_of d \<equiv> \<lparr>sdata = d, spos = 0\<rparr>"

definition srest :: "stream \<Rightarrow> bytes" where
  "srest s = drop (spos s) (sdata s)"

subsection \<open>Files and cursors\<close>

text \<open>\<open>read\<close> into a buffer of \<open>n\<close> bytes: returns the bytes placed in the buffer.\<close>

definition stream_read :: "nat \<Rightarrow> (stream, io_error, bytes) sem" where
  "stream_read n = (\<lambda>s. (Inr (take n (srest s)), s\<lparr>spos := spos s + length (take n (srest s))\<rparr>))"

text \<open>Writing at the position overwrites, and extends the file; a gap reads as zeros.\<close>

definition file_write_at :: "bytes \<Rightarrow> nat \<Rightarrow> bytes \<Rightarrow> bytes" where
  "file_write_at d p b = (if b = [] then d else overlay (d @ replicate (p - length d) 0) p b)"

definition stream_write :: "bytes \<Rightarrow> (stream, io_error, nat) sem" where
  "stream_write b = (\<lambda>s. (Inr (length b),
     s\<lparr>sdata := file_write_at (sdata s) (spos s) b, spos := spos s + length b\<rparr>))"

definition stream_seek_start :: "nat \<Rightarrow> (stream, io_error, nat) sem" where
  "stream_seek_start p = (\<lambda>s. (Inr p, s\<lparr>spos := p\<rparr>))"

text \<open>\<open>Seek::stream_len\<close> leaves the position where it was.\<close>

definition stream_len :: "stream \<Rightarrow> nat" where
  "stream_len s = length (sdata s)"

subsection \<open>Provided methods of the traits\<close>

text \<open>
  \<open>Write::write_all\<close>: repeat \<open>write\<close> on what is left; zero bytes accepted is the error
  \<open>WriteZero\<close>. \<open>wr\<close> is the \<open>write\<close> of the concrete writer and returns how many bytes it took;
  slicing past the end of the buffer would panic.
\<close>

function write_all :: "(bytes \<Rightarrow> ('s, io_error, nat) sem) \<Rightarrow> bytes \<Rightarrow> ('s, io_error, unit) sem" where
  "write_all wr b s =
     (if b = [] then (Inr (), s)
      else case wr b s of
        (Inl e, s') \<Rightarrow> (Inl e, s')
      | (Inr n, s') \<Rightarrow>
          (if n = 0 then (Inl (IoErr WriteZero ''failed to write whole buffer''), s')
           else if length b < n then (Inl Panic, s')
           else write_all wr (drop n b) s'))"
  by pat_completeness auto
termination
  by (relation "measure (\<lambda>(wr, b, s). length b)") auto

declare write_all.simps [simp del]

text \<open>
  Read until the reader reports the end or the buffer of \<open>n\<close> bytes is full: the loop that
  \<open>decrypt_block!\<close> and \<open>stream_util::read\<close> run. A reader that overruns the slice would panic.
\<close>

function read_fill :: "(nat \<Rightarrow> ('s, io_error, bytes) sem) \<Rightarrow> nat \<Rightarrow> bytes \<Rightarrow> ('s, io_error, bytes) sem" where
  "read_fill rd n acc s =
     (case rd n s of
        (Inl e, s') \<Rightarrow> (Inl e, s')
      | (Inr d, s') \<Rightarrow>
          (if d = [] then (Inr acc, s')
           else if n < length d then (Inl Panic, s')
           else read_fill rd (n - length d) (acc @ d) s'))"
  by pat_completeness auto
termination
proof (relation "measure (\<lambda>(rd, n, acc, s). n)", simp, clarsimp)
  fix n and b :: bytes
  assume "b \<noteq> []" "\<not> n < length b"
  then show "n - length b < n" by (cases b) auto
qed

declare read_fill.simps [simp del]

subsection \<open>The contract of Read\<close>

text \<open>
  \<open>rem s\<close> is what the reader still has to deliver. A call with a nonempty buffer of \<open>n\<close> bytes
  delivers a prefix of it of at most \<open>n\<close> bytes, which is empty only if nothing remains.
\<close>

locale io_reader =
  fixes rd :: "nat \<Rightarrow> ('s, io_error, bytes) sem"
    and rem :: "'s \<Rightarrow> bytes"
    and inv :: "'s \<Rightarrow> bool"
  assumes rd_ok: "inv s \<Longrightarrow> 0 < n \<Longrightarrow>
      \<exists>k s'. rd n s = (Inr (take k (rem s)), s') \<and> k \<le> n \<and> k \<le> length (rem s)
        \<and> (rem s \<noteq> [] \<longrightarrow> 0 < k) \<and> rem s' = drop k (rem s) \<and> inv s'"
begin

lemma rdE:
  assumes "inv s" "0 < n"
  obtains k s' where "rd n s = (Inr (take k (rem s)), s')" "k \<le> n" "k \<le> length (rem s)"
    "rem s \<noteq> [] \<Longrightarrow> 0 < k" "rem s' = drop k (rem s)" "inv s'"
  using rd_ok [OF assms] by blast

end

text \<open>
  A reader for which a call with an empty buffer changes nothing. Files are such readers; the
  decrypting reader is not (theory \<open>Crypto_Read\<close>).
\<close>

locale io_reader_zero = io_reader +
  assumes rd_zero: "inv s \<Longrightarrow> \<exists>s'. rd 0 s = (Inr [], s') \<and> rem s' = rem s \<and> inv s'"
begin

lemma read_fill_ok:
  "inv s \<Longrightarrow> \<exists>s'. read_fill rd n acc s = (Inr (acc @ take n (rem s)), s')
      \<and> rem s' = drop n (rem s) \<and> inv s'"
proof (induction n arbitrary: acc s rule: less_induct)
  case (less n)
  show ?case
  proof (cases "n = 0")
    case True
    with rd_zero [OF less.prems] show ?thesis by (auto simp: read_fill.simps)
  next
    case False
    then obtain k s' where k: "rd n s = (Inr (take k (rem s)), s')" "k \<le> n" "k \<le> length (rem s)"
        "rem s \<noteq> [] \<Longrightarrow> 0 < k" "rem s' = drop k (rem s)" "inv s'"
      using rdE [OF less.prems, of n] by blast
    show ?thesis
    proof (cases "k = 0")
      case True
      with k show ?thesis by (cases "rem s") (auto simp: read_fill.simps)
    next
      case False
      then have "n - k < n" using \<open>n \<noteq> 0\<close> by simp
      from less.IH [OF this k(6), of "acc @ take k (rem s)"]
      obtain s'' where s'': "read_fill rd (n - k) (acc @ take k (rem s)) s' =
          (Inr ((acc @ take k (rem s)) @ take (n - k) (rem s')), s'')"
          "rem s'' = drop (n - k) (rem s')" "inv s''" by blast
      have "take k (rem s) @ take (n - k) (rem s') = take n (rem s)"
        using k(2,5) by (metis le_add_diff_inverse take_add)
      moreover have "drop (n - k) (rem s') = drop n (rem s)"
        using k(2,5) by simp
      ultimately show ?thesis
        using False k s'' by (auto simp: read_fill.simps [of rd n acc s])
    qed
  qed
qed

end

subsection \<open>The contract of Write\<close>

text \<open>
  \<open>content s\<close> is everything written so far, in order. A write takes a nonempty prefix of a
  nonempty buffer. An appending writer never fails while the invariant holds.
\<close>

locale io_writer =
  fixes wr :: "bytes \<Rightarrow> ('s, io_error, nat) sem"
    and content :: "'s \<Rightarrow> bytes"
    and inv :: "'s \<Rightarrow> bool"
  assumes wr_ok: "inv s \<Longrightarrow> \<exists>k s'. wr b s = (Inr k, s') \<and> k \<le> length b \<and> (b \<noteq> [] \<longrightarrow> 0 < k)
      \<and> content s' = content s @ take k b \<and> inv s'"
begin

lemma write_all_ok:
  "inv s \<Longrightarrow> \<exists>s'. write_all wr b s = (Inr (), s') \<and> content s' = content s @ b \<and> inv s'"
proof (induction "length b" arbitrary: b s rule: less_induct)
  case less
  show ?case
  proof (cases "b = []")
    case True
    with less.prems show ?thesis by (simp add: write_all.simps)
  next
    case False
    obtain k s' where k: "wr b s = (Inr k, s')" "k \<le> length b" "0 < k"
        "content s' = content s @ take k b" "inv s'"
      using wr_ok [OF less.prems, of b] False by blast
    from k(2,3) have "length (drop k b) < length b" by simp
    from less.hyps [OF this k(5)] obtain s'' where
      "write_all wr (drop k b) s' = (Inr (), s'')" "content s'' = content s' @ drop k b" "inv s''"
      by blast
    with False k show ?thesis by (simp add: write_all.simps [of wr b s])
  qed
qed

end

text \<open>
  A writer with a position: \<open>rel s d p\<close> says that the writer stands for the bytes \<open>d\<close> and is
  positioned at \<open>p\<close>, inside them or at their end. A write overwrites from there.
\<close>

locale io_writer_at =
  fixes wr :: "bytes \<Rightarrow> ('s, io_error, nat) sem"
    and rel :: "'s \<Rightarrow> bytes \<Rightarrow> nat \<Rightarrow> bool"
  assumes rel_pos: "rel s d p \<Longrightarrow> p \<le> length d"
    and wr_at: "rel s d p \<Longrightarrow> \<exists>k s'. wr b s = (Inr k, s') \<and> k \<le> length b \<and> (b \<noteq> [] \<longrightarrow> 0 < k)
      \<and> rel s' (overlay d p (take k b)) (p + k)"
begin

lemma write_all_at:
  "rel s d p \<Longrightarrow> \<exists>s'. write_all wr b s = (Inr (), s') \<and> rel s' (overlay d p b) (p + length b)"
proof (induction "length b" arbitrary: b s d p rule: less_induct)
  case less
  show ?case
  proof (cases "b = []")
    case True
    with less.prems show ?thesis by (simp add: write_all.simps)
  next
    case False
    obtain k s' where k: "wr b s = (Inr k, s')" "k \<le> length b" "0 < k"
        "rel s' (overlay d p (take k b)) (p + k)"
      using wr_at [OF less.prems, of b] False by blast
    from k(2,3) have "length (drop k b) < length b" by simp
    from less.hyps [OF this k(4)] obtain s'' where s'': "write_all wr (drop k b) s' = (Inr (), s'')"
      "rel s'' (overlay (overlay d p (take k b)) (p + k) (drop k b)) (p + k + length (drop k b))" by blast
    have "overlay (overlay d p (take k b)) (p + k) (drop k b) = overlay d p b"
      using overlay_overlay_adjacent [of p "take k b" d "drop k b"] rel_pos [OF less.prems] k(2) by simp
    with False k s'' show ?thesis by (simp add: write_all.simps [of wr b s])
  qed
qed

end

subsection \<open>Files implement the contracts\<close>

lemma srest_stream_of [simp]: "srest (stream_of d) = d"
  by (simp add: srest_def)

lemma stream_read_rest: "srest (state_of (stream_read n s)) = drop n (srest s)"
  by (auto simp: stream_read_def srest_def min_def add.commute)

interpretation file_reader: io_reader_zero stream_read srest "\<lambda>_. True"
proof unfold_locales
  fix s :: stream and n :: nat
  assume "0 < n"
  let ?k = "min n (length (srest s))"
  have "stream_read n s = (Inr (take ?k (srest s)), state_of (stream_read n s))"
    by (simp add: stream_read_def min_def)
  moreover have "srest (state_of (stream_read n s)) = drop ?k (srest s)"
    by (simp add: stream_read_rest min_def)
  ultimately show "\<exists>k s'. stream_read n s = (Inr (take k (srest s)), s') \<and> k \<le> n \<and>
      k \<le> length (srest s) \<and> (srest s \<noteq> [] \<longrightarrow> 0 < k) \<and> srest s' = drop k (srest s) \<and> True"
    using \<open>0 < n\<close> by (intro exI [of _ ?k] exI [of _ "state_of (stream_read n s)"]) auto
qed (simp add: stream_read_def)

text \<open>A file opened for appending: the position is at its end.\<close>

definition at_end :: "stream \<Rightarrow> bool" where
  "at_end s \<longleftrightarrow> spos s = length (sdata s)"

interpretation file_appender: io_writer stream_write sdata at_end
  by unfold_locales
     (auto simp: stream_write_def at_end_def file_write_at_def overlay_at_end intro!: exI)

interpretation file_at: io_writer_at stream_write
  "\<lambda>s d p. sdata s = d \<and> spos s = p \<and> p \<le> length d"
  by unfold_locales (auto simp: stream_write_def file_write_at_def overlay_def intro!: exI)

lemma stream_write_all:
  "write_all stream_write b s = (Inr (),
     s\<lparr>sdata := file_write_at (sdata s) (spos s) b, spos := spos s + length b\<rparr>)"
  by (cases "b = []")
     (simp_all add: write_all.simps [of _ b] write_all.simps [of _ "[]"] stream_write_def file_write_at_def)

lemma stream_write_all_at_end:
  "at_end s \<Longrightarrow> write_all stream_write b s =
     (Inr (), s\<lparr>sdata := sdata s @ b, spos := length (sdata s @ b)\<rparr>)"
  by (simp add: stream_write_all at_end_def file_write_at_def overlay_at_end)

text \<open>Inside the file, a write replaces exactly the bytes it covers.\<close>

lemma file_write_at_inside:
  "p \<le> length d \<Longrightarrow> file_write_at d p b = overlay d p b"
  by (simp add: file_write_at_def)

lemma stream_read_fill:
  "read_fill stream_read n acc s =
     (Inr (acc @ take n (srest s)), s\<lparr>spos := spos s + length (take n (srest s))\<rparr>)"
proof (cases "take n (srest s) = []")
  case True
  then show ?thesis by (simp add: read_fill.simps [of _ n] stream_read_def)
next
  case False
  let ?s = "s\<lparr>spos := spos s + length (take n (srest s))\<rparr>"
  let ?m = "n - length (take n (srest s))"
  have empty: "take ?m (srest ?s) = []"
    by (auto simp: srest_def min_def)
  have "read_fill stream_read ?m (acc @ take n (srest s)) ?s = (Inr (acc @ take n (srest s)), ?s)"
    by (subst read_fill.simps) (simp only: stream_read_def empty prod.case sum.case if_True, simp)
  with False show ?thesis
    by (simp add: read_fill.simps [of _ n acc s] stream_read_def)
qed

end
