(* ===== verification/Stream_Util.thy ===== *)
theory Stream_Util
  imports Std_IO
begin

text \<open>
  Model of \<open>src/stream_util.rs\<close>: skipping, copying and zero-filling over arbitrary readers and
  writers. The loops are generic in the \<open>read\<close> and \<open>write\<close> of the streams, as in the source;
  their correctness is proved once, inside the locales of the stream contracts, and holds for
  every stream that interprets them. All three loops are total functions.
\<close>

subsection \<open>Definitions\<close>

definition BUF_SIZE :: nat where
  "BUF_SIZE = 1024 * 1024"

abbreviation unexpected_eof :: io_error where
  "unexpected_eof \<equiv> IoErr UnexpectedEof ''unexpected eof''"

function seek_forward_loop ::
  "(nat \<Rightarrow> ('r, io_error, bytes) sem) \<Rightarrow> nat \<Rightarrow> bool \<Rightarrow> nat \<Rightarrow> ('r, io_error, nat) sem" where
  "seek_forward_loop rd len stop_on_eof pos r =
     (let read_len = (if pos + BUF_SIZE > len then len - pos else BUF_SIZE) in
      if read_len = 0 then (Inr pos, r)
      else case rd read_len r of
        (Inl e, r') \<Rightarrow> (Inl e, r')
      | (Inr d, r') \<Rightarrow>
          (if pos + length d = len then (Inr (pos + length d), r')
           else if d = [] then (if stop_on_eof then (Inr pos, r') else (Inl unexpected_eof, r'))
           else seek_forward_loop rd len stop_on_eof (pos + length d) r'))"
  by pat_completeness auto
termination
proof (relation "measure (\<lambda>(rd, len, stop, pos, r). len - pos)", goal_cases)
  case (2 rd len stop pos r read_len x r' d)
  then have "pos < len" by (auto simp: BUF_SIZE_def split: if_splits)
  moreover have "0 < length d" using 2 by simp
  ultimately show ?case by (simp del: length_greater_0_conv)
qed simp

declare seek_forward_loop.simps [simp del]

definition seek_forward ::
  "(nat \<Rightarrow> ('r, io_error, bytes) sem) \<Rightarrow> nat \<Rightarrow> bool \<Rightarrow> ('r, io_error, nat) sem" where
  "seek_forward rd len stop_on_eof =
     (if len = 0 then ret 0 else seek_forward_loop rd len stop_on_eof 0)"

definition seek_forward_exact ::
  "(nat \<Rightarrow> ('r, io_error, bytes) sem) \<Rightarrow> nat \<Rightarrow> ('r, io_error, unit) sem" where
  "seek_forward_exact rd len = bnd (seek_forward rd len False) (\<lambda>_. ret ())"

text \<open>\<open>copy\<close> runs on a reader and a writer at once; the state is the pair of both.\<close>

function copy_loop ::
  "(nat \<Rightarrow> ('r, io_error, bytes) sem) \<Rightarrow> (bytes \<Rightarrow> ('w, io_error, nat) sem) \<Rightarrow> nat \<Rightarrow> bool \<Rightarrow> nat
     \<Rightarrow> ('r \<times> 'w, io_error, nat) sem" where
  "copy_loop rd wr len stop_on_eof read_pos (r, w) =
     (let buf_len = min BUF_SIZE (len - read_pos) in
      case rd buf_len r of
        (Inl e, r') \<Rightarrow> (Inl e, (r', w))
      | (Inr d, r') \<Rightarrow>
          (case write_all wr d w of
             (Inl e, w') \<Rightarrow> (Inl e, (r', w'))
           | (Inr _, w') \<Rightarrow>
               (if read_pos + length d = len then (Inr (read_pos + length d), (r', w'))
                else if d = [] then
                  (if stop_on_eof then (Inr read_pos, (r', w')) else (Inl unexpected_eof, (r', w')))
                else if len < read_pos + length d then (Inl Panic, (r', w'))
                else copy_loop rd wr len stop_on_eof (read_pos + length d) (r', w'))))"
  by pat_completeness auto
termination
proof (relation "measure (\<lambda>(rd, wr, len, stop, pos, r, w). len - pos)", goal_cases)
  case (2 rd wr len stop pos r w buf_len x r' d y w' u)
  then show ?case by (cases d) auto
qed simp

declare copy_loop.simps [simp del]

definition copy ::
  "(nat \<Rightarrow> ('r, io_error, bytes) sem) \<Rightarrow> (bytes \<Rightarrow> ('w, io_error, nat) sem) \<Rightarrow> nat \<Rightarrow> bool
     \<Rightarrow> ('r \<times> 'w, io_error, nat) sem" where
  "copy rd wr len stop_on_eof = (if len = 0 then ret 0 else copy_loop rd wr len stop_on_eof 0)"

definition copy_exact ::
  "(nat \<Rightarrow> ('r, io_error, bytes) sem) \<Rightarrow> (bytes \<Rightarrow> ('w, io_error, nat) sem) \<Rightarrow> nat
     \<Rightarrow> ('r \<times> 'w, io_error, unit) sem" where
  "copy_exact rd wr len = bnd (copy rd wr len False) (\<lambda>_. ret ())"

function fill_zeros_loop ::
  "(bytes \<Rightarrow> ('w, io_error, nat) sem) \<Rightarrow> nat \<Rightarrow> nat \<Rightarrow> ('w, io_error, unit) sem" where
  "fill_zeros_loop wr len written w =
     (let buf_len = min BUF_SIZE (len - written) in
      case write_all wr (replicate buf_len 0) w of
        (Inl e, w') \<Rightarrow> (Inl e, w')
      | (Inr _, w') \<Rightarrow>
          (if written + buf_len = len then (Inr (), w')
           else if len \<le> written then (Inl Panic, w')
           else fill_zeros_loop wr len (written + buf_len) w'))"
  by pat_completeness auto
termination
  by (relation "measure (\<lambda>(wr, len, written, w). len - written)") (auto simp: BUF_SIZE_def)

declare fill_zeros_loop.simps [simp del]

definition fill_zeros :: "(bytes \<Rightarrow> ('w, io_error, nat) sem) \<Rightarrow> nat \<Rightarrow> ('w, io_error, unit) sem" where
  "fill_zeros wr len = (if len = 0 then ret () else fill_zeros_loop wr len 0)"

text \<open>\<open>stream_util::read\<close>: fill a buffer of \<open>n\<close> bytes, stopping at the end of the stream.\<close>

function read_loop :: "(nat \<Rightarrow> ('r, io_error, bytes) sem) \<Rightarrow> nat \<Rightarrow> bytes \<Rightarrow> ('r, io_error, bytes) sem" where
  "read_loop rd n acc r =
     (case rd (n - length acc) r of
        (Inl e, r') \<Rightarrow> (Inl e, r')
      | (Inr d, r') \<Rightarrow>
          (if d = [] then (Inr acc, r')
           else if length (acc @ d) = n then (Inr (acc @ d), r')
           else if n < length (acc @ d) then (Inl Panic, r')
           else read_loop rd n (acc @ d) r'))"
  by pat_completeness auto
termination
proof (relation "measure (\<lambda>(rd, n, acc, r). n - length acc)", goal_cases)
  case (2 rd n acc r x r' d)
  then show ?case by (cases d) auto
qed simp

declare read_loop.simps [simp del]

definition su_read :: "(nat \<Rightarrow> ('r, io_error, bytes) sem) \<Rightarrow> nat \<Rightarrow> ('r, io_error, bytes) sem" where
  "su_read rd n = read_loop rd n []"

subsection \<open>Correctness over any reader\<close>

context io_reader
begin

lemma seek_forward_loop_ok:
  assumes "inv r" "pos \<le> len" "stop \<or> len - pos \<le> length (rem r)"
  shows "\<exists>r'. seek_forward_loop rd len stop pos r = (Inr (pos + min (len - pos) (length (rem r))), r')
      \<and> rem r' = drop (len - pos) (rem r) \<and> inv r'"
  using assms
proof (induction "len - pos" arbitrary: pos r rule: less_induct)
  case less
  let ?n = "if pos + BUF_SIZE > len then len - pos else BUF_SIZE"
  show ?case
  proof (cases "?n = 0")
    case True
    with less.prems show ?thesis
      by (auto simp: seek_forward_loop.simps BUF_SIZE_def split: if_splits)
  next
    case False
    then obtain k r' where k: "rd ?n r = (Inr (take k (rem r)), r')" "k \<le> ?n" "k \<le> length (rem r)"
        "rem r \<noteq> [] \<Longrightarrow> 0 < k" "rem r' = drop k (rem r)" "inv r'"
      using rdE [OF less.prems(1), of ?n] by blast
    from k(2) have kl: "k \<le> len - pos" by (auto split: if_splits)
    consider (eof) "rem r = []" | (full) "rem r \<noteq> []" "pos + k = len" | (more) "0 < k" "pos + k < len"
      using k(4) kl less.prems(2) by (metis le_neq_implies_less le_diff_conv2 add.commute)
    then show ?thesis
    proof cases
      case eof
      with False k less.prems show ?thesis
        by (auto simp: seek_forward_loop.simps [of rd len stop pos r] Let_def)
    next
      case full
      with False k show ?thesis
        by (auto simp: seek_forward_loop.simps [of rd len stop pos r] Let_def)
    next
      case more
      then have "len - (pos + k) < len - pos" and "stop \<or> len - (pos + k) \<le> length (rem r')"
        using less.prems(3) k(3,5) by auto
      from less.hyps [OF this(1) k(6) _ this(2)] more obtain r'' where
        "seek_forward_loop rd len stop (pos + k) r' =
           (Inr (pos + k + min (len - (pos + k)) (length (rem r'))), r'')"
        "rem r'' = drop (len - (pos + k)) (rem r')" "inv r''" by auto
      with False k more show ?thesis
        by (auto simp: seek_forward_loop.simps [of rd len stop pos r] Let_def min_def)
    qed
  qed
qed

lemma seek_forward_loop_eof:
  assumes "inv r" "pos \<le> len" "length (rem r) < len - pos"
  shows "\<exists>r'. seek_forward_loop rd len False pos r = (Inl unexpected_eof, r') \<and> rem r' = [] \<and> inv r'"
  using assms
proof (induction "len - pos" arbitrary: pos r rule: less_induct)
  case less
  let ?n = "if pos + BUF_SIZE > len then len - pos else BUF_SIZE"
  have n: "0 < ?n" using less.prems(3) by (auto simp: BUF_SIZE_def)
  obtain k r' where k: "rd ?n r = (Inr (take k (rem r)), r')" "k \<le> ?n" "k \<le> length (rem r)"
      "rem r \<noteq> [] \<Longrightarrow> 0 < k" "rem r' = drop k (rem r)" "inv r'"
    using rdE [OF less.prems(1) n] by blast
  show ?case
  proof (cases "rem r = []")
    case True
    with n k less.prems show ?thesis
      by (auto simp: seek_forward_loop.simps [of rd len False pos r] Let_def)
  next
    case False
    with k(4) have "0 < k" by blast
    then have "len - (pos + k) < len - pos" "length (rem r') < len - (pos + k)" "pos + k \<le> len"
      using less.prems k(3,5) by auto
    from less.hyps [OF this(1) k(6) this(3,2)] False n k \<open>0 < k\<close> less.prems(3) show ?thesis
      by (auto simp: seek_forward_loop.simps [of rd len False pos r] Let_def)
  qed
qed

lemma seek_forward_ok:
  assumes "inv r" "stop \<or> len \<le> length (rem r)"
  shows "\<exists>r'. seek_forward rd len stop r = (Inr (min len (length (rem r))), r')
      \<and> rem r' = drop len (rem r) \<and> inv r'"
  using seek_forward_loop_ok [of r 0 len stop] assms by (auto simp: seek_forward_def)

text \<open>A nonempty skip that succeeds ends with a read that delivered something.\<close>

lemma seek_forward_loop_last:
  assumes "inv r" "pos < len" "len - pos \<le> length (rem r)"
  shows "\<exists>r0 m d. inv r0 \<and> 0 < m \<and> d \<noteq> []
      \<and> rd m r0 = (Inr d, state_of (seek_forward_loop rd len stop pos r))"
  using assms
proof (induction "len - pos" arbitrary: pos r rule: less_induct)
  case less
  let ?n = "if pos + BUF_SIZE > len then len - pos else BUF_SIZE"
  have n: "0 < ?n" using less.prems(2) by (auto simp: BUF_SIZE_def)
  obtain k r' where k: "rd ?n r = (Inr (take k (rem r)), r')" "k \<le> ?n" "k \<le> length (rem r)"
      "rem r \<noteq> [] \<Longrightarrow> 0 < k" "rem r' = drop k (rem r)" "inv r'"
    using rdE [OF less.prems(1) n] by blast
  have "rem r \<noteq> []" using less.prems(2,3) by auto
  with k(4) have k0: "0 < k" by blast
  have kl: "k \<le> len - pos" using k(2) by (auto split: if_splits)
  show ?case
  proof (cases "pos + k = len")
    case True
    with n k k0 \<open>rem r \<noteq> []\<close> less.prems(1) show ?thesis
      by (intro exI [of _ r] exI [of _ ?n] exI [of _ "take k (rem r)"])
         (auto simp: seek_forward_loop.simps [of rd len stop pos r] Let_def)
  next
    case False
    with kl k0 less.prems have *: "len - (pos + k) < len - pos" "pos + k < len"
        "len - (pos + k) \<le> length (rem r')"
      using k(5) by auto
    have "seek_forward_loop rd len stop pos r = seek_forward_loop rd len stop (pos + k) r'"
      using False n k k0 \<open>rem r \<noteq> []\<close>
      by (simp add: seek_forward_loop.simps [of rd len stop pos r] Let_def min_def)
    with less.hyps [OF *(1) k(6) *(2,3)] show ?thesis by simp
  qed
qed

lemma seek_forward_last:
  assumes "inv r" "0 < len" "len \<le> length (rem r)"
  shows "\<exists>r0 m d. inv r0 \<and> 0 < m \<and> d \<noteq> [] \<and> rd m r0 = (Inr d, state_of (seek_forward rd len stop r))"
  using seek_forward_loop_last [of r 0 len stop] assms by (simp add: seek_forward_def)

lemma seek_forward_eof:
  "inv r \<Longrightarrow> length (rem r) < len \<Longrightarrow>
   \<exists>r'. seek_forward rd len False r = (Inl unexpected_eof, r') \<and> rem r' = [] \<and> inv r'"
  using seek_forward_loop_eof [of r 0 len] by (auto simp: seek_forward_def)

lemma read_loop_ok:
  assumes "inv r" "length acc < n"
  shows "\<exists>r'. read_loop rd n acc r = (Inr (acc @ take (n - length acc) (rem r)), r')
      \<and> rem r' = drop (n - length acc) (rem r) \<and> inv r'"
  using assms
proof (induction "n - length acc" arbitrary: acc r rule: less_induct)
  case less
  let ?m = "n - length acc"
  obtain k r' where k: "rd ?m r = (Inr (take k (rem r)), r')" "k \<le> ?m" "k \<le> length (rem r)"
      "rem r \<noteq> [] \<Longrightarrow> 0 < k" "rem r' = drop k (rem r)" "inv r'"
    using rdE [OF less.prems(1), of ?m] less.prems(2) by auto
  consider (eof) "rem r = []" | (full) "rem r \<noteq> []" "k = ?m" | (more) "0 < k" "k < ?m"
    using k(2,4) by (metis le_neq_implies_less)
  then show ?case
  proof cases
    case eof
    with k show ?thesis by (simp add: read_loop.simps [of rd n acc r])
  next
    case full
    with k less.prems show ?thesis by (auto simp: read_loop.simps [of rd n acc r])
  next
    case more
    let ?acc = "acc @ take k (rem r)"
    have len: "length ?acc = length acc + k" using k(3) by simp
    with more less.prems have "n - length ?acc < ?m" "length ?acc < n" by auto
    from less.hyps [OF this(1) k(6) this(2)] obtain r'' where r'':
      "read_loop rd n ?acc r' = (Inr (?acc @ take (n - length ?acc) (rem r')), r'')"
      "rem r'' = drop (n - length ?acc) (rem r')" "inv r''" by blast
    have "take k (rem r) @ take (?m - k) (rem r') = take ?m (rem r)"
      using more(2) k(5) by (metis le_add_diff_inverse less_imp_le take_add)
    with more k len r'' show ?thesis
      by (auto simp: read_loop.simps [of rd n acc r])
  qed
qed

lemma su_read_ok:
  assumes "inv r" "0 < n"
  shows "\<exists>r'. su_read rd n r = (Inr (take n (rem r)), r') \<and> rem r' = drop n (rem r) \<and> inv r'"
  using read_loop_ok [of r "[]" n] assms by (simp add: su_read_def)

lemma read_loop_last:
  assumes "inv r" "length acc < n" "n - length acc \<le> length (rem r)"
  shows "\<exists>r0 m d. inv r0 \<and> 0 < m \<and> d \<noteq> [] \<and> rd m r0 = (Inr d, state_of (read_loop rd n acc r))"
  using assms
proof (induction "n - length acc" arbitrary: acc r rule: less_induct)
  case less
  let ?m = "n - length acc"
  obtain k r' where k: "rd ?m r = (Inr (take k (rem r)), r')" "k \<le> ?m" "k \<le> length (rem r)"
      "rem r \<noteq> [] \<Longrightarrow> 0 < k" "rem r' = drop k (rem r)" "inv r'"
    using rdE [OF less.prems(1), of ?m] less.prems(2) by auto
  have ne: "rem r \<noteq> []" using less.prems(2,3) by auto
  with k(4) have k0: "0 < k" by blast
  show ?case
  proof (cases "k = ?m")
    case True
    with k k0 ne less.prems show ?thesis
      by (intro exI [of _ r] exI [of _ ?m] exI [of _ "take k (rem r)"])
         (auto simp: read_loop.simps [of rd n acc r])
  next
    case False
    let ?acc = "acc @ take k (rem r)"
    have len: "length ?acc = length acc + k" using k(3) by simp
    with False k k0 less.prems have *: "n - length ?acc < ?m" "length ?acc < n"
        "n - length ?acc \<le> length (rem r')" by auto
    have "read_loop rd n acc r = read_loop rd n ?acc r'"
      using False k k0 ne by (auto simp: read_loop.simps [of rd n acc r])
    with less.hyps [OF *(1) k(6) *(2,3)] show ?thesis by simp
  qed
qed

lemma su_read_last:
  assumes "inv r" "0 < n" "n \<le> length (rem r)"
  shows "\<exists>r0 m d. inv r0 \<and> 0 < m \<and> d \<noteq> [] \<and> rd m r0 = (Inr d, state_of (su_read rd n r))"
  using read_loop_last [of r "[]" n] assms by (simp add: su_read_def)

end

subsection \<open>Correctness over any writer\<close>

context io_writer
begin

lemma fill_zeros_loop_ok:
  assumes "inv w" "written < len"
  shows "\<exists>w'. fill_zeros_loop wr len written w = (Inr (), w')
      \<and> content w' = content w @ replicate (len - written) 0 \<and> inv w'"
  using assms
proof (induction "len - written" arbitrary: written w rule: less_induct)
  case less
  let ?n = "min BUF_SIZE (len - written)"
  obtain w' where w': "write_all wr (replicate ?n 0) w = (Inr (), w')"
      "content w' = content w @ replicate ?n 0" "inv w'"
    using write_all_ok [OF less.prems(1)] by blast
  show ?case
  proof (cases "written + ?n = len")
    case True
    with w' less.prems show ?thesis
      by (auto simp: fill_zeros_loop.simps [of wr len written w] Let_def)
  next
    case False
    with less.prems have "written + ?n < len" "len - (written + ?n) < len - written"
      by (auto simp: BUF_SIZE_def)
    from less.hyps [OF this(2) w'(3) this(1)] obtain w'' where
      "fill_zeros_loop wr len (written + ?n) w' = (Inr (), w'')"
      "content w'' = content w' @ replicate (len - (written + ?n)) 0" "inv w''" by blast
    moreover have "replicate ?n (0::byte) @ replicate (len - (written + ?n)) 0 = replicate (len - written) 0"
      using \<open>written + ?n < len\<close> by (simp flip: replicate_add)
    ultimately show ?thesis
      using False w' less.prems by (auto simp: fill_zeros_loop.simps [of wr len written w] Let_def)
  qed
qed

lemma fill_zeros_ok:
  "inv w \<Longrightarrow> \<exists>w'. fill_zeros wr len w = (Inr (), w') \<and> content w' = content w @ replicate len 0 \<and> inv w'"
  using fill_zeros_loop_ok [of w 0 len] by (auto simp: fill_zeros_def)

end

subsection \<open>Correctness of copy over any reader and writer\<close>

locale io_pipe = src: io_reader rd rem rinv + dst: io_writer wr content winv
  for rd :: "nat \<Rightarrow> ('r, io_error, bytes) sem" and rem rinv
    and wr :: "bytes \<Rightarrow> ('w, io_error, nat) sem" and content winv
begin

lemma copy_loop_ok:
  assumes "rinv r" "winv w" "pos < len" "stop \<or> len - pos \<le> length (rem r)"
  shows "\<exists>r' w'. copy_loop rd wr len stop pos (r, w) =
        (Inr (pos + min (len - pos) (length (rem r))), (r', w'))
      \<and> rem r' = drop (len - pos) (rem r) \<and> rinv r'
      \<and> content w' = content w @ take (len - pos) (rem r) \<and> winv w'"
  using assms
proof (induction "len - pos" arbitrary: pos r w rule: less_induct)
  case less
  let ?n = "min BUF_SIZE (len - pos)"
  have n: "0 < ?n" using less.prems(3) by (simp add: BUF_SIZE_def)
  obtain k r' where k: "rd ?n r = (Inr (take k (rem r)), r')" "k \<le> ?n" "k \<le> length (rem r)"
      "rem r \<noteq> [] \<Longrightarrow> 0 < k" "rem r' = drop k (rem r)" "rinv r'"
    using src.rdE [OF less.prems(1) n] by blast
  obtain w' where w': "write_all wr (take k (rem r)) w = (Inr (), w')"
      "content w' = content w @ take k (rem r)" "winv w'"
    using dst.write_all_ok [OF less.prems(2)] by blast
  note unfold = copy_loop.simps [of rd wr len _ pos r w] Let_def
  consider (eof) "rem r = []" | (full) "rem r \<noteq> []" "pos + k = len" | (more) "0 < k" "pos + k < len"
    using k(2,4) less.prems(3)
    by (metis le_neq_implies_less le_diff_conv2 add.commute less_imp_le min.boundedE)
  then show ?case
  proof cases
    case eof
    with k w' less.prems show ?thesis by (auto simp: unfold)
  next
    case full
    with k w' show ?thesis by (auto simp: unfold)
  next
    case more
    then have "len - (pos + k) < len - pos" and "stop \<or> len - (pos + k) \<le> length (rem r')"
      using less.prems(4) k(3,5) by auto
    from less.hyps [OF this(1) k(6) w'(3) more(2) this(2)] obtain r'' w'' where ih:
      "copy_loop rd wr len stop (pos + k) (r', w') =
         (Inr (pos + k + min (len - (pos + k)) (length (rem r'))), (r'', w''))"
      "rem r'' = drop (len - (pos + k)) (rem r')" "rinv r''"
      "content w'' = content w' @ take (len - (pos + k)) (rem r')" "winv w''" by blast
    have "take k (rem r) @ take (len - (pos + k)) (drop k (rem r)) = take (len - pos) (rem r)"
      using more(2) take_add [of k "len - (pos + k)" "rem r"] by simp
    with ih k w' more show ?thesis by (auto simp: unfold min_def)
  qed
qed

lemma copy_ok:
  assumes "rinv r" "winv w" "stop \<or> len \<le> length (rem r)"
  shows "\<exists>r' w'. copy rd wr len stop (r, w) = (Inr (min len (length (rem r))), (r', w'))
      \<and> rem r' = drop len (rem r) \<and> rinv r'
      \<and> content w' = content w @ take len (rem r) \<and> winv w'"
  using copy_loop_ok [of r w 0 len stop] assms by (auto simp: copy_def)

lemma copy_exact_ok:
  assumes "rinv r" "winv w" "len \<le> length (rem r)"
  shows "\<exists>r' w'. copy_exact rd wr len (r, w) = (Inr (), (r', w'))
      \<and> rem r' = drop len (rem r) \<and> rinv r'
      \<and> content w' = content w @ take len (rem r) \<and> winv w'"
  using copy_ok [of r w False len] assms by (auto simp: copy_exact_def)

end

interpretation file_pipe: io_pipe stream_read srest "\<lambda>_. True" stream_write sdata at_end
  by unfold_locales

end
