(* ===== verification/Buf_Mut.thy ===== *)
theory Buf_Mut
  imports Stream_Util
begin

text \<open>
  Model of \<open>src/crypto/buf_mut.rs\<close>: a fixed-capacity buffer with a write position, a read
  position, the number of bytes that hold content and a dirty flag. Every block that is
  encrypted or decrypted passes through one. Positions are natural numbers; the seek targets go
  through the \<open>i64\<close> casts of the source.
\<close>

subsection \<open>State and operations\<close>

record buf_mut =
  b_buf :: bytes
  b_pos_write :: nat
  b_pos_read :: nat
  b_available :: nat
  b_dirty :: bool

definition buf_new :: "bytes \<Rightarrow> buf_mut" where
  "buf_new from = \<lparr>b_buf = from, b_pos_write = 0, b_pos_read = 0, b_available = 0, b_dirty = False\<rparr>"

definition buf_remaining :: "buf_mut \<Rightarrow> nat" where
  "buf_remaining b = length (b_buf b) - b_pos_write b"

text \<open>The slice \<open>buf[available..]\<close>, as read and as replaced by its user.\<close>

definition buf_as_mut_remaining :: "buf_mut \<Rightarrow> bytes" where
  "buf_as_mut_remaining b = drop (b_available b) (b_buf b)"

definition buf_set_remaining :: "bytes \<Rightarrow> buf_mut \<Rightarrow> buf_mut" where
  "buf_set_remaining d b = b\<lparr>b_buf := take (b_available b) (b_buf b) @ d\<rparr>"

definition buf_clear :: "buf_mut \<Rightarrow> buf_mut" where
  "buf_clear b = b\<lparr>b_pos_write := 0, b_pos_read := 0, b_available := 0, b_dirty := False\<rparr>"

definition buf_available_read :: "buf_mut \<Rightarrow> nat" where
  "buf_available_read b = b_available b - b_pos_read b"

text \<open>The target of a seek: \<open>base\<close> is the position \<open>SeekFrom::Current\<close> counts from.\<close>

definition buf_seek_target :: "buf_mut \<Rightarrow> nat \<Rightarrow> SeekFrom \<Rightarrow> int" where
  "buf_seek_target b base pos =
     (case pos of Start p \<Rightarrow> as_i64 p
      | End d \<Rightarrow> wrap_i64 (as_i64 (length (b_buf b)) + d)
      | Current d \<Rightarrow> wrap_i64 (as_i64 base + d))"

abbreviation out_of_bounds :: io_error where
  "out_of_bounds \<equiv> IoErr InvalidInput ''position is out of bounds''"

definition buf_seek_read :: "SeekFrom \<Rightarrow> (buf_mut, io_error, nat) sem" where
  "buf_seek_read pos = (\<lambda>b.
     let new_pos = buf_seek_target b (b_pos_read b) pos in
     if new_pos < 0 \<or> new_pos > as_i64 (b_available b) then (Inl out_of_bounds, b)
     else (Inr (nat new_pos), b\<lparr>b_pos_read := nat new_pos\<rparr>))"

definition buf_seek_write :: "SeekFrom \<Rightarrow> (buf_mut, io_error, nat) sem" where
  "buf_seek_write pos = (\<lambda>b.
     let new_pos = buf_seek_target b (b_pos_write b) pos in
     if new_pos < 0 \<or> new_pos > as_i64 (length (b_buf b)) then (Inl out_of_bounds, b)
     else (Inr (nat new_pos),
       b\<lparr>b_pos_write := nat new_pos, b_available := max (nat new_pos) (b_available b)\<rparr>))"

definition buf_seek_available :: "SeekFrom \<Rightarrow> (buf_mut, io_error, nat) sem" where
  "buf_seek_available pos = (\<lambda>b.
     let new_pos = buf_seek_target b (b_available b) pos in
     if new_pos < 0 \<or> new_pos > as_i64 (length (b_buf b)) then (Inl out_of_bounds, b)
     else (Inr (nat new_pos),
       b\<lparr>b_available := nat new_pos, b_pos_write := min (b_pos_write b) (nat new_pos),
         b_pos_read := min (b_pos_read b) (nat new_pos)\<rparr>))"

definition buf_as_ref_read_available :: "buf_mut \<Rightarrow> bytes" where
  "buf_as_ref_read_available b = drop (b_pos_read b) (take (b_available b) (b_buf b))"

text \<open>\<open>AsRef\<close>/\<open>AsMut\<close>: the content of the buffer, as read and as replaced by its user.\<close>

definition buf_as_ref :: "buf_mut \<Rightarrow> bytes" where
  "buf_as_ref b = take (b_available b) (b_buf b)"

definition buf_set_as_mut :: "bytes \<Rightarrow> buf_mut \<Rightarrow> buf_mut" where
  "buf_set_as_mut d b = b\<lparr>b_buf := d @ drop (b_available b) (b_buf b)\<rparr>"

definition buf_write :: "bytes \<Rightarrow> (buf_mut, io_error, nat) sem" where
  "buf_write d = (\<lambda>b.
     let len = min (buf_remaining b) (length d) in
     if len = 0 then (Inr 0, b)
     else (Inr len,
       b\<lparr>b_buf := overlay (b_buf b) (b_pos_write b) (take len d),
         b_pos_write := b_pos_write b + len,
         b_available := max (b_pos_write b + len) (b_available b),
         b_dirty := True\<rparr>))"

definition buf_read :: "nat \<Rightarrow> (buf_mut, io_error, bytes) sem" where
  "buf_read n = (\<lambda>b.
     let len = min (buf_available_read b) n in
     if len = 0 then (Inr [], b)
     else (Inr (take len (drop (b_pos_read b) (b_buf b))), b\<lparr>b_pos_read := b_pos_read b + len\<rparr>))"

subsection \<open>The invariant\<close>

text \<open>
  Both positions stay inside the content, the content inside the allocation, and the allocation
  below \<open>isize::MAX\<close> (which Rust guarantees for every \<open>Vec\<close>).
\<close>

definition buf_inv :: "buf_mut \<Rightarrow> bool" where
  "buf_inv b \<longleftrightarrow> b_pos_read b \<le> b_available b \<and> b_pos_write b \<le> b_available b
     \<and> b_available b \<le> length (b_buf b) \<and> length (b_buf b) < 2 ^ 63"

lemma buf_invD:
  assumes "buf_inv b"
  shows "b_pos_read b \<le> b_available b" "b_pos_write b \<le> b_available b"
    "b_available b \<le> length (b_buf b)" "length (b_buf b) < 2 ^ 63"
    "b_available b < 2 ^ 63" "b_pos_read b < 2 ^ 63" "b_pos_write b < 2 ^ 63"
  using assms by (auto simp: buf_inv_def)

lemma buf_inv_new: "length d < 2 ^ 63 \<Longrightarrow> buf_inv (buf_new d)"
  by (simp add: buf_inv_def buf_new_def)

lemma buf_new_simps [simp]:
  "b_pos_write (buf_new d) = 0" "b_pos_read (buf_new d) = 0" "b_available (buf_new d) = 0"
  "b_dirty (buf_new d) = False" "b_buf (buf_new d) = d"
  by (simp_all add: buf_new_def)

lemma buf_inv_clear [simp]: "buf_inv b \<Longrightarrow> buf_inv (buf_clear b)"
  by (simp add: buf_inv_def buf_clear_def)

lemma buf_clear_simps [simp]:
  "b_pos_write (buf_clear b) = 0" "b_pos_read (buf_clear b) = 0" "b_available (buf_clear b) = 0"
  "b_dirty (buf_clear b) = False" "b_buf (buf_clear b) = b_buf b"
  by (simp_all add: buf_clear_def)

lemma buf_inv_seek_read: "buf_inv b \<Longrightarrow> buf_inv (state_of (buf_seek_read pos b))"
  by (auto simp: buf_seek_read_def Let_def buf_inv_def)

lemma buf_inv_seek_write: "buf_inv b \<Longrightarrow> buf_inv (state_of (buf_seek_write pos b))"
  by (auto simp: buf_seek_write_def Let_def buf_inv_def)

lemma buf_inv_seek_available: "buf_inv b \<Longrightarrow> buf_inv (state_of (buf_seek_available pos b))"
  by (auto simp: buf_seek_available_def Let_def buf_inv_def)

lemma buf_inv_write: "buf_inv b \<Longrightarrow> buf_inv (state_of (buf_write d b))"
  by (auto simp: buf_write_def Let_def buf_inv_def buf_remaining_def)

lemma buf_inv_read: "buf_inv b \<Longrightarrow> buf_inv (state_of (buf_read n b))"
  by (auto simp: buf_read_def Let_def buf_inv_def buf_available_read_def)

lemma buf_inv_set_as_mut:
  "buf_inv b \<Longrightarrow> length d = b_available b \<Longrightarrow> buf_inv (buf_set_as_mut d b)"
  by (simp add: buf_inv_def buf_set_as_mut_def)

lemma buf_inv_set_remaining:
  "buf_inv b \<Longrightarrow> length d = length (buf_as_mut_remaining b) \<Longrightarrow> buf_inv (buf_set_remaining d b)"
  by (simp add: buf_inv_def buf_set_remaining_def buf_as_mut_remaining_def)

subsection \<open>Functional behaviour\<close>

lemma buf_seek_read_start:
  "buf_inv b \<Longrightarrow> p \<le> b_available b \<Longrightarrow> buf_seek_read (Start p) b = (Inr p, b\<lparr>b_pos_read := p\<rparr>)"
  by (simp add: buf_seek_read_def buf_seek_target_def buf_inv_def)

lemma buf_seek_write_start:
  "buf_inv b \<Longrightarrow> p \<le> length (b_buf b) \<Longrightarrow> buf_seek_write (Start p) b =
     (Inr p, b\<lparr>b_pos_write := p, b_available := max p (b_available b)\<rparr>)"
  by (simp add: buf_seek_write_def buf_seek_target_def buf_inv_def)

lemma buf_seek_available_start:
  "buf_inv b \<Longrightarrow> p \<le> length (b_buf b) \<Longrightarrow> buf_seek_available (Start p) b =
     (Inr p, b\<lparr>b_available := p, b_pos_write := min (b_pos_write b) p, b_pos_read := min (b_pos_read b) p\<rparr>)"
  by (simp add: buf_seek_available_def buf_seek_target_def buf_inv_def)

text \<open>A write replaces the bytes at the write position and nothing else of the content.\<close>

lemma buf_write_content:
  fixes d :: bytes
  assumes "buf_inv b"
  defines "len \<equiv> min (buf_remaining b) (length d)"
  shows "result_of (buf_write d b) = Inr len"
    and "buf_as_ref (state_of (buf_write d b)) = overlay (buf_as_ref b) (b_pos_write b) (take len d)"
    and "b_pos_write (state_of (buf_write d b)) = b_pos_write b + len"
    and "length (b_buf (state_of (buf_write d b))) = length (b_buf b)"
    and "b_dirty (state_of (buf_write d b)) \<longleftrightarrow> b_dirty b \<or> len \<noteq> 0"
proof -
  note inv = buf_invD [OF assms(1)]
  have len: "len \<le> length d" "b_pos_write b + len \<le> length (b_buf b)"
    using inv by (auto simp: len_def buf_remaining_def)
  show "buf_as_ref (state_of (buf_write d b)) = overlay (buf_as_ref b) (b_pos_write b) (take len d)"
  proof (cases "len = 0")
    case True
    then show ?thesis by (simp add: buf_write_def Let_def len_def)
  next
    case False
    have "take (max (b_pos_write b + len) (b_available b)) (overlay (b_buf b) (b_pos_write b) (take len d)) =
        overlay (take (b_available b) (b_buf b)) (b_pos_write b) (take len d)"
      using inv len take_overlay_max [of "b_pos_write b" "b_available b" "b_buf b" "take len d"] by simp
    with False show ?thesis by (simp add: buf_write_def Let_def len_def buf_as_ref_def)
  qed
qed (use buf_invD [OF assms(1)] in \<open>auto simp: buf_write_def Let_def len_def buf_remaining_def min_def\<close>)

lemma length_buf_as_ref: "buf_inv b \<Longrightarrow> length (buf_as_ref b) = b_available b"
  by (simp add: buf_as_ref_def buf_inv_def)

text \<open>
  Reading delivers the unread content in order: the buffer interprets the reader contract, also
  for empty target buffers.
\<close>

lemma buf_as_ref_read_available_alt:
  "buf_as_ref_read_available b = take (buf_available_read b) (drop (b_pos_read b) (b_buf b))"
  by (simp add: buf_as_ref_read_available_def buf_available_read_def drop_take)

lemma length_buf_as_ref_read_available [simp]:
  "buf_inv b \<Longrightarrow> length (buf_as_ref_read_available b) = buf_available_read b"
  by (auto simp: buf_as_ref_read_available_def buf_available_read_def buf_inv_def)

lemma buf_read_eq:
  assumes "buf_inv b"
  shows "buf_read n b = (Inr (take n (buf_as_ref_read_available b)),
     b\<lparr>b_pos_read := b_pos_read b + min (buf_available_read b) n\<rparr>)"
  using buf_invD [OF assms]
  by (auto simp: buf_read_def Let_def buf_as_ref_read_available_alt buf_available_read_def min_def)

lemma buf_read_rest:
  assumes "buf_inv b"
  shows "buf_as_ref_read_available (state_of (buf_read n b)) = drop n (buf_as_ref_read_available b)"
  using buf_invD [OF assms]
  by (auto simp: buf_read_eq [OF assms] buf_as_ref_read_available_def buf_available_read_def
      min_def add.commute)

interpretation buf_reader: io_reader_zero buf_read buf_as_ref_read_available buf_inv
proof unfold_locales
  fix s n assume inv: "buf_inv s" and "0 < (n::nat)"
  let ?k = "min n (length (buf_as_ref_read_available s))"
  have "take n (buf_as_ref_read_available s) = take ?k (buf_as_ref_read_available s)"
    "drop n (buf_as_ref_read_available s) = drop ?k (buf_as_ref_read_available s)"
    by (simp_all add: min_def)
  then show "\<exists>k s'. buf_read n s = (Inr (take k (buf_as_ref_read_available s)), s') \<and> k \<le> n \<and>
      k \<le> length (buf_as_ref_read_available s) \<and> (buf_as_ref_read_available s \<noteq> [] \<longrightarrow> 0 < k) \<and>
      buf_as_ref_read_available s' = drop k (buf_as_ref_read_available s) \<and> buf_inv s'"
    using buf_read_eq [OF inv, of n] buf_read_rest [OF inv, of n] buf_inv_read [OF inv, of n] \<open>0 < n\<close>
    by (intro exI [of _ ?k] exI [of _ "state_of (buf_read n s)"]) auto
next
  fix s assume inv: "buf_inv s"
  then show "\<exists>s'. buf_read 0 s = (Inr [], s') \<and>
      buf_as_ref_read_available s' = buf_as_ref_read_available s \<and> buf_inv s'"
    by (simp add: buf_read_def)
qed

end
