(* ===== verification/Crypto_Block.thy ===== *)
theory Crypto_Block
  imports Buf_Mut
begin

text \<open>
  The block layout shared by the encrypting writers and decrypting readers, and the parameters
  that stand for code outside the repository.

  The \<open>ring\<close> AEAD (\<open>SealingKey\<close>, \<open>OpeningKey\<close>), its tag and key lengths, the random generator
  and the constant \<open>BLOCK_SIZE\<close> (100 in test builds, 16384 otherwise) are the fields of
  \<open>aead_env\<close>, an argument of every definition that uses them. What the code relies on is
  \<open>aead_ok\<close>: sealing a block keeps its length, produces a tag of the fixed length, and opening
  the sealed block with the same key, nonce and additional data returns the block; opening
  always strips exactly the tag; random bytes come in the requested number.

  A file is laid out as \<open>nonce (12) | ciphertext | tag (16)\<close> blocks, each holding up to
  \<open>BLOCK_SIZE\<close> plaintext bytes and authenticated with its block index. \<open>enc_file E key ct pt\<close>
  says that the bytes \<open>ct\<close> of a file decrypt, block by block, to the plaintext \<open>pt\<close>: it is the
  abstraction relation of every proof about readers and writers.
\<close>

subsection \<open>Parameters\<close>

record aead_env =
  e_block_size :: nat
  e_tag_len :: nat
  e_key_len :: nat
  e_seal :: "bytes \<Rightarrow> bytes \<Rightarrow> bytes \<Rightarrow> bytes \<Rightarrow> (bytes \<times> bytes) option"
  e_open :: "bytes \<Rightarrow> bytes \<Rightarrow> bytes \<Rightarrow> bytes \<Rightarrow> bytes option"
  e_fill :: "nat \<Rightarrow> nat \<Rightarrow> bytes"

definition NONCE_LEN :: nat where
  "NONCE_LEN = 12"

definition aead_ok :: "aead_env \<Rightarrow> bool" where
  "aead_ok E \<longleftrightarrow> 0 < e_block_size E \<and> NONCE_LEN + e_block_size E + e_tag_len E < 2 ^ 63
     \<and> (\<forall>key nonce aad pt. length key = e_key_len E \<longrightarrow> length nonce = NONCE_LEN
          \<longrightarrow> length pt \<le> e_block_size E
          \<longrightarrow> (\<exists>ct tag. e_seal E key nonce aad pt = Some (ct, tag) \<and> length ct = length pt
                \<and> length tag = e_tag_len E \<and> e_open E key nonce aad (ct @ tag) = Some pt))
     \<and> (\<forall>key nonce aad d p. e_open E key nonce aad d = Some p \<longrightarrow> length d = length p + e_tag_len E)
     \<and> (\<forall>i n. length (e_fill E i n) = n)"

subsection \<open>Layout\<close>

abbreviation overhead :: "aead_env \<Rightarrow> nat" where
  "overhead E \<equiv> NONCE_LEN + e_tag_len E"

definition ciphertext_block_size :: "aead_env \<Rightarrow> nat" where
  "ciphertext_block_size E = NONCE_LEN + e_block_size E + e_tag_len E"

definition nblocks :: "nat \<Rightarrow> nat \<Rightarrow> nat" where
  "nblocks b n = (n + b - 1) div b"

definition chunk :: "nat \<Rightarrow> nat \<Rightarrow> bytes \<Rightarrow> bytes" where
  "chunk b i xs = take b (drop (i * b) xs)"

text \<open>Decrypting one stored block with its index as additional authenticated data.\<close>

definition open_block :: "aead_env \<Rightarrow> bytes \<Rightarrow> nat \<Rightarrow> bytes \<Rightarrow> bytes option" where
  "open_block E key i blk =
     (if length blk < NONCE_LEN then None
      else e_open E key (take NONCE_LEN blk) (to_le_bytes i) (drop NONCE_LEN blk))"

definition enc_file :: "aead_env \<Rightarrow> bytes \<Rightarrow> bytes \<Rightarrow> bytes \<Rightarrow> bool" where
  "enc_file E key ct pt \<longleftrightarrow>
     length ct = length pt + overhead E * nblocks (e_block_size E) (length pt)
     \<and> (\<forall>i < nblocks (e_block_size E) (length pt).
          open_block E key i (chunk (ciphertext_block_size E) i ct) = Some (chunk (e_block_size E) i pt))"

subsection \<open>What the parameters promise\<close>

lemma aead_okD:
  assumes "aead_ok E"
  shows "0 < e_block_size E" "ciphertext_block_size E < 2 ^ 63" "length (e_fill E i n) = n"
  using assms by (auto simp: aead_ok_def ciphertext_block_size_def)

lemma aead_seal:
  assumes "aead_ok E" "length key = e_key_len E" "length nonce = NONCE_LEN" "length pt \<le> e_block_size E"
  obtains ct tag where "e_seal E key nonce aad pt = Some (ct, tag)" "length ct = length pt"
    "length tag = e_tag_len E" "e_open E key nonce aad (ct @ tag) = Some pt"
  using assms unfolding aead_ok_def by blast

lemma open_block_length:
  assumes "aead_ok E" "open_block E key i blk = Some p"
  shows "length blk = length p + overhead E"
proof -
  from assms(2) have "NONCE_LEN \<le> length blk"
    and "e_open E key (take NONCE_LEN blk) (to_le_bytes i) (drop NONCE_LEN blk) = Some p"
    by (auto simp: open_block_def split: if_splits)
  moreover from this(2) have "length (drop NONCE_LEN blk) = length p + e_tag_len E"
    using assms(1) unfolding aead_ok_def by blast
  ultimately show ?thesis by simp
qed

lemma open_block_sealed:
  assumes "e_open E key nonce (to_le_bytes i) (ct @ tag) = Some p" "length nonce = NONCE_LEN"
  shows "open_block E key i (nonce @ ct @ tag) = Some p"
  using assms by (simp add: open_block_def)

lemma ciphertext_block_size_eq: "ciphertext_block_size E = e_block_size E + overhead E"
  by (simp add: ciphertext_block_size_def)

lemma csz_pos: "aead_ok E \<Longrightarrow> 0 < ciphertext_block_size E"
  by (simp add: ciphertext_block_size_def NONCE_LEN_def)

subsection \<open>Counting blocks\<close>

lemma nblocks_0 [simp]: "0 < b \<Longrightarrow> nblocks b 0 = 0"
  by (simp add: nblocks_def)

lemma nblocks_less_iff: "0 < b \<Longrightarrow> i < nblocks b n \<longleftrightarrow> i * b < n"
proof -
  assume b: "0 < b"
  have "i < nblocks b n \<longleftrightarrow> Suc i \<le> (n + b - 1) div b"
    by (simp add: nblocks_def Suc_le_eq)
  also have "\<dots> \<longleftrightarrow> Suc i * b \<le> n + b - 1"
    using b by (simp only: less_eq_div_iff_mult_less_eq)
  also have "\<dots> \<longleftrightarrow> i * b < n"
    using b by auto
  finally show ?thesis .
qed

lemma nblocks_full: "0 < b \<Longrightarrow> nblocks b (q * b) = q"
  using div_add_block [of "b - 1" b q] by (simp add: nblocks_def)

lemma nblocks_partial:
  assumes "0 < r" "r \<le> b"
  shows "nblocks b (q * b + r) = Suc q"
proof -
  have "q * b + r + b - 1 = Suc q * b + (r - 1)" using assms by simp
  moreover have "r - 1 < b" using assms by simp
  ultimately show ?thesis unfolding nblocks_def by (metis div_add_block)
qed

lemma nblocks_eq:
  assumes "0 < b"
  shows "nblocks b n = n div b + (if n mod b = 0 then 0 else 1)"
proof (cases "n mod b = 0")
  case True
  then obtain q where "n = q * b" by (metis mod_0_imp_dvd dvdE mult.commute)
  with assms show ?thesis by (simp add: nblocks_full)
next
  case False
  have "nblocks b (n div b * b + n mod b) = Suc (n div b)"
    using False assms by (intro nblocks_partial) (auto simp: less_imp_le)
  with False show ?thesis by simp
qed

lemma length_chunk: "length (chunk b i xs) = min b (length xs - i * b)"
  by (simp add: chunk_def min.commute)

lemma chunk_nonempty: "0 < b \<Longrightarrow> i * b < length xs \<Longrightarrow> chunk b i xs \<noteq> []"
  by (simp add: chunk_def)

lemma chunk_empty: "length xs \<le> i * b \<Longrightarrow> chunk b i xs = []"
  by (simp add: chunk_def)

text \<open>The length of an encrypted file determines, and is determined by, that of the plaintext.\<close>

lemma enc_length_less_iff:
  assumes "0 < b" "L = n + ov * nblocks b n"
  shows "i * (b + ov) < L \<longleftrightarrow> i * b < n"
proof
  assume "i * b < n"
  then have "i < nblocks b n" using assms(1) by (simp add: nblocks_less_iff)
  then have "i * ov \<le> nblocks b n * ov" by simp
  with \<open>i * b < n\<close> show "i * (b + ov) < L"
    by (simp add: assms(2) algebra_simps add_less_le_mono)
next
  assume less: "i * (b + ov) < L"
  show "i * b < n"
  proof (rule ccontr)
    assume "\<not> i * b < n"
    then have "n \<le> i * b" "nblocks b n \<le> i"
      using assms(1) by (auto simp: not_less nblocks_less_iff simp flip: not_less)
    then have "n + ov * nblocks b n \<le> i * b + ov * i" by (intro add_mono) simp_all
    with less show False by (simp add: assms(2) algebra_simps)
  qed
qed

lemma enc_length_div:
  assumes "0 < b" "L = n + ov * nblocks b n"
  shows "L div (b + ov) = n div b"
    and "L mod (b + ov) = (if n mod b = 0 then 0 else n mod b + ov)"
proof -
  let ?r = "if n mod b = 0 then 0 else n mod b + ov"
  define q r where qr: "q = n div b" "r = n mod b"
  have n: "n = q * b + r" by (simp add: qr)
  have "nblocks b n = q + (if r = 0 then 0 else 1)" using nblocks_eq [OF assms(1)] by (simp add: qr)
  then have L: "L = q * (b + ov) + (if r = 0 then 0 else r + ov)"
    using assms(2) unfolding n by (simp add: algebra_simps)
  have "(if r = 0 then 0 else r + ov) < b + ov" using assms(1) by (simp add: qr)
  then show "L div (b + ov) = n div b" "L mod (b + ov) = ?r"
    unfolding L qr(1) [symmetric] qr(2) [symmetric] by (rule div_add_block, rule mod_add_block)
qed

subsection \<open>Reading and changing an encrypted file block by block\<close>

lemma enc_fileD:
  assumes "enc_file E key ct pt"
  shows "length ct = length pt + overhead E * nblocks (e_block_size E) (length pt)"
    and "i < nblocks (e_block_size E) (length pt) \<Longrightarrow>
      open_block E key i (chunk (ciphertext_block_size E) i ct) = Some (chunk (e_block_size E) i pt)"
  using assms by (auto simp: enc_file_def)

lemma enc_file_Nil [simp]: "aead_ok E \<Longrightarrow> enc_file E key [] [] = True"
  by (simp add: enc_file_def aead_okD)

lemma enc_file_pos_less_iff:
  assumes "aead_ok E" "enc_file E key ct pt"
  shows "i * ciphertext_block_size E < length ct \<longleftrightarrow> i * e_block_size E < length pt"
  unfolding ciphertext_block_size_eq
  using aead_okD(1) [OF assms(1)] enc_fileD(1) [OF assms(2)] by (rule enc_length_less_iff)

lemma enc_file_empty_iff: "enc_file E key ct pt \<Longrightarrow> aead_ok E \<Longrightarrow> ct = [] \<longleftrightarrow> pt = []"
  using enc_file_pos_less_iff [of E key ct pt 0] by simp

lemma enc_file_block:
  assumes "aead_ok E" "enc_file E key ct pt" "i * e_block_size E < length pt"
  shows "open_block E key i (chunk (ciphertext_block_size E) i ct) = Some (chunk (e_block_size E) i pt)"
    and "length (chunk (ciphertext_block_size E) i ct) = length (chunk (e_block_size E) i pt) + overhead E"
    and "chunk (e_block_size E) i pt \<noteq> []"
proof -
  have "i < nblocks (e_block_size E) (length pt)"
    using assms(1,3) by (simp add: nblocks_less_iff aead_okD)
  then show *: "open_block E key i (chunk (ciphertext_block_size E) i ct) = Some (chunk (e_block_size E) i pt)"
    by (rule enc_fileD(2) [OF assms(2)])
  from open_block_length [OF assms(1) this]
  show "length (chunk (ciphertext_block_size E) i ct) = length (chunk (e_block_size E) i pt) + overhead E" .
  show "chunk (e_block_size E) i pt \<noteq> []"
    using assms aead_okD(1) by (intro chunk_nonempty) auto
qed

text \<open>The ciphertext determines the plaintext.\<close>

lemma chunks_eq_imp_eq:
  assumes "0 < b" "length xs = length ys" "\<And>i. i * b < length xs \<Longrightarrow> chunk b i xs = chunk b i ys"
  shows "xs = ys"
proof (rule nth_equalityI)
  show "length xs = length ys" by fact
next
  fix j assume j: "j < length xs"
  let ?i = "j div b"
  have i: "?i * b \<le> j" by simp
  then have "?i * b < length xs" using j by (rule le_less_trans)
  then have eq: "chunk b ?i xs = chunk b ?i ys" by (rule assms(3))
  have m: "j mod b < b" using assms(1) by simp
  have nth: "chunk b ?i zs ! (j mod b) = zs ! j" if "j < length zs" for zs :: bytes
  proof -
    have "chunk b ?i zs ! (j mod b) = drop (?i * b) zs ! (j mod b)"
      using m by (simp add: chunk_def)
    also have "\<dots> = zs ! (?i * b + j mod b)" using that i by (intro nth_drop) linarith
    finally show ?thesis by simp
  qed
  from nth [OF j] nth [of ys] j assms(2) eq show "xs ! j = ys ! j" by simp
qed

lemma enc_file_unique:
  assumes "aead_ok E" "enc_file E key ct pt" "enc_file E key ct pt'"
  shows "pt = pt'"
proof -
  let ?b = "e_block_size E"
  note b = aead_okD(1) [OF assms(1)]
  have less: "i * ?b < length pt \<longleftrightarrow> i * ?b < length pt'" for i
    using enc_file_pos_less_iff [OF assms(1,2), of i] enc_file_pos_less_iff [OF assms(1,3), of i] by simp
  then have "i < nblocks ?b (length pt) \<longleftrightarrow> i < nblocks ?b (length pt')" for i
    by (simp only: nblocks_less_iff [OF b])
  from this [of "nblocks ?b (length pt)"] this [of "nblocks ?b (length pt')"]
  have "nblocks ?b (length pt) = nblocks ?b (length pt')" by linarith
  then have "length pt = length pt'"
    using enc_fileD(1) [OF assms(2)] enc_fileD(1) [OF assms(3)] by (metis add_right_cancel)
  moreover have "chunk ?b i pt = chunk ?b i pt'" if "i * ?b < length pt" for i
    using enc_file_block(1) [OF assms(1,2) that] enc_file_block(1) [OF assms(1,3)] that less by simp
  ultimately show ?thesis using b by (blast intro: chunks_eq_imp_eq)
qed

lemma enc_length_mono:
  assumes "0 < b" "i * b \<le> n" "L = n + ov * nblocks b n"
  shows "i * (b + ov) \<le> L"
proof -
  have "i \<le> nblocks b n"
    using assms(1,2) nblocks_eq [OF assms(1), of n] by (simp add: less_eq_div_iff_mult_less_eq trans_le_add1)
  then have "i * ov \<le> nblocks b n * ov" by simp
  with assms(2) show ?thesis by (simp add: assms(3) algebra_simps add_mono)
qed

lemma enc_file_pos_le:
  assumes "aead_ok E" "enc_file E key ct pt" "i * e_block_size E \<le> length pt"
  shows "i * ciphertext_block_size E \<le> length ct"
  unfolding ciphertext_block_size_eq
  using aead_okD(1) [OF assms(1)] assms(3) enc_fileD(1) [OF assms(2)] by (rule enc_length_mono)

lemma chunk_overlay_before:
  assumes "j < i" "i * b \<le> length xs"
  shows "chunk b j (overlay xs (i * b) ys) = chunk b j xs"
proof -
  have "Suc j * b \<le> i * b" using assms(1) by (intro mult_le_mono1) simp
  then show ?thesis unfolding chunk_def using assms(2) by (intro slice_overlay_before) simp_all
qed

lemma chunk_overlay_after:
  assumes "i < j" "i * b \<le> length xs" "length ys \<le> b"
  shows "chunk b j (overlay xs (i * b) ys) = chunk b j xs"
proof -
  have "Suc i * b \<le> j * b" using assms(1) by (intro mult_le_mono1) simp
  then show ?thesis unfolding chunk_def using assms(2,3) by (intro slice_overlay_after) simp_all
qed

lemma chunk_overlay_same:
  assumes "i * b \<le> length xs" "length ys \<le> b" "length xs \<le> i * b + length ys \<or> length ys = b"
  shows "chunk b i (overlay xs (i * b) ys) = ys"
  using assms by (auto simp: chunk_def drop_overlay_at)

text \<open>
  Overwriting one block in place: it may change its content, and the last block may also grow
  (a new block after a full last one included).
\<close>

lemma enc_file_replace:
  assumes E: "aead_ok E" and enc: "enc_file E key ct pt"
    and blk: "open_block E key i blk = Some p"
    and i: "i * e_block_size E \<le> length pt" and p: "length p \<le> e_block_size E" "p \<noteq> []"
    and grow: "length pt \<le> i * e_block_size E + length p \<or> length p = e_block_size E"
  shows "enc_file E key (overlay ct (i * ciphertext_block_size E) blk) (overlay pt (i * e_block_size E) p)"
proof -
  let ?b = "e_block_size E" and ?c = "ciphertext_block_size E"
  let ?ct = "overlay ct (i * ?c) blk" and ?pt = "overlay pt (i * ?b) p"
  note b = aead_okD(1) [OF E]
  have lb: "length blk = length p + overhead E" by (rule open_block_length [OF E blk])
  have ic: "i * ?c \<le> length ct" by (rule enc_file_pos_le [OF E enc i])
  have lct: "length ct = length pt + overhead E * nblocks ?b (length pt)" by (rule enc_fileD(1) [OF enc])
  have last: "length ct \<le> i * ?c + length blk" if le: "length pt \<le> i * ?b + length p"
  proof -
    have "nblocks ?b (length pt) \<le> Suc i"
    proof (rule ccontr)
      assume "\<not> nblocks ?b (length pt) \<le> Suc i"
      then have "Suc i * ?b < length pt" using b by (simp add: not_le nblocks_less_iff)
      with le p(1) show False by simp
    qed
    then have "overhead E * nblocks ?b (length pt) \<le> overhead E * Suc i" by (rule mult_le_mono2)
    with le lb show ?thesis unfolding lct ciphertext_block_size_eq by (simp add: algebra_simps)
  qed
  have len: "length ?ct = length ?pt + overhead E * nblocks ?b (length ?pt)"
  proof (cases "length pt \<le> i * ?b + length p")
    case True
    then have "length ?pt = i * ?b + length p" using i by (simp add: overlay_def)
    moreover have "length ?ct = i * ?c + length blk" using last [OF True] ic by (simp add: overlay_def)
    moreover have "nblocks ?b (i * ?b + length p) = Suc i" using p by (intro nblocks_partial) auto
    ultimately show ?thesis by (simp add: lb ciphertext_block_size_eq algebra_simps)
  next
    case False
    with grow have full: "length p = ?b" by blast
    with False have "Suc i * ?b \<le> length pt" by simp
    then have "Suc i * ?c \<le> length ct" by (rule enc_file_pos_le [OF E enc])
    then have "length ?ct = length ct"
      using lb full by (simp add: ciphertext_block_size_eq)
    moreover have "length ?pt = length pt" using False by simp
    ultimately show ?thesis using lct by simp
  qed
  have cc: "length blk \<le> ?c" using lb p(1) by (simp add: ciphertext_block_size_eq)
  have "open_block E key j (chunk ?c j ?ct) = Some (chunk ?b j ?pt)" if j: "j < nblocks ?b (length ?pt)" for j
  proof (cases rule: linorder_cases [of j i])
    case less
    then have "j * ?b < i * ?b" using b by simp
    with i have "j * ?b < length pt" by linarith
    with less ic i enc_file_block(1) [OF E enc] show ?thesis by (simp add: chunk_overlay_before)
  next
    case equal
    have "length ct \<le> i * ?c + length blk \<or> length blk = ?c"
      using grow last lb by (auto simp: ciphertext_block_size_eq)
    with equal blk ic i cc p(1) grow show ?thesis by (simp add: chunk_overlay_same)
  next
    case greater
    have "j * ?b < length ?pt" using j b by (simp add: nblocks_less_iff)
    moreover have "Suc i * ?b \<le> j * ?b" using greater by (intro mult_le_mono1) simp
    ultimately have "j * ?b < length pt" using p(1) i by (auto simp: overlay_def split: if_splits)
    with greater ic i cc p(1) enc_file_block(1) [OF E enc] show ?thesis by (simp add: chunk_overlay_after)
  qed
  with len show ?thesis by (simp add: enc_file_def)
qed

lemma enc_file_append:
  assumes "aead_ok E" "enc_file E key ct pt" "open_block E key i blk = Some p"
    "length pt = i * e_block_size E" "length p \<le> e_block_size E" "p \<noteq> []"
  shows "enc_file E key (ct @ blk) (pt @ p)" and "length ct = i * ciphertext_block_size E"
proof -
  have "nblocks (e_block_size E) (length pt) = i" using assms(1,4) by (simp add: nblocks_full aead_okD)
  then show lct: "length ct = i * ciphertext_block_size E"
    using enc_fileD(1) [OF assms(2)] assms(4) by (simp add: ciphertext_block_size_eq algebra_simps)
  show "enc_file E key (ct @ blk) (pt @ p)"
    using enc_file_replace [OF assms(1,2,3)] assms(4,5,6) lct by (simp add: overlay_at_end)
qed

text \<open>The plaintext as a function of the file, for files that decrypt.\<close>

definition dec_file :: "aead_env \<Rightarrow> bytes \<Rightarrow> bytes \<Rightarrow> bytes" where
  "dec_file E key ct = concat (map (\<lambda>i. case open_block E key i (chunk (ciphertext_block_size E) i ct) of
       None \<Rightarrow> [] | Some p \<Rightarrow> p) [0..<nblocks (ciphertext_block_size E) (length ct)])"

lemma concat_chunks: "concat (map (\<lambda>i. chunk b i xs) [0..<k]) = take (k * b) xs"
proof (induction k)
  case (Suc k)
  have "take (k * b) xs @ chunk b k xs = take (k * b + b) xs" by (simp add: chunk_def take_add)
  with Suc show ?case by (simp add: add.commute)
qed simp

lemma dec_file_eq:
  assumes "aead_ok E" "enc_file E key ct pt"
  shows "dec_file E key ct = pt"
proof -
  let ?b = "e_block_size E" and ?c = "ciphertext_block_size E"
  note b = aead_okD(1) [OF assms(1)] and c = csz_pos [OF assms(1)]
  have less: "i < nblocks ?c (length ct) \<longleftrightarrow> i * ?b < length pt" for i
    using enc_file_pos_less_iff [OF assms] by (simp add: nblocks_less_iff c)
  have "dec_file E key ct = concat (map (\<lambda>i. chunk ?b i pt) [0..<nblocks ?c (length ct)])"
    unfolding dec_file_def
    by (intro arg_cong [of _ _ concat] map_cong) (auto simp: less enc_file_block(1) [OF assms])
  moreover have "length pt \<le> nblocks ?c (length ct) * ?b"
    using less [of "nblocks ?c (length ct)"] by simp
  ultimately show ?thesis by (simp add: concat_chunks)
qed

end
