(* ===== verification/Crypto_Read.thy ===== *)
theory Crypto_Read
  imports Crypto_Block
begin

text \<open>
  Model of \<open>src/crypto/read.rs\<close>: the macro \<open>decrypt_block!\<close> (shared with the seeking writer) and
  \<open>RingCryptoRead\<close> with its \<open>Read\<close> and \<open>Seek\<close> implementations.
\<close>

subsection \<open>The macro decrypt-block\<close>

text \<open>The places the macro is given: block index, buffer, input and last nonce.\<close>

record dec_state =
  d_block_index :: nat
  d_buf :: buf_mut
  d_input :: stream
  d_last_nonce :: "bytes option"

abbreviation unwrap :: "('s, io_error, 'a) sem \<Rightarrow> ('s, io_error, 'a) sem" where
  "unwrap \<equiv> map_err (\<lambda>_. Panic)"

abbreviation on_d_buf :: "(buf_mut, io_error, 'a) sem \<Rightarrow> (dec_state, io_error, 'a) sem" where
  "on_d_buf \<equiv> zoom d_buf (\<lambda>b s. s\<lparr>d_buf := b\<rparr>)"

definition put_remaining :: "nat \<Rightarrow> bytes \<Rightarrow> buf_mut \<Rightarrow> buf_mut" where
  "put_remaining p d b = buf_set_remaining (overlay (buf_as_mut_remaining b) p d) b"

definition decrypt_block :: "aead_env \<Rightarrow> bytes \<Rightarrow> (dec_state, io_error, unit) sem" where
  "decrypt_block E key =
     bnd (modif (d_buf_update buf_clear)) (\<lambda>_.
     bnd (gets (\<lambda>s. length (buf_as_mut_remaining (d_buf s)))) (\<lambda>n.
     bnd (zoom d_input (\<lambda>i s. s\<lparr>d_input := i\<rparr>) (read_fill stream_read n [])) (\<lambda>data.
     bnd (modif (d_buf_update (put_remaining 0 data))) (\<lambda>_.
     if data = [] then ret ()
     else if length data < NONCE_LEN then throw Panic
     else
       bnd (modif (d_last_nonce_update (\<lambda>_. Some (take NONCE_LEN data)))) (\<lambda>_.
       bnd (gets d_block_index) (\<lambda>i.
       (case e_open E key (take NONCE_LEN data) (to_le_bytes i) (drop NONCE_LEN data) of
          None \<Rightarrow> throw (IoErr Other ''error opening within'')
        | Some plaintext \<Rightarrow>
            bnd (modif (d_buf_update (put_remaining NONCE_LEN plaintext))) (\<lambda>_.
            if plaintext = [] then ret ()
            else
              bnd (unwrap (on_d_buf (buf_seek_available (Start (NONCE_LEN + length plaintext))))) (\<lambda>_.
              bnd (unwrap (on_d_buf (buf_seek_read (Start NONCE_LEN)))) (\<lambda>_.
              modif (d_block_index_update Suc)))))))))))"

subsection \<open>RingCryptoRead\<close>

record ring_crypto_read =
  r_input :: "stream option"
  r_key :: bytes
  r_buf :: buf_mut
  r_last_nonce :: "bytes option"
  r_ciphertext_block_size :: nat
  r_plaintext_block_size :: nat
  r_block_index :: nat

definition ring_crypto_read_new :: "aead_env \<Rightarrow> stream \<Rightarrow> bytes \<Rightarrow> io_error + ring_crypto_read" where
  "ring_crypto_read_new E reader key =
     (if length key \<noteq> e_key_len E then Inl Panic
      else let c = NONCE_LEN + e_block_size E + e_tag_len E in
        Inr \<lparr>r_input = Some reader, r_key = key, r_buf = buf_new (replicate c 0), r_last_nonce = None,
          r_ciphertext_block_size = c, r_plaintext_block_size = e_block_size E, r_block_index = 0\<rparr>)"

definition r_decrypt_block :: "aead_env \<Rightarrow> (ring_crypto_read, io_error, unit) sem" where
  "r_decrypt_block E = (\<lambda>r. case r_input r of None \<Rightarrow> (Inl Panic, r)
     | Some inp \<Rightarrow>
         (case decrypt_block E (r_key r) \<lparr>d_block_index = r_block_index r, d_buf = r_buf r, d_input = inp,
             d_last_nonce = r_last_nonce r\<rparr> of
            (res, d) \<Rightarrow> (res, r\<lparr>r_block_index := d_block_index d, r_buf := d_buf d,
               r_input := Some (d_input d), r_last_nonce := d_last_nonce d\<rparr>)))"

abbreviation on_r_buf :: "(buf_mut, io_error, 'a) sem \<Rightarrow> (ring_crypto_read, io_error, 'a) sem" where
  "on_r_buf \<equiv> zoom r_buf (\<lambda>b r. r\<lparr>r_buf := b\<rparr>)"

definition ring_read :: "aead_env \<Rightarrow> nat \<Rightarrow> (ring_crypto_read, io_error, bytes) sem" where
  "ring_read E n =
     bnd (on_r_buf (buf_read n)) (\<lambda>d.
     if d \<noteq> [] then ret d
     else bnd (r_decrypt_block E) (\<lambda>_. on_r_buf (buf_read n)))"

definition ring_read_into_inner :: "(ring_crypto_read, io_error, stream) sem" where
  "ring_read_into_inner =
     bnd (gets r_input) (\<lambda>i. bnd (modif (r_input_update (\<lambda>_. None))) (\<lambda>_.
     case i of None \<Rightarrow> throw Panic | Some s \<Rightarrow> ret s))"

definition r_pos :: "ring_crypto_read \<Rightarrow> nat" where
  "r_pos r = (r_block_index r - 1) * r_plaintext_block_size r + (b_pos_read (r_buf r) - NONCE_LEN)"

definition r_get_plaintext_len :: "(ring_crypto_read, io_error, nat) sem" where
  "r_get_plaintext_len = (\<lambda>r. case r_input r of None \<Rightarrow> (Inl Panic, r)
     | Some inp \<Rightarrow>
         (let ciphertext_len = stream_len inp in
          if ciphertext_len = 0 then (Inr 0, r)
          else (Inr (u64_sub ciphertext_len ((ciphertext_len div r_ciphertext_block_size r + 1)
                  * (r_ciphertext_block_size r - r_plaintext_block_size r))), r)))"

definition r_input_seek :: "nat \<Rightarrow> (ring_crypto_read, io_error, unit) sem" where
  "r_input_seek p = (\<lambda>r. case r_input r of None \<Rightarrow> (Inl Panic, r)
     | Some inp \<Rightarrow> (Inr (), r\<lparr>r_input := Some (state_of (stream_seek_start p inp))\<rparr>))"

text \<open>\<open>Seek for RingCryptoRead\<close>: inside the decrypted block, into the next one, or to another.\<close>

definition ring_read_seek :: "aead_env \<Rightarrow> SeekFrom \<Rightarrow> (ring_crypto_read, io_error, nat) sem" where
  "ring_read_seek E pos =
     bnd r_get_plaintext_len (\<lambda>plaintext_len.
     bnd (gets (\<lambda>r. case pos of Start p \<Rightarrow> as_i64 p
        | End d \<Rightarrow> wrap_i64 (as_i64 plaintext_len + d)
        | Current d \<Rightarrow> wrap_i64 (as_i64 (r_pos r) + d))) (\<lambda>target.
     if target < 0 then throw (IoErr InvalidInput ''new position < 0'')
     else
       let new_pos = min (nat target) plaintext_len in
       bnd (gets (\<lambda>r. r)) (\<lambda>r.
       if r_pos r = new_pos then ret new_pos
       else
         let b = r_plaintext_block_size r;
             block_index = r_pos r div b;
             new_block_index = new_pos div b;
             at_full_block_end = (r_pos r mod b = 0 \<and> buf_available_read (r_buf r) = 0)
         in
         bnd (if block_index = new_block_index then
                (if b_available (r_buf r) > 0 \<and> \<not> at_full_block_end
                 then bnd (on_r_buf (buf_seek_read (Start (NONCE_LEN + new_pos mod b)))) (\<lambda>_. ret ())
                 else bnd (seek_forward (ring_read E) (new_pos mod b) True) (\<lambda>_. ret ()))
              else
                bnd (r_input_seek (new_block_index * r_ciphertext_block_size r)) (\<lambda>_.
                bnd (modif (\<lambda>r. r\<lparr>r_buf := buf_clear (r_buf r), r_block_index := new_block_index\<rparr>)) (\<lambda>_.
                bnd (whenM (new_pos mod b = 0) (r_decrypt_block E)) (\<lambda>_.
                bnd (seek_forward (ring_read E) (new_pos mod b) True) (\<lambda>_. ret ())))))
           (\<lambda>_. gets r_pos))))"

subsection \<open>Correctness of the macro\<close>

lemma buf_clear_remaining [simp]: "buf_as_mut_remaining (buf_clear b) = b_buf b"
  by (simp add: buf_as_mut_remaining_def)

lemma put_remaining_clear:
  "b_buf (put_remaining p d (buf_clear b)) = overlay (b_buf b) p d"
  "b_available (put_remaining p d (buf_clear b)) = 0" "b_pos_read (put_remaining p d (buf_clear b)) = 0"
  "b_pos_write (put_remaining p d (buf_clear b)) = 0" "b_dirty (put_remaining p d (buf_clear b)) = False"
  by (simp_all add: put_remaining_def buf_set_remaining_def)

lemma put_remaining_clear_idem [simp]: "buf_clear (put_remaining p d (buf_clear b)) = put_remaining p d (buf_clear b)"
  by (simp add: put_remaining_def buf_set_remaining_def buf_clear_def)

lemma put_remaining_put:
  "put_remaining q e (put_remaining p d (buf_clear b)) =
     (buf_clear b)\<lparr>b_buf := overlay (overlay (b_buf b) p d) q e\<rparr>"
  by (simp add: put_remaining_def buf_set_remaining_def buf_as_mut_remaining_def)

lemma decrypt_block_eof:
  assumes "srest (d_input s) = []"
  shows "decrypt_block E key s = (Inr (), s\<lparr>d_buf := buf_clear (d_buf s)\<rparr>)"
  using assms
  by (simp add: decrypt_block_def stream_read_fill put_remaining_def buf_set_remaining_def buf_as_mut_remaining_def)

lemma decrypt_block_ok:
  assumes "aead_ok E" "buf_inv (d_buf s)" "length (b_buf (d_buf s)) = ciphertext_block_size E"
    and blk: "open_block E key (d_block_index s) (take (ciphertext_block_size E) (srest (d_input s))) = Some p"
    and p: "p \<noteq> []"
  defines "n \<equiv> length (take (ciphertext_block_size E) (srest (d_input s)))"
  obtains s' where "decrypt_block E key s = (Inr (), s')" "d_block_index s' = Suc (d_block_index s)"
    "buf_as_ref_read_available (d_buf s') = p" "b_available (d_buf s') = NONCE_LEN + length p"
    "b_pos_read (d_buf s') = NONCE_LEN" "buf_inv (d_buf s')"
    "length (b_buf (d_buf s')) = length (b_buf (d_buf s))"
    "d_input s' = (d_input s)\<lparr>spos := spos (d_input s) + n\<rparr>"
proof -
  let ?blk = "take (ciphertext_block_size E) (srest (d_input s))"
  let ?c = "ciphertext_block_size E" and ?B = "b_buf (d_buf s)"
  have lb: "length ?blk = length p + overhead E" by (rule open_block_length [OF assms(1) blk])
  have ne: "?blk \<noteq> []" "NONCE_LEN \<le> length ?blk" using lb p by (auto simp: NONCE_LEN_def)
  have lc: "length ?blk \<le> ?c" by simp
  have op: "e_open E key (take NONCE_LEN ?blk) (to_le_bytes (d_block_index s)) (drop NONCE_LEN ?blk) = Some p"
    using blk by (simp add: open_block_def split: if_splits)
  let ?B' = "overlay (overlay ?B 0 ?blk) NONCE_LEN p"
  have lB: "length ?B' = ?c" using assms(3) lb lc by simp
  have Bp: "take (length p) (drop NONCE_LEN ?B') = p"
    using assms(3) lb lc by (intro slice_overlay_exact) simp
  let ?b = "(buf_clear (d_buf s))\<lparr>b_buf := ?B', b_available := NONCE_LEN + length p, b_pos_read := NONCE_LEN\<rparr>"
  have inv0: "buf_inv ((buf_clear (d_buf s))\<lparr>b_buf := ?B'\<rparr>)"
    using lB aead_okD(2) [OF assms(1)] by (simp add: buf_inv_def)
  have fit: "NONCE_LEN + length p \<le> length ?B'" using lB lb lc by simp
  have inv1: "buf_inv ((buf_clear (d_buf s))\<lparr>b_buf := ?B', b_available := NONCE_LEN + length p\<rparr>)"
    using inv0 fit by (simp add: buf_inv_def)
  have seek1: "buf_seek_available (Start (NONCE_LEN + length p)) ((buf_clear (d_buf s))\<lparr>b_buf := ?B'\<rparr>) =
      (Inr (NONCE_LEN + length p), (buf_clear (d_buf s))\<lparr>b_buf := ?B', b_available := NONCE_LEN + length p\<rparr>)"
    using buf_seek_available_start [OF inv0] fit by (simp add: buf_clear_def)
  have seek2: "buf_seek_read (Start NONCE_LEN) ((buf_clear (d_buf s))\<lparr>b_buf := ?B', b_available := NONCE_LEN + length p\<rparr>)
      = (Inr NONCE_LEN, ?b)"
    using buf_seek_read_start [OF inv1] by simp
  let ?s = "s\<lparr>d_block_index := Suc (d_block_index s), d_buf := ?b, d_last_nonce := Some (take NONCE_LEN ?blk),
      d_input := (d_input s)\<lparr>spos := spos (d_input s) + n\<rparr>\<rparr>"
  have fill: "read_fill stream_read ?c [] (d_input s) = (Inr ?blk, (d_input s)\<lparr>spos := spos (d_input s) + n\<rparr>)"
    by (simp only: stream_read_fill n_def append_Nil)
  have "decrypt_block E key s = (Inr (), ?s)"
    unfolding decrypt_block_def
    using ne(1,2) p assms(3) fill op seek1 seek2
    by (simp add: put_remaining_put linorder_not_less [symmetric] del: take_eq_Nil)
  moreover have "buf_as_ref_read_available ?b = p"
    using Bp by (simp add: buf_as_ref_read_available_def drop_take)
  moreover have "buf_inv ?b" using inv1 by (simp add: buf_inv_def)
  ultimately show thesis using that [of ?s] lB assms(3) by simp
qed

subsection \<open>The reader delivers the plaintext\<close>

definition r_ok :: "aead_env \<Rightarrow> ring_crypto_read \<Rightarrow> bool" where
  "r_ok E r \<longleftrightarrow> aead_ok E \<and> length (r_key r) = e_key_len E
     \<and> r_ciphertext_block_size r = ciphertext_block_size E \<and> r_plaintext_block_size r = e_block_size E
     \<and> buf_inv (r_buf r) \<and> length (b_buf (r_buf r)) = ciphertext_block_size E"

text \<open>
  The buffer holds block \<open>r_block_index - 1\<close> of the plaintext, from \<open>NONCE_LEN\<close> on, and the read
  position is inside it.
\<close>

definition r_loaded :: "aead_env \<Rightarrow> bytes \<Rightarrow> ring_crypto_read \<Rightarrow> bool" where
  "r_loaded E pt r \<longleftrightarrow> 0 < r_block_index r \<and> (r_block_index r - 1) * e_block_size E < length pt
     \<and> b_available (r_buf r) = NONCE_LEN + length (chunk (e_block_size E) (r_block_index r - 1) pt)
     \<and> drop NONCE_LEN (buf_as_ref (r_buf r)) = chunk (e_block_size E) (r_block_index r - 1) pt
     \<and> NONCE_LEN \<le> b_pos_read (r_buf r)"

definition r_inv :: "aead_env \<Rightarrow> bytes \<Rightarrow> bytes \<Rightarrow> ring_crypto_read \<Rightarrow> bool" where
  "r_inv E ct pt r \<longleftrightarrow> r_ok E r \<and> enc_file E (r_key r) ct pt
     \<and> (case r_input r of None \<Rightarrow> False
        | Some inp \<Rightarrow> sdata inp = ct \<and> srest inp = drop (r_block_index r * ciphertext_block_size E) ct)
     \<and> (b_available (r_buf r) = 0 \<or> r_loaded E pt r)"

definition r_rem :: "aead_env \<Rightarrow> bytes \<Rightarrow> ring_crypto_read \<Rightarrow> bytes" where
  "r_rem E pt r = buf_as_ref_read_available (r_buf r) @ drop (r_block_index r * e_block_size E) pt"

lemma r_okD:
  assumes "r_ok E r"
  shows "aead_ok E" "length (r_key r) = e_key_len E" "buf_inv (r_buf r)"
    "length (b_buf (r_buf r)) = ciphertext_block_size E" "r_plaintext_block_size r = e_block_size E"
    "r_ciphertext_block_size r = ciphertext_block_size E" "0 < e_block_size E"
  using assms by (auto simp: r_ok_def aead_okD)

lemma r_invE:
  assumes "r_inv E ct pt r"
  obtains inp where "r_ok E r" "enc_file E (r_key r) ct pt" "r_input r = Some inp" "sdata inp = ct"
    "srest inp = drop (r_block_index r * ciphertext_block_size E) ct"
    "b_available (r_buf r) = 0 \<or> r_loaded E pt r"
  using assms by (auto simp: r_inv_def split: option.splits)

lemma r_inv_new:
  assumes "aead_ok E" "enc_file E key ct pt" "ring_crypto_read_new E (stream_of ct) key = Inr r"
  shows "r_inv E ct pt r" "r_rem E pt r = pt" "r_block_index r = 0"
proof -
  have r: "r_input r = Some (stream_of ct)" "r_key r = key" "length key = e_key_len E"
      "r_buf r = buf_new (replicate (ciphertext_block_size E) 0)" "r_block_index r = 0"
      "r_ciphertext_block_size r = ciphertext_block_size E" "r_plaintext_block_size r = e_block_size E"
    using assms(3) by (auto simp: ring_crypto_read_new_def Let_def ciphertext_block_size_def split: if_splits)
  show "r_inv E ct pt r" "r_rem E pt r = pt" "r_block_index r = 0"
    using r assms(1,2) aead_okD(2) [OF assms(1)]
    by (auto simp: r_inv_def r_ok_def r_rem_def buf_as_ref_read_available_def intro!: buf_inv_new)
qed

text \<open>Loading the next block: at the end of the file the buffer is just cleared.\<close>

lemma r_decrypt_block_eof:
  assumes "r_inv E ct pt r" "length pt \<le> r_block_index r * e_block_size E"
  shows "r_decrypt_block E r = (Inr (), r\<lparr>r_buf := buf_clear (r_buf r)\<rparr>)"
  using assms(1)
proof (rule r_invE)
  fix inp
  assume r: "r_ok E r" "enc_file E (r_key r) ct pt" "r_input r = Some inp"
    "srest inp = drop (r_block_index r * ciphertext_block_size E) ct"
  have "srest inp = []"
    using enc_file_pos_less_iff [OF r_okD(1) [OF r(1)] r(2), of "r_block_index r"] assms(2) r(4) by simp
  with r(3) show ?thesis by (simp add: r_decrypt_block_def decrypt_block_eof)
qed

lemma r_decrypt_block_next:
  assumes "r_inv E ct pt r" "r_block_index r * e_block_size E < length pt"
  obtains r' where "r_decrypt_block E r = (Inr (), r')" "r_inv E ct pt r'" "r_loaded E pt r'"
    "r_block_index r' = Suc (r_block_index r)" "b_pos_read (r_buf r') = NONCE_LEN"
    "buf_as_ref_read_available (r_buf r') = chunk (e_block_size E) (r_block_index r) pt"
    "r_key r' = r_key r"
  using assms(1)
proof (rule r_invE)
  let ?i = "r_block_index r" and ?b = "e_block_size E" and ?c = "ciphertext_block_size E"
  fix inp
  assume r: "r_ok E r" "enc_file E (r_key r) ct pt" "r_input r = Some inp" "sdata inp = ct"
    "srest inp = drop (?i * ?c) ct"
  note rD = r_okD [OF r(1)]
  let ?d = "\<lparr>d_block_index = ?i, d_buf = r_buf r, d_input = inp, d_last_nonce = r_last_nonce r\<rparr>"
  note blk = enc_file_block [OF rD(1) r(2) assms(2)]
  have blk_eq: "take ?c (srest inp) = chunk ?c ?i ct" by (simp add: r(5) chunk_def)
  obtain d' where d': "decrypt_block E (r_key r) ?d = (Inr (), d')" "d_block_index d' = Suc ?i"
    "buf_as_ref_read_available (d_buf d') = chunk ?b ?i pt"
    "b_available (d_buf d') = NONCE_LEN + length (chunk ?b ?i pt)"
    "b_pos_read (d_buf d') = NONCE_LEN" "buf_inv (d_buf d')" "length (b_buf (d_buf d')) = ?c"
    "d_input d' = inp\<lparr>spos := spos inp + length (chunk ?c ?i ct)\<rparr>"
    using decrypt_block_ok [of E ?d "r_key r" "chunk ?b ?i pt"] rD(1,3,4) blk blk_eq by (auto simp del: length_take)
  let ?r = "r\<lparr>r_block_index := Suc ?i, r_buf := d_buf d', r_input := Some (d_input d'),
      r_last_nonce := d_last_nonce d'\<rparr>"
  have dec: "r_decrypt_block E r = (Inr (), ?r)" using r(3) d'(1,2) by (simp add: r_decrypt_block_def)
  have content: "drop NONCE_LEN (buf_as_ref (d_buf d')) = chunk ?b ?i pt"
    using d'(3,5) by (simp add: buf_as_ref_def buf_as_ref_read_available_def)
  have "srest (d_input d') = drop (length (chunk ?c ?i ct)) (srest inp)"
    by (simp add: d'(8) srest_def add.commute)
  also have "\<dots> = drop (Suc ?i * ?c) ct"
    unfolding r(5) by (auto simp: length_chunk min_def add.commute)
  finally have rest: "srest (d_input d') = drop (Suc ?i * ?c) ct" .
  have loaded: "r_loaded E pt ?r" using assms(2) d'(4,5) content by (simp add: r_loaded_def)
  then have "r_inv E ct pt ?r" using r rD d' rest by (simp add: r_inv_def r_ok_def)
  with loaded dec d' that [of ?r] show thesis by simp
qed

lemma drop_block_split: "drop (i * b) pt = chunk b i pt @ drop (Suc i * b) pt"
  by (simp add: chunk_def add.commute flip: drop_drop)

text \<open>A read from the decrypted block.\<close>

lemma r_loaded_available:
  assumes "r_inv E ct pt r" "buf_as_ref_read_available (r_buf r) \<noteq> []"
  shows "r_loaded E pt r"
  using assms by (auto simp: r_inv_def buf_as_ref_read_available_def)

lemma r_inv_buf_read:
  fixes n :: nat
  assumes "r_inv E ct pt r" "r_loaded E pt r"
  defines "b' \<equiv> state_of (buf_read n (r_buf r))"
  shows "r_inv E ct pt (r\<lparr>r_buf := b'\<rparr>)" "r_loaded E pt (r\<lparr>r_buf := b'\<rparr>)"
    "r_rem E pt (r\<lparr>r_buf := b'\<rparr>) = drop n (buf_as_ref_read_available (r_buf r)) @ drop (r_block_index r * e_block_size E) pt"
proof -
  have inv: "buf_inv (r_buf r)" and ok: "r_ok E r" using assms(1) by (auto simp: r_inv_def r_ok_def)
  have b': "b_available b' = b_available (r_buf r)" "buf_as_ref b' = buf_as_ref (r_buf r)"
      "b_pos_read (r_buf r) \<le> b_pos_read b'" "length (b_buf b') = length (b_buf (r_buf r))" "buf_inv b'"
    using buf_inv_read [OF inv, of n] by (auto simp: b'_def buf_read_eq [OF inv] buf_as_ref_def)
  show l: "r_loaded E pt (r\<lparr>r_buf := b'\<rparr>)" using assms(2) b' by (simp add: r_loaded_def)
  show "r_inv E ct pt (r\<lparr>r_buf := b'\<rparr>)" using assms(1) b' l by (auto simp: r_inv_def r_ok_def split: option.splits)
  show "r_rem E pt (r\<lparr>r_buf := b'\<rparr>) = drop n (buf_as_ref_read_available (r_buf r)) @ drop (r_block_index r * e_block_size E) pt"
    using buf_read_rest [OF inv, of n] by (simp add: r_rem_def b'_def)
qed

text \<open>
  One call of \<open>read\<close> with a nonempty buffer: it serves the decrypted block first, then the next
  block, and reports the end of the stream exactly at the end of the plaintext.
\<close>

lemma ring_read_cases:
  assumes inv: "r_inv E ct pt r" and n: "0 < n"
  shows "(r_rem E pt r = [] \<and> ring_read E n r = (Inr [], r\<lparr>r_buf := buf_clear (r_buf r)\<rparr>)
        \<and> r_inv E ct pt (r\<lparr>r_buf := buf_clear (r_buf r)\<rparr>) \<and> r_rem E pt (r\<lparr>r_buf := buf_clear (r_buf r)\<rparr>) = [])
     \<or> (\<exists>k r'. ring_read E n r = (Inr (take k (r_rem E pt r)), r') \<and> 0 < k \<and> k \<le> n \<and> k \<le> length (r_rem E pt r)
        \<and> r_rem E pt r' = drop k (r_rem E pt r) \<and> r_inv E ct pt r' \<and> r_loaded E pt r')"
    (is "?eof \<or> ?some")
proof -
  let ?av = "buf_as_ref_read_available (r_buf r)" and ?i = "r_block_index r" and ?b = "e_block_size E"
  have binv: "buf_inv (r_buf r)" and ok: "r_ok E r" using inv by (auto simp: r_inv_def r_ok_def)
  have take_min: "take (min n (length xs)) xs = take n xs" "drop (min n (length xs)) xs = drop n xs"
    "min n (length xs) \<le> length xs + m" for xs :: bytes and m
    by (auto simp: min_def)
  have serve: "\<exists>k r'. on_r_buf (buf_read n) r = (Inr (take k (r_rem E pt r)), r') \<and> 0 < k \<and> k \<le> n
        \<and> k \<le> length (r_rem E pt r) \<and> r_rem E pt r' = drop k (r_rem E pt r) \<and> r_inv E ct pt r' \<and> r_loaded E pt r'"
    if inv: "r_inv E ct pt r" and av: "buf_as_ref_read_available (r_buf r) \<noteq> []" for r
  proof -
    let ?av = "buf_as_ref_read_available (r_buf r)"
    have binv: "buf_inv (r_buf r)" using inv by (auto simp: r_inv_def r_ok_def)
    note after = r_inv_buf_read [OF inv r_loaded_available [OF inv av], of n]
    have "on_r_buf (buf_read n) r = (Inr (take n ?av), r\<lparr>r_buf := state_of (buf_read n (r_buf r))\<rparr>)"
      using buf_read_eq [OF binv, of n] by simp
    with after av n show ?thesis
      by (intro exI [of _ "min n (length ?av)"] exI [of _ "r\<lparr>r_buf := state_of (buf_read n (r_buf r))\<rparr>"])
         (simp add: r_rem_def take_min)
  qed
  show ?thesis
  proof (cases "?av = []")
    case False
    from serve [OF inv this] obtain k r' where *:
      "on_r_buf (buf_read n) r = (Inr (take k (r_rem E pt r)), r')" "0 < k" "k \<le> n"
      "k \<le> length (r_rem E pt r)" "r_rem E pt r' = drop k (r_rem E pt r)" "r_inv E ct pt r'" "r_loaded E pt r'"
      by blast
    then have "r_rem E pt r \<noteq> []" by auto
    with * show ?thesis by (auto simp: ring_read_def)
  next
    case True
    then have first: "on_r_buf (buf_read n) r = (Inr [], r)"
      using binv by (simp add: buf_read_def zoom_apply buf_available_read_def flip: length_0_conv)
    show ?thesis
    proof (cases "length pt \<le> ?i * ?b")
      case eof: True
      have "ring_read E n r = (Inr [], r\<lparr>r_buf := buf_clear (r_buf r)\<rparr>)"
        using first r_decrypt_block_eof [OF inv eof]
        by (simp add: ring_read_def buf_read_def zoom_apply buf_available_read_def)
      moreover have "r_inv E ct pt (r\<lparr>r_buf := buf_clear (r_buf r)\<rparr>)"
        using inv by (auto simp: r_inv_def r_ok_def split: option.splits)
      ultimately show ?thesis using True eof by (simp add: r_rem_def buf_as_ref_read_available_def)
    next
      case False
      then have "?i * ?b < length pt" by simp
      from r_decrypt_block_next [OF inv this] obtain r1 where r1: "r_decrypt_block E r = (Inr (), r1)"
        "r_inv E ct pt r1" "r_block_index r1 = Suc ?i"
        "buf_as_ref_read_available (r_buf r1) = chunk ?b ?i pt" by metis
      have "chunk ?b ?i pt \<noteq> []" using False r_okD(7) [OF ok] by (intro chunk_nonempty) simp_all
      moreover have "r_rem E pt r1 = r_rem E pt r"
        using True r1(3,4) drop_block_split [of ?i ?b pt] by (simp add: r_rem_def)
      ultimately show ?thesis using serve [OF r1(2)] r1(1,4) first by (auto simp: ring_read_def)
    qed
  qed
qed

interpretation crypto_reader: io_reader "ring_read E" "r_rem E pt" "r_inv E ct pt" for E ct pt
proof unfold_locales
  fix s n assume "r_inv E ct pt s" "0 < (n::nat)"
  from ring_read_cases [OF this] show "\<exists>k s'. ring_read E n s = (Inr (take k (r_rem E pt s)), s') \<and> k \<le> n \<and>
      k \<le> length (r_rem E pt s) \<and> (r_rem E pt s \<noteq> [] \<longrightarrow> 0 < k) \<and>
      r_rem E pt s' = drop k (r_rem E pt s) \<and> r_inv E ct pt s'"
    by (elim disjE) fastforce+
qed

end
