(* ===== verification/Crypto_Read_Seek.thy ===== *)
theory Crypto_Read_Seek
  imports Crypto_Read
begin

text \<open>
  Correctness of \<open>Seek for RingCryptoRead\<close>. A reader that has a definite position (freshly
  created, or with a block in its buffer) seeks to the requested plaintext position, clamped to
  the plaintext length the code computes from the file length. That length is exact unless the
  last block of the file is full: then it is \<open>NONCE_LEN + tag_len\<close> bytes short, and the tail of
  the file cannot be seeked to. A reader that has reported the end of the stream has no definite
  position any more: \<open>r_pos\<close> falls back to the start of the last block while the input stays at
  the end, so a later seek into the last block delivers nothing.
\<close>

subsection \<open>Positions\<close>

definition r_good :: "aead_env \<Rightarrow> bytes \<Rightarrow> bytes \<Rightarrow> ring_crypto_read \<Rightarrow> bool" where
  "r_good E ct pt r \<longleftrightarrow> r_inv E ct pt r \<and> (r_block_index r = 0 \<or> r_loaded E pt r)"

lemma r_good_new:
  "aead_ok E \<Longrightarrow> enc_file E key ct pt \<Longrightarrow> ring_crypto_read_new E (stream_of ct) key = Inr r
     \<Longrightarrow> r_good E ct pt r"
  using r_inv_new [of E key ct pt r] by (simp add: r_good_def)

lemma r_loaded_rem:
  assumes "r_inv E ct pt r" "r_loaded E pt r"
  shows "r_pos r = (r_block_index r - 1) * e_block_size E + (b_pos_read (r_buf r) - NONCE_LEN)"
    and "b_pos_read (r_buf r) - NONCE_LEN \<le> length (chunk (e_block_size E) (r_block_index r - 1) pt)"
    and "r_rem E pt r = drop (r_pos r) pt" and "r_pos r \<le> length pt"
proof -
  let ?b = "e_block_size E" and ?i = "r_block_index r - 1" and ?p = "b_pos_read (r_buf r) - NONCE_LEN"
  have ok: "r_ok E r" using assms(1) by (simp add: r_inv_def)
  note rD = r_okD [OF ok]
  show pos: "r_pos r = ?i * ?b + ?p" by (simp add: r_pos_def rD)
  have l: "b_available (r_buf r) = NONCE_LEN + length (chunk ?b ?i pt)" "NONCE_LEN \<le> b_pos_read (r_buf r)"
      "drop NONCE_LEN (buf_as_ref (r_buf r)) = chunk ?b ?i pt" "r_block_index r = Suc ?i" "?i * ?b < length pt"
    using assms(2) by (auto simp: r_loaded_def)
  show p: "?p \<le> length (chunk ?b ?i pt)" using buf_invD(1) [OF rD(3)] l(1) by simp
  show "r_pos r \<le> length pt" using p l(5) unfolding pos length_chunk by linarith
  have "buf_as_ref_read_available (r_buf r) = drop ?p (chunk ?b ?i pt)"
    unfolding l(3) [symmetric] using l(2)
    by (simp add: buf_as_ref_read_available_def buf_as_ref_def)
  then have "r_rem E pt r = drop ?p (chunk ?b ?i pt) @ drop (Suc ?i * ?b) pt"
    unfolding r_rem_def using l(4) by metis
  also have "\<dots> = drop ?p (drop (?i * ?b) pt)"
    unfolding drop_block_split [of ?i ?b pt] using p by simp
  finally show "r_rem E pt r = drop (r_pos r) pt" by (simp add: pos add.commute)
qed

lemma r_good_rem:
  assumes "r_good E ct pt r"
  shows "r_rem E pt r = drop (r_pos r) pt" "r_pos r \<le> length pt"
proof -
  have inv: "r_inv E ct pt r" using assms by (simp add: r_good_def)
  have "r_rem E pt r = drop (r_pos r) pt \<and> r_pos r \<le> length pt"
  proof (cases "r_loaded E pt r")
    case True
    with r_loaded_rem [OF inv] show ?thesis by blast
  next
    case False
    with assms have "r_block_index r = 0" "b_available (r_buf r) = 0"
      by (auto simp: r_good_def r_inv_def)
    moreover have "buf_inv (r_buf r)" using inv by (simp add: r_inv_def r_ok_def)
    ultimately show ?thesis
      by (simp add: r_rem_def r_pos_def buf_as_ref_read_available_def buf_inv_def)
  qed
  then show "r_rem E pt r = drop (r_pos r) pt" "r_pos r \<le> length pt" by blast+
qed

text \<open>Skipping \<open>n > 0\<close> bytes that are there leaves the reader inside a decrypted block.\<close>

lemma r_seek_forward:
  assumes "r_inv E ct pt r" "0 < n" "n \<le> length (r_rem E pt r)"
  obtains r' where "seek_forward (ring_read E) n True r = (Inr n, r')" "r_inv E ct pt r'" "r_loaded E pt r'"
    "r_rem E pt r' = drop n (r_rem E pt r)"
proof -
  obtain r' where r': "seek_forward (ring_read E) n True r = (Inr n, r')" "r_rem E pt r' = drop n (r_rem E pt r)"
      "r_inv E ct pt r'"
    using crypto_reader.seek_forward_ok [OF assms(1), of True n] assms(3) by (auto simp: min_absorb1)
  obtain r0 m d where r0: "r_inv E ct pt r0" "0 < m" "d \<noteq> []" "ring_read E m r0 = (Inr d, r')"
    using crypto_reader.seek_forward_last [OF assms, of True] r'(1) by auto
  have "r_loaded E pt r'" using ring_read_cases [OF r0(1,2)] r0(3,4) by auto
  with that r' show thesis by blast
qed

lemma r_good_su_read:
  assumes "r_good E ct pt r" "0 < n" "n \<le> length pt - r_pos r"
  obtains r' where "su_read (ring_read E) n r = (Inr (take n (drop (r_pos r) pt)), r')"
    "r_good E ct pt r'" "r_pos r' = r_pos r + n"
proof -
  note rem = r_good_rem [OF assms(1)]
  have inv: "r_inv E ct pt r" using assms(1) by (simp add: r_good_def)
  have n: "n \<le> length (r_rem E pt r)" using assms(3) by (simp add: rem)
  obtain r' where r': "su_read (ring_read E) n r = (Inr (take n (r_rem E pt r)), r')"
      "r_rem E pt r' = drop n (r_rem E pt r)" "r_inv E ct pt r'"
    using crypto_reader.su_read_ok [OF inv assms(2)] by blast
  obtain r0 m d where r0: "r_inv E ct pt r0" "0 < m" "d \<noteq> []" "ring_read E m r0 = (Inr d, r')"
    using crypto_reader.su_read_last [OF inv assms(2) n] r'(1) by auto
  have l: "r_loaded E pt r'" using ring_read_cases [OF r0(1,2)] r0(3,4) by auto
  have "r_rem E pt r' = drop (r_pos r + n) pt" using r'(2) rem(1) by (simp add: add.commute)
  with r_loaded_rem(3,4) [OF r'(3) l] assms(2,3) have "r_pos r' = r_pos r + n"
    by (metis (no_types, lifting) diff_diff_cancel le_diff_conv2 length_drop rem(2) add.commute)
  with that r' l rem show thesis by (simp add: r_good_def)
qed

lemma r_rem_pos_unique:
  assumes "r_inv E ct pt r" "r_loaded E pt r" "r_rem E pt r = drop n pt" "n \<le> length pt"
  shows "r_pos r = n"
  using r_loaded_rem(3,4) [OF assms(1,2)] assms(3,4)
  by (metis diff_diff_cancel length_drop)

subsection \<open>The plaintext length the reader computes\<close>

definition computed_len :: "aead_env \<Rightarrow> bytes \<Rightarrow> nat" where
  "computed_len E pt =
     (if pt \<noteq> [] \<and> length pt mod e_block_size E = 0 then length pt - overhead E else length pt)"

lemma r_get_plaintext_len_eq:
  assumes inv: "r_inv E ct pt r" and "length ct < 2 ^ 63" and "overhead E \<le> e_block_size E"
  shows "r_get_plaintext_len r = (Inr (computed_len E pt), r)"
  using inv
proof (rule r_invE)
  fix inp
  assume r: "r_ok E r" "enc_file E (r_key r) ct pt" "r_input r = Some inp" "sdata inp = ct"
  note rD = r_okD [OF r(1)]
  let ?b = "e_block_size E" and ?n = "length pt" and ?L = "length ct"
  have c: "ciphertext_block_size E - ?b = overhead E" by (simp add: ciphertext_block_size_def)
  have L: "?L = ?n + overhead E * nblocks ?b ?n" by (rule enc_fileD(1) [OF r(2)])
  note nb = nblocks_eq [OF rD(7), of ?n]
  have "?L div (?b + overhead E) = ?n div ?b" by (rule enc_length_div(1) [OF rD(7) L])
  then have d: "?L div ciphertext_block_size E = ?n div ?b" by (simp add: ciphertext_block_size_eq)
  have e: "ct = [] \<longleftrightarrow> pt = []" by (rule enc_file_empty_iff [OF r(2) rD(1)])
  show ?thesis
  proof (cases "pt = []")
    case True
    with e r(3,4) show ?thesis by (simp add: r_get_plaintext_len_def stream_len_def computed_len_def)
  next
    case False
    define ov q where "ov = overhead E" and "q = ?n div ?b"
    have sub: "(q + 1) * ov \<le> ?L \<and> ?L - (q + 1) * ov = computed_len E pt"
    proof (cases "?n mod ?b = 0")
      case True
      then have n: "?n = q * ?b" by (auto simp: q_def)
      with False have "0 < q" by (cases q) auto
      then have "ov \<le> q * ?b" using assms(3) by (cases q) (auto simp: ov_def)
      then show ?thesis using L nb True False n rD(7)
        by (simp add: computed_len_def ov_def [symmetric] q_def [symmetric] algebra_simps)
    next
      case False
      then show ?thesis using L nb by (simp add: computed_len_def ov_def [symmetric] q_def [symmetric])
    qed
    moreover have "?L < 2 ^ 64" using assms(2) by simp
    ultimately have "u64_sub ?L ((q + 1) * ov) = computed_len E pt" using u64_sub_le by metis
    then show ?thesis using False e r(3,4) c d rD
      by (simp add: r_get_plaintext_len_def stream_len_def ov_def q_def Let_def)
  qed
qed

lemma computed_len_le: "computed_len E pt \<le> length pt"
  by (simp add: computed_len_def)

text \<open>The code never asks for the block after a full last one.\<close>

lemma computed_len_block:
  assumes "n \<le> computed_len E pt" "0 < overhead E" "0 < n" "0 < e_block_size E"
  shows "n div e_block_size E * e_block_size E < length pt"
proof (rule ccontr)
  let ?b = "e_block_size E"
  assume "\<not> n div ?b * ?b < length pt"
  moreover have "n div ?b * ?b \<le> n" by simp
  moreover have "n \<le> length pt" using assms(1) computed_len_le le_trans by blast
  ultimately have eq: "n = length pt" "n div ?b * ?b = n" by linarith+
  from eq(2) have "n mod ?b = 0" by (metis mod_mult_self2_is_0)
  note eq = eq(1) this
  with assms(3) have "computed_len E pt = length pt - overhead E" by (auto simp: computed_len_def)
  with assms(1-3) eq show False by linarith
qed

subsection \<open>Where a seek lands\<close>

text \<open>The four ways the code moves, each to a position that exists.\<close>

lemma seek_within_block:
  assumes good: "r_good E ct pt r" and av: "0 < b_available (r_buf r)"
    and n: "n \<le> length pt" and same: "r_pos r div e_block_size E = n div e_block_size E"
    and nend: "\<not> (r_pos r mod e_block_size E = 0 \<and> buf_available_read (r_buf r) = 0)"
  obtains r' where "on_r_buf (buf_seek_read (Start (NONCE_LEN + n mod e_block_size E))) r =
      (Inr (NONCE_LEN + n mod e_block_size E), r')" "r_good E ct pt r'" "r_pos r' = n"
proof -
  let ?b = "e_block_size E" and ?i = "r_block_index r - 1"
  let ?o = "b_pos_read (r_buf r) - NONCE_LEN"
  have inv: "r_inv E ct pt r" using good by (simp add: r_good_def)
  then have ok: "r_ok E r" by (simp add: r_inv_def)
  note rD = r_okD [OF ok]
  have l: "r_loaded E pt r" using inv av by (simp add: r_inv_def)
  note pos = r_loaded_rem [OF inv l]
  have "?o < ?b"
  proof (rule ccontr)
    assume "\<not> ?o < ?b"
    then have "?o = ?b" "length (chunk ?b ?i pt) = ?b" using pos(2) by (auto simp: length_chunk)
    then have "r_pos r mod ?b = 0" "buf_available_read (r_buf r) = 0"
      using pos(1) l by (auto simp: r_loaded_def buf_available_read_def)
    with nend show False by blast
  qed
  then have ni: "n div ?b = ?i" using same pos(1) by simp
  have nb: "n = ?i * ?b + n mod ?b" using ni by (metis div_mult_mod_eq)
  have off: "n mod ?b \<le> length (chunk ?b ?i pt)"
  proof -
    have "n mod ?b < ?b" using rD(7) by simp
    moreover have "n mod ?b \<le> length pt - ?i * ?b" using n nb by linarith
    ultimately show ?thesis by (simp add: length_chunk)
  qed
  let ?r = "r\<lparr>r_buf := (r_buf r)\<lparr>b_pos_read := NONCE_LEN + n mod ?b\<rparr>\<rparr>"
  have le: "NONCE_LEN + n mod ?b \<le> b_available (r_buf r)" using off l by (simp add: r_loaded_def)
  have seek: "on_r_buf (buf_seek_read (Start (NONCE_LEN + n mod ?b))) r = (Inr (NONCE_LEN + n mod ?b), ?r)"
    using buf_seek_read_start [OF rD(3) le] by simp
  have eq: "buf_as_ref ((r_buf r)\<lparr>b_pos_read := x\<rparr>) = buf_as_ref (r_buf r)" for x
    by (simp add: buf_as_ref_def)
  have l': "r_loaded E pt ?r" using l by (simp add: r_loaded_def eq)
  moreover have "r_inv E ct pt ?r"
    using inv l' le by (auto simp: r_inv_def r_ok_def buf_inv_def split: option.splits)
  moreover have "r_pos ?r = n" using nb rD by (simp add: r_pos_def)
  ultimately show thesis using that [OF seek] by (simp add: r_good_def)
qed

lemma seek_into_next_block:
  assumes good: "r_good E ct pt r" and n: "n \<le> length pt" "r_pos r \<noteq> n"
    and same: "r_pos r div e_block_size E = n div e_block_size E"
    and start: "b_available (r_buf r) = 0 \<or> r_pos r mod e_block_size E = 0 \<and> buf_available_read (r_buf r) = 0"
  obtains r' m where "seek_forward (ring_read E) (n mod e_block_size E) True r = (Inr m, r')"
    "r_good E ct pt r'" "r_pos r' = n"
proof -
  let ?b = "e_block_size E"
  have inv: "r_inv E ct pt r" using good by (simp add: r_good_def)
  then have ok: "r_ok E r" by (simp add: r_inv_def)
  have p0: "r_pos r mod ?b = 0"
  proof (cases "b_available (r_buf r) = 0")
    case True
    with good have "\<not> r_loaded E pt r" by (auto simp: r_loaded_def NONCE_LEN_def)
    with good have "r_block_index r = 0" by (simp add: r_good_def)
    with True r_okD(3) [OF ok] show ?thesis by (simp add: r_pos_def buf_inv_def)
  next
    case False
    with start show ?thesis by simp
  qed
  then have nb: "n = r_pos r + n mod ?b" using same by (metis div_mult_mod_eq add.right_neutral)
  with n(2) have "0 < n mod ?b" by (cases "n mod ?b") auto
  moreover have rem: "r_rem E pt r = drop (r_pos r) pt" by (rule r_good_rem(1) [OF good])
  moreover have "n mod ?b \<le> length (r_rem E pt r)" using nb n(1) by (simp add: rem)
  ultimately obtain r' where r': "seek_forward (ring_read E) (n mod ?b) True r = (Inr (n mod ?b), r')"
      "r_inv E ct pt r'" "r_loaded E pt r'" "r_rem E pt r' = drop (n mod ?b) (r_rem E pt r)"
    using r_seek_forward [OF inv] by metis
  have "r_rem E pt r' = drop n pt" using r'(4) rem nb by (metis add.commute drop_drop)
  then have "r_pos r' = n" using r_rem_pos_unique [OF r'(2,3)] n(1) by blast
  with that r' show thesis by (simp add: r_good_def)
qed

text \<open>Jumping to block \<open>n div b\<close>: the input is repositioned and the block is decrypted.\<close>

lemma seek_to_other_block:
  assumes good: "r_good E ct pt r" and n: "n \<le> length pt" "n div e_block_size E * e_block_size E < length pt"
  defines "j \<equiv> n div e_block_size E"
  obtains r1 r2 r3 m where "r_input_seek (j * ciphertext_block_size E) r = (Inr (), r1)"
    "whenM (n mod e_block_size E = 0) (r_decrypt_block E)
       (r1\<lparr>r_buf := buf_clear (r_buf r1), r_block_index := j\<rparr>) = (Inr (), r2)"
    "seek_forward (ring_read E) (n mod e_block_size E) True r2 = (Inr m, r3)"
    "r_good E ct pt r3" "r_pos r3 = n"
proof -
  let ?b = "e_block_size E" and ?c = "ciphertext_block_size E"
  have inv: "r_inv E ct pt r" using good by (simp add: r_good_def)
  then obtain inp where r: "r_ok E r" "enc_file E (r_key r) ct pt" "r_input r = Some inp" "sdata inp = ct"
    by (auto elim!: r_invE)
  note rD = r_okD [OF r(1)]
  let ?r1 = "r\<lparr>r_input := Some (inp\<lparr>spos := j * ?c\<rparr>)\<rparr>"
  let ?r = "?r1\<lparr>r_buf := buf_clear (r_buf ?r1), r_block_index := j\<rparr>"
  have s1: "r_input_seek (j * ?c) r = (Inr (), ?r1)"
    using r(3) by (simp add: r_input_seek_def stream_seek_start_def)
  have inv': "r_inv E ct pt ?r" using r rD by (simp add: r_inv_def r_ok_def srest_def)
  have nb: "n = j * ?b + n mod ?b" by (simp add: j_def)
  have rem: "r_rem E pt ?r = drop (j * ?b) pt" by (simp add: r_rem_def buf_as_ref_read_available_def)
  show thesis
  proof (cases "n mod ?b = 0")
    case True
    have "r_block_index ?r * ?b < length pt" using n(2) by (simp add: j_def)
    from r_decrypt_block_next [OF inv' this] obtain r' where r': "r_decrypt_block E ?r = (Inr (), r')"
      "r_inv E ct pt r'" "r_loaded E pt r'" "r_block_index r' = Suc j" "b_pos_read (r_buf r') = NONCE_LEN"
      by auto
    have "r_pos r' = n" using r_loaded_rem(1) [OF r'(2,3)] r'(4,5) nb True by simp
    with r' True s1 show thesis by (intro that [of ?r1 r' 0 r']) (simp_all add: seek_forward_def r_good_def)
  next
    case False
    then have "0 < n mod ?b" by simp
    moreover have "n mod ?b \<le> length (r_rem E pt ?r)" unfolding rem length_drop using nb n(1) by linarith
    ultimately obtain r' where r': "seek_forward (ring_read E) (n mod ?b) True ?r = (Inr (n mod ?b), r')"
        "r_inv E ct pt r'" "r_loaded E pt r'" "r_rem E pt r' = drop (n mod ?b) (r_rem E pt ?r)"
      using r_seek_forward [OF inv'] by metis
    have "r_rem E pt r' = drop n pt" using r'(4) rem nb by (metis add.commute drop_drop)
    then have "r_pos r' = n" using r_rem_pos_unique [OF r'(2,3)] n(1) by blast
    with r' False s1 show thesis by (intro that [of ?r1 ?r "n mod ?b" r']) (simp_all add: r_good_def)
  qed
qed

text \<open>
  The seek as a whole, for any target: it lands on the target clamped to the computed length and
  leaves the reader positioned there.
\<close>

definition seek_target :: "nat \<Rightarrow> nat \<Rightarrow> SeekFrom \<Rightarrow> int" where
  "seek_target len cur pos = (case pos of Start p \<Rightarrow> as_i64 p | End d \<Rightarrow> wrap_i64 (as_i64 len + d)
     | Current d \<Rightarrow> wrap_i64 (as_i64 cur + d))"

lemma ring_read_seek_ok:
  assumes good: "r_good E ct pt r" and len: "length ct < 2 ^ 63" and ov: "overhead E \<le> e_block_size E"
    and t: "0 \<le> seek_target (computed_len E pt) (r_pos r) pos"
  defines "n \<equiv> min (nat (seek_target (computed_len E pt) (r_pos r) pos)) (computed_len E pt)"
  shows "\<exists>r'. ring_read_seek E pos r = (Inr n, r') \<and> r_good E ct pt r' \<and> r_pos r' = n"
proof -
  let ?b = "e_block_size E"
  have inv: "r_inv E ct pt r" using good by (simp add: r_good_def)
  then have ok: "r_ok E r" by (simp add: r_inv_def)
  note rD = r_okD [OF ok]
  have nle: "n \<le> length pt" "n \<le> computed_len E pt"
    using computed_len_le [of E pt] by (auto simp: n_def)
  note get = r_get_plaintext_len_eq [OF inv len ov]
  have tgt: "(case pos of Start p \<Rightarrow> as_i64 p | End d \<Rightarrow> wrap_i64 (as_i64 (computed_len E pt) + d)
      | Current d \<Rightarrow> wrap_i64 (as_i64 (r_pos r) + d)) = seek_target (computed_len E pt) (r_pos r) pos"
    by (simp add: seek_target_def)
  note unfold = ring_read_seek_def get tgt Let_def n_def [symmetric] rD(5,6)
  consider (here) "r_pos r = n"
    | (within) "r_pos r \<noteq> n" "r_pos r div ?b = n div ?b" "0 < b_available (r_buf r)"
        "\<not> (r_pos r mod ?b = 0 \<and> buf_available_read (r_buf r) = 0)"
    | (next_block) "r_pos r \<noteq> n" "r_pos r div ?b = n div ?b"
        "b_available (r_buf r) = 0 \<or> r_pos r mod ?b = 0 \<and> buf_available_read (r_buf r) = 0"
    | (other) "r_pos r \<noteq> n" "r_pos r div ?b \<noteq> n div ?b" by fastforce
  then show ?thesis
  proof cases
    case here
    have nn: "n = r_pos r" using here by simp
    show ?thesis using good t by (simp add: unfold) (simp add: nn)
  next
    case within
    from seek_within_block [OF good within(3) nle(1) within(2,4)] obtain r' where
      "on_r_buf (buf_seek_read (Start (NONCE_LEN + n mod ?b))) r = (Inr (NONCE_LEN + n mod ?b), r')"
      "r_good E ct pt r'" "r_pos r' = n" by blast
    with within t show ?thesis by (simp add: unfold)
  next
    case next_block
    from seek_into_next_block [OF good nle(1) next_block] obtain r' m where
      "seek_forward (ring_read E) (n mod ?b) True r = (Inr m, r')" "r_good E ct pt r'" "r_pos r' = n" by blast
    with next_block t show ?thesis by (auto simp: unfold)
  next
    case other
    have "n div ?b * ?b < length pt"
    proof (cases "n = 0")
      case True
      with other r_good_rem(2) [OF good] show ?thesis by (cases pt) auto
    next
      case False
      with nle(2) rD(7) show ?thesis by (intro computed_len_block) (auto simp: NONCE_LEN_def)
    qed
    then obtain r1 r2 r3 m where
      "r_input_seek (n div ?b * ciphertext_block_size E) r = (Inr (), r1)"
      "whenM (n mod ?b = 0) (r_decrypt_block E) (r1\<lparr>r_buf := buf_clear (r_buf r1), r_block_index := n div ?b\<rparr>) = (Inr (), r2)"
      "seek_forward (ring_read E) (n mod ?b) True r2 = (Inr m, r3)" "r_good E ct pt r3" "r_pos r3 = n"
      by (rule seek_to_other_block [OF good nle(1)])
    with other t show ?thesis by (simp add: unfold)
  qed
qed

end
