(* ===== verification/Crypto_Write.thy ===== *)
theory Crypto_Write
  imports Crypto_Block
begin

text \<open>
  Model of \<open>RingCryptoWrite\<close> (\<open>src/crypto/write.rs\<close>): the append-only encrypting writer. Bytes
  are collected in a buffer of one block; a full block is sealed with a fresh random nonce and its
  index and appended to the wrapped stream as \<open>nonce | ciphertext | tag\<close>; \<open>finish\<close> seals the
  last, possibly shorter, block.

  The random generator of \<open>RandomNonceSequence\<close> is the counter \<open>w_rng\<close> of draws from the
  parameter \<open>e_fill\<close>. Flushing the wrapped stream has no effect on a file model and is omitted.
\<close>

subsection \<open>State and operations\<close>

record ring_crypto_write =
  w_out :: "stream option"
  w_key :: bytes
  w_buf :: buf_mut
  w_rng :: nat
  w_last_nonce :: "bytes option"
  w_ciphertext_block_size :: nat
  w_plaintext_block_size :: nat
  w_block_index :: nat

definition ring_crypto_write_new :: "aead_env \<Rightarrow> nat \<Rightarrow> stream \<Rightarrow> bytes \<Rightarrow> io_error + ring_crypto_write" where
  "ring_crypto_write_new E seed writer key =
     (if length key \<noteq> e_key_len E then Inl Panic
      else Inr \<lparr>w_out = Some writer, w_key = key, w_buf = buf_new (replicate (e_block_size E) 0),
        w_rng = seed, w_last_nonce = None,
        w_ciphertext_block_size = NONCE_LEN + e_block_size E + e_tag_len E,
        w_plaintext_block_size = e_block_size E, w_block_index = 0\<rparr>)"

text \<open>\<open>RandomNonceSequence::advance\<close>.\<close>

definition random_nonce_advance :: "aead_env \<Rightarrow> (ring_crypto_write, io_error, bytes) sem" where
  "random_nonce_advance E = (\<lambda>w. let nonce = e_fill E (w_rng w) NONCE_LEN in
     (Inr nonce, w\<lparr>w_rng := Suc (w_rng w), w_last_nonce := Some nonce\<rparr>))"

text \<open>\<open>self.out.as_mut().unwrap().write_all(d)\<close>.\<close>

definition out_write_all :: "bytes \<Rightarrow> (ring_crypto_write, io_error, unit) sem" where
  "out_write_all d = (\<lambda>w. case w_out w of None \<Rightarrow> (Inl Panic, w)
     | Some out \<Rightarrow> (case write_all stream_write d out of (r, out') \<Rightarrow> (r, w\<lparr>w_out := Some out'\<rparr>)))"

definition encrypt_and_write :: "aead_env \<Rightarrow> (ring_crypto_write, io_error, unit) sem" where
  "encrypt_and_write E =
     bnd (gets (\<lambda>w. (buf_as_ref (w_buf w), to_le_bytes (w_block_index w), w_key w))) (\<lambda>(data, aad, key).
     bnd (random_nonce_advance E) (\<lambda>nonce.
     (case e_seal E key nonce aad data of
        None \<Rightarrow> throw (IoErr Other ''error sealing in place'')
      | Some (ct, tag) \<Rightarrow>
          bnd (modif (w_buf_update (buf_set_as_mut ct))) (\<lambda>_.
          bnd (out_write_all nonce) (\<lambda>_.
          bnd (out_write_all ct) (\<lambda>_.
          bnd (modif (w_buf_update buf_clear)) (\<lambda>_.
          bnd (out_write_all tag) (\<lambda>_.
          modif (w_block_index_update Suc)))))))))"

definition ring_flush :: "aead_env \<Rightarrow> (ring_crypto_write, io_error, unit) sem" where
  "ring_flush E = (\<lambda>w.
     if w_out w = None then (Inl (IoErr Other ''flush called on already finished writer''), w)
     else if \<not> b_dirty (w_buf w) then (Inr (), w)
     else if buf_remaining (w_buf w) = 0 then encrypt_and_write E w
     else (Inr (), w))"

definition ring_write :: "aead_env \<Rightarrow> bytes \<Rightarrow> (ring_crypto_write, io_error, nat) sem" where
  "ring_write E d =
     bnd (gets w_out) (\<lambda>out.
     if out = None then throw (IoErr Other ''write called on already finished writer'')
     else
       bnd (gets w_buf) (\<lambda>b.
       bnd (whenM (b_dirty b \<and> buf_remaining b = 0) (ring_flush E)) (\<lambda>_.
       zoom w_buf (\<lambda>b w. w\<lparr>w_buf := b\<rparr>) (buf_write d))))"

definition ring_finish :: "aead_env \<Rightarrow> (ring_crypto_write, io_error, stream) sem" where
  "ring_finish E =
     bnd (gets w_out) (\<lambda>out.
     if out = None then throw (IoErr Other ''finish called on already finished writer'')
     else
       bnd (gets w_buf) (\<lambda>b.
       bnd (whenM (b_dirty b) (encrypt_and_write E)) (\<lambda>_.
       bnd (gets w_out) (\<lambda>out.
       bnd (modif (w_out_update (\<lambda>_. None))) (\<lambda>_.
       case out of None \<Rightarrow> throw Panic | Some s \<Rightarrow> ret s)))))"

subsection \<open>One sealed block\<close>

text \<open>
  What every writer of the program keeps true of itself: lengths agree with the parameters and
  the buffer holds at most one block. \<open>w_ready\<close> adds that the writer is not finished and that its
  stream is positioned inside the file.
\<close>

definition w_ok :: "aead_env \<Rightarrow> ring_crypto_write \<Rightarrow> bool" where
  "w_ok E w \<longleftrightarrow> aead_ok E \<and> length (w_key w) = e_key_len E
     \<and> w_ciphertext_block_size w = ciphertext_block_size E \<and> w_plaintext_block_size w = e_block_size E
     \<and> buf_inv (w_buf w) \<and> length (b_buf (w_buf w)) = e_block_size E"

lemma w_okD:
  assumes "w_ok E w"
  shows "aead_ok E" "length (w_key w) = e_key_len E" "buf_inv (w_buf w)"
    "length (b_buf (w_buf w)) = e_block_size E" "w_plaintext_block_size w = e_block_size E"
    "w_ciphertext_block_size w = ciphertext_block_size E" "0 < e_block_size E"
    "b_available (w_buf w) \<le> e_block_size E" "length (buf_as_ref (w_buf w)) = b_available (w_buf w)"
  using assms by (auto simp: w_ok_def aead_okD length_buf_as_ref dest: buf_invD)

lemma w_ok_new: "aead_ok E \<Longrightarrow> ring_crypto_write_new E seed s key = Inr w \<Longrightarrow> w_ok E w"
  by (auto simp: ring_crypto_write_new_def w_ok_def ciphertext_block_size_def aead_ok_def
      intro!: buf_inv_new split: if_splits)

lemma encrypt_and_write_ok:
  assumes w: "w_ok E w" and out: "w_out w = Some out" and pos: "spos out \<le> length (sdata out)"
  obtains blk w' where "encrypt_and_write E w = (Inr (), w')"
    "open_block E (w_key w) (w_block_index w) blk = Some (buf_as_ref (w_buf w))"
    "w_out w' = Some (out\<lparr>sdata := overlay (sdata out) (spos out) blk, spos := spos out + length blk\<rparr>)"
    "w_block_index w' = Suc (w_block_index w)" "w_key w' = w_key w" "w_ok E w'"
    "b_available (w_buf w') = 0" "b_pos_write (w_buf w') = 0" "\<not> b_dirty (w_buf w')"
proof -
  note wD = w_okD [OF w]
  let ?nonce = "e_fill E (w_rng w) NONCE_LEN"
  have n: "length ?nonce = NONCE_LEN" by (rule aead_okD(3) [OF wD(1)])
  have "length (buf_as_ref (w_buf w)) \<le> e_block_size E" using wD by simp
  from aead_seal [OF wD(1,2) n this] obtain ct tag where
    seal: "e_seal E (w_key w) ?nonce (to_le_bytes (w_block_index w)) (buf_as_ref (w_buf w)) = Some (ct, tag)"
    and lct: "length ct = length (buf_as_ref (w_buf w))" and ltag: "length tag = e_tag_len E"
    and op: "e_open E (w_key w) ?nonce (to_le_bytes (w_block_index w)) (ct @ tag) = Some (buf_as_ref (w_buf w))"
    by blast
  let ?blk = "?nonce @ ct @ tag"
  let ?out = "out\<lparr>sdata := overlay (sdata out) (spos out) ?blk, spos := spos out + length ?blk\<rparr>"
  let ?w = "w\<lparr>w_out := Some ?out, w_buf := buf_clear (buf_set_as_mut ct (w_buf w)),
      w_rng := Suc (w_rng w), w_last_nonce := Some ?nonce, w_block_index := Suc (w_block_index w)\<rparr>"
  have adj: "overlay (overlay (overlay (sdata out) (spos out) ?nonce) (spos out + NONCE_LEN) ct)
      (spos out + NONCE_LEN + length ct) tag = overlay (sdata out) (spos out) ?blk"
    using pos n overlay_overlay_adjacent [of "spos out" ?nonce "sdata out" ct]
      overlay_overlay_adjacent [of "spos out" "?nonce @ ct" "sdata out" tag]
    by (simp add: add.assoc)
  have "encrypt_and_write E w = (Inr (), ?w)"
    using pos n adj out seal
    by (simp add: encrypt_and_write_def random_nonce_advance_def Let_def out_write_all_def
        stream_write_all file_write_at_inside overlay_def min_def add.assoc sem_simps)
  moreover have "w_ok E ?w"
    using w lct wD by (simp add: w_ok_def buf_inv_set_as_mut) (simp add: buf_set_as_mut_def)
  ultimately show thesis
    using that [of ?w ?blk] open_block_sealed [OF op n] by simp
qed

subsection \<open>The appending writer\<close>

text \<open>
  The invariant of a writer that only appends: everything before the current block is on the
  stream, in blocks that decrypt, and the buffer holds the unsealed rest.
\<close>

definition w_inv :: "aead_env \<Rightarrow> ring_crypto_write \<Rightarrow> bool" where
  "w_inv E w \<longleftrightarrow> w_ok E w \<and> b_pos_write (w_buf w) = b_available (w_buf w)
     \<and> (b_dirty (w_buf w) \<longleftrightarrow> b_available (w_buf w) \<noteq> 0)
     \<and> (case w_out w of None \<Rightarrow> False
        | Some out \<Rightarrow> at_end out \<and> enc_file E (w_key w) (sdata out) (dec_file E (w_key w) (sdata out))
            \<and> length (dec_file E (w_key w) (sdata out)) = w_block_index w * e_block_size E)"

definition w_content :: "aead_env \<Rightarrow> ring_crypto_write \<Rightarrow> bytes" where
  "w_content E w = (case w_out w of None \<Rightarrow> []
     | Some out \<Rightarrow> dec_file E (w_key w) (sdata out) @ buf_as_ref (w_buf w))"

lemma w_invE:
  assumes "w_inv E w"
  obtains out pt where "w_ok E w" "b_pos_write (w_buf w) = b_available (w_buf w)"
    "b_dirty (w_buf w) \<longleftrightarrow> b_available (w_buf w) \<noteq> 0" "w_out w = Some out" "at_end out"
    "enc_file E (w_key w) (sdata out) pt" "length pt = w_block_index w * e_block_size E"
    "w_content E w = pt @ buf_as_ref (w_buf w)"
  using assms by (auto simp: w_inv_def w_content_def split: option.splits)

lemma w_invI:
  assumes "w_ok E w" "b_pos_write (w_buf w) = b_available (w_buf w)"
    "b_dirty (w_buf w) \<longleftrightarrow> b_available (w_buf w) \<noteq> 0" "w_out w = Some out" "at_end out"
    "enc_file E (w_key w) (sdata out) pt" "length pt = w_block_index w * e_block_size E"
  shows "w_inv E w" and "w_content E w = pt @ buf_as_ref (w_buf w)"
  using assms dec_file_eq [OF w_okD(1) [OF assms(1)] assms(6)] by (simp_all add: w_inv_def w_content_def)

text \<open>Sealing the buffer keeps the content; afterwards the buffer is empty.\<close>

lemma encrypt_and_write_seals:
  assumes "w_inv E w" "b_dirty (w_buf w)"
  obtains w' out' where "encrypt_and_write E w = (Inr (), w')" "w_ok E w'" "w_out w' = Some out'"
    "at_end out'" "enc_file E (w_key w') (sdata out') (w_content E w)" "w_key w' = w_key w"
    "w_block_index w' = Suc (w_block_index w)" "b_available (w_buf w') = 0"
    "b_pos_write (w_buf w') = 0" "\<not> b_dirty (w_buf w')"
  using assms(1)
proof (rule w_invE)
  fix out pt
  assume w: "w_ok E w" "b_dirty (w_buf w) \<longleftrightarrow> b_available (w_buf w) \<noteq> 0" "w_out w = Some out" "at_end out"
    "enc_file E (w_key w) (sdata out) pt" "length pt = w_block_index w * e_block_size E"
    "w_content E w = pt @ buf_as_ref (w_buf w)"
  note wD = w_okD [OF w(1)]
  obtain blk w' where w': "encrypt_and_write E w = (Inr (), w')"
    "open_block E (w_key w) (w_block_index w) blk = Some (buf_as_ref (w_buf w))"
    "w_out w' = Some (out\<lparr>sdata := overlay (sdata out) (spos out) blk, spos := spos out + length blk\<rparr>)"
    "w_block_index w' = Suc (w_block_index w)" "w_key w' = w_key w" "w_ok E w'"
    "b_available (w_buf w') = 0" "b_pos_write (w_buf w') = 0" "\<not> b_dirty (w_buf w')"
    using encrypt_and_write_ok [OF w(1,3)] w(4) unfolding at_end_def by (metis order_refl)
  have "buf_as_ref (w_buf w) \<noteq> []" "length (buf_as_ref (w_buf w)) \<le> e_block_size E"
    using wD w(2) assms(2) by (auto simp flip: length_0_conv)
  from enc_file_append(1) [OF wD(1) w(5) w'(2) w(6) this(2,1)] w(4,7) w' that show thesis
    by (simp add: at_end_def overlay_at_end)
qed

lemma ring_write_ok:
  assumes "w_inv E w"
  shows "\<exists>k w'. ring_write E d w = (Inr k, w') \<and> k \<le> length d \<and> (d \<noteq> [] \<longrightarrow> 0 < k)
      \<and> w_content E w' = w_content E w @ take k d \<and> w_inv E w'"
proof -
  have room: "\<exists>k w'. zoom w_buf (\<lambda>b w. w\<lparr>w_buf := b\<rparr>) (buf_write d) w = (Inr k, w') \<and> k \<le> length d
      \<and> (d \<noteq> [] \<longrightarrow> 0 < k) \<and> w_content E w' = w_content E w @ take k d \<and> w_inv E w'"
    if inv: "w_inv E w" and rem: "buf_remaining (w_buf w) \<noteq> 0" for w
    using inv
  proof (rule w_invE)
    fix out pt
    assume w: "w_ok E w" "b_pos_write (w_buf w) = b_available (w_buf w)"
      "b_dirty (w_buf w) \<longleftrightarrow> b_available (w_buf w) \<noteq> 0" "w_out w = Some out" "at_end out"
      "enc_file E (w_key w) (sdata out) pt" "length pt = w_block_index w * e_block_size E"
      "w_content E w = pt @ buf_as_ref (w_buf w)"
    note wD = w_okD [OF w(1)]
    let ?k = "min (buf_remaining (w_buf w)) (length d)" and ?b = "state_of (buf_write d (w_buf w))"
    note bw = buf_write_content [OF wD(3), of d]
    have ref: "buf_as_ref ?b = buf_as_ref (w_buf w) @ take ?k d"
      using bw(2) wD(9) w(2) by (simp add: overlay_at_end)
    have av: "b_available ?b = b_pos_write ?b"
      using arg_cong [OF ref, of length] length_buf_as_ref [OF buf_inv_write [OF wD(3)], of d] bw(3) wD(9) w(2)
      by simp
    let ?w = "w\<lparr>w_buf := ?b\<rparr>"
    have "w_ok E ?w" using w(1) bw(4) wD(4) by (simp add: w_ok_def buf_inv_write)
    moreover have "b_dirty ?b \<longleftrightarrow> b_available ?b \<noteq> 0" using bw(3,5) w(2,3) av by simp
    ultimately have "w_inv E ?w" "w_content E ?w = pt @ buf_as_ref ?b"
      using w_invI [of E ?w out pt] w(4-7) av by simp_all
    moreover have "zoom w_buf (\<lambda>b w. w\<lparr>w_buf := b\<rparr>) (buf_write d) w = (Inr ?k, ?w)"
      using bw(1) by (cases "buf_write d (w_buf w)") simp
    ultimately show ?thesis using ref w(8) rem
      by (intro exI [of _ ?k] exI [of _ ?w]) auto
  qed
  show ?thesis
  proof (cases "b_dirty (w_buf w) \<and> buf_remaining (w_buf w) = 0")
    case True
    obtain w1 out1 where w1: "encrypt_and_write E w = (Inr (), w1)" "w_ok E w1" "w_out w1 = Some out1"
        "at_end out1" "enc_file E (w_key w1) (sdata out1) (w_content E w)" "w_key w1 = w_key w"
        "w_block_index w1 = Suc (w_block_index w)" "b_available (w_buf w1) = 0"
        "b_pos_write (w_buf w1) = 0" "\<not> b_dirty (w_buf w1)"
      using encrypt_and_write_seals assms True by metis
    have out: "w_out w \<noteq> None" using assms by (auto simp: w_inv_def split: option.splits)
    have "length (w_content E w) = Suc (w_block_index w) * e_block_size E"
    proof -
      obtain pt where "w_ok E w" "b_pos_write (w_buf w) = b_available (w_buf w)"
          "length pt = w_block_index w * e_block_size E" "w_content E w = pt @ buf_as_ref (w_buf w)"
        using assms by (auto elim!: w_invE)
      with w_okD(4,8,9) [OF this(1)] True show ?thesis by (simp add: buf_remaining_def)
    qed
    then have "w_inv E w1" "w_content E w1 = w_content E w"
      using w_invI [OF w1(2) _ _ w1(3-5)] w1(7-10) by (simp_all add: buf_as_ref_def)
    moreover have "buf_remaining (w_buf w1) \<noteq> 0"
      using w1(9) w_okD(4,7) [OF w1(2)] by (simp add: buf_remaining_def)
    ultimately show ?thesis
      using room [of w1] w1(1) True out by (simp add: ring_write_def ring_flush_def)
  next
    case False
    have "w_out w \<noteq> None" using assms by (auto simp: w_inv_def split: option.splits)
    moreover have "buf_remaining (w_buf w) \<noteq> 0"
    proof -
      have w: "w_ok E w" "b_pos_write (w_buf w) = b_available (w_buf w)"
          "b_dirty (w_buf w) \<longleftrightarrow> b_available (w_buf w) \<noteq> 0"
        using assms by (auto simp: w_inv_def)
      with w_okD(4,7) [OF w(1)] False show ?thesis by (cases "b_dirty (w_buf w)") (auto simp: buf_remaining_def)
    qed
    ultimately show ?thesis using room [OF assms] False by (auto simp: ring_write_def)
  qed
qed

text \<open>No operation changes the key.\<close>

lemma out_write_all_key: "w_key (state_of (out_write_all d w)) = w_key w"
  by (simp add: out_write_all_def stream_write_all split: option.split)

lemma encrypt_and_write_key: "w_key (state_of (encrypt_and_write E w)) = w_key w"
proof -
  have out: "out_write_all d w = (r, w') \<Longrightarrow> w_key w' = w_key w" for d w r w'
    using out_write_all_key [of d w] by simp
  show ?thesis
    by (auto simp: encrypt_and_write_def random_nonce_advance_def Let_def sem_simps
        split: option.split prod.split sum.split dest!: out)
qed

lemma ring_write_key: "w_key (state_of (ring_write E d w)) = w_key w"
  using encrypt_and_write_key [of E w]
  by (auto simp: ring_write_def ring_flush_def whenM_def sem_simps split: prod.split sum.split)

interpretation crypto_writer: io_writer "ring_write E" "w_content E" "\<lambda>w. w_inv E w \<and> w_key w = key" for E key
proof unfold_locales
  fix w d assume "w_inv E w \<and> w_key w = key"
  with ring_write_ok [of E w d] ring_write_key [of E d w]
  show "\<exists>k w'. ring_write E d w = (Inr k, w') \<and> k \<le> length d \<and> (d \<noteq> [] \<longrightarrow> 0 < k) \<and>
      w_content E w' = w_content E w @ take k d \<and> w_inv E w' \<and> w_key w' = key" by fastforce
qed

lemma w_inv_new:
  assumes "aead_ok E" "ring_crypto_write_new E seed (stream_of []) key = Inr w"
  shows "w_inv E w" "w_content E w = []" "w_key w = key"
proof -
  have "w_ok E w" using assms by (rule w_ok_new)
  moreover have "w_key w = key" "w_buf w = buf_new (replicate (e_block_size E) 0)" "w_block_index w = 0"
      "w_out w = Some (stream_of [])"
    using assms(2) by (auto simp: ring_crypto_write_new_def split: if_splits)
  ultimately show "w_inv E w" "w_content E w = []" "w_key w = key"
    using assms(1) w_invI [of E w "stream_of []" "[]"] by (auto simp: at_end_def buf_as_ref_def)
qed

lemma ring_finish_ok:
  assumes "w_inv E w"
  shows "\<exists>s w'. ring_finish E w = (Inr s, w') \<and> enc_file E (w_key w) (sdata s) (w_content E w) \<and> w_out w' = None"
  using assms
proof (rule w_invE)
  fix out pt
  assume w: "w_ok E w" "b_dirty (w_buf w) \<longleftrightarrow> b_available (w_buf w) \<noteq> 0" "w_out w = Some out"
    "enc_file E (w_key w) (sdata out) pt" "w_content E w = pt @ buf_as_ref (w_buf w)"
  show ?thesis
  proof (cases "b_dirty (w_buf w)")
    case True
    with encrypt_and_write_seals [OF assms] obtain w1 out1 where
      "encrypt_and_write E w = (Inr (), w1)" "w_out w1 = Some out1"
      "enc_file E (w_key w) (sdata out1) (w_content E w)" by metis
    with True w(3) show ?thesis by (simp add: ring_finish_def)
  next
    case False
    with w have "w_content E w = pt" by (simp add: buf_as_ref_def)
    with False w show ?thesis by (simp add: ring_finish_def)
  qed
qed

end
