(* ===== verification/Sample_AEAD.thy ===== *)
theory Sample_AEAD
  imports Crypto_Read_Seek Crypto_Write "HOL-Library.Code_Target_Nat"
begin

unbundle bit_operations_syntax

text \<open>
  A concrete instance of the cryptographic parameters, small enough to be evaluated: the
  keystream is one byte derived from key and nonce, the tag a checksum of key, nonce, additional
  data and plaintext. It satisfies \<open>aead_ok\<close>, so the hypotheses of the theorems about readers
  and writers are satisfiable; it is used by their witnesses only.
\<close>

definition keystream :: "bytes \<Rightarrow> bytes \<Rightarrow> byte" where
  "keystream key nonce = sum_list key + sum_list nonce"

definition checksum :: "bytes \<Rightarrow> bytes \<Rightarrow> bytes \<Rightarrow> bytes \<Rightarrow> byte" where
  "checksum key nonce aad p = sum_list (key @ nonce @ aad @ p)"

definition sample_seal :: "bytes \<Rightarrow> bytes \<Rightarrow> bytes \<Rightarrow> bytes \<Rightarrow> (bytes \<times> bytes) option" where
  "sample_seal key nonce aad p = Some (map (\<lambda>b. b XOR keystream key nonce) p, [checksum key nonce aad p])"

definition sample_open :: "bytes \<Rightarrow> bytes \<Rightarrow> bytes \<Rightarrow> bytes \<Rightarrow> bytes option" where
  "sample_open key nonce aad d =
     (let p = map (\<lambda>b. b XOR keystream key nonce) (butlast d) in
      if d \<noteq> [] \<and> last d = checksum key nonce aad p then Some p else None)"

definition sample_fill :: "nat \<Rightarrow> nat \<Rightarrow> bytes" where
  "sample_fill i n = map (\<lambda>j. word_of_nat (i + j)) [0..<n]"

definition sample_env :: aead_env where
  "sample_env = \<lparr>e_block_size = 16, e_tag_len = 1, e_key_len = 2, e_seal = sample_seal,
     e_open = sample_open, e_fill = sample_fill\<rparr>"

lemma sample_env_sel [simp]:
  "e_block_size sample_env = 16" "e_tag_len sample_env = 1" "e_key_len sample_env = 2"
  "e_seal sample_env = sample_seal" "e_open sample_env = sample_open" "e_fill sample_env = sample_fill"
  by (simp_all add: sample_env_def)

lemma sample_open_seal: "sample_open key nonce aad (map (\<lambda>b. b XOR keystream key nonce) p @ [checksum key nonce aad p]) = Some p"
  by (simp add: sample_open_def o_def xor.assoc)

lemma sample_env_ok: "aead_ok sample_env"
  unfolding aead_ok_def
  by (auto simp: NONCE_LEN_def sample_seal_def sample_fill_def sample_open_seal)
     (auto simp: sample_open_def Let_def split: if_splits)

definition sample_key :: bytes where
  "sample_key = [7, 9]"

lemma length_sample_key [simp]: "length sample_key = 2"
  by (simp add: sample_key_def)

lemma sample_key_ok: "length sample_key = e_key_len sample_env"
  by simp

lemma sample_overhead [simp]: "overhead sample_env = 13"
  by (simp add: NONCE_LEN_def)

end
