(* ===== verification/Crypto_Write_Seek.thy ===== *)
theory Crypto_Write_Seek
  imports Crypto_Write Crypto_Read
begin

text \<open>
  Model of \<open>RingCryptoWriteSeek\<close> (\<open>src/crypto/write.rs\<close>): the writer used by open file handles. It
  wraps \<open>RingCryptoWrite\<close>; to overwrite part of a block it decrypts the block into the write buffer
  first, and seals the buffer again when another block is needed.
\<close>

subsection \<open>State and operations\<close>

record ring_crypto_write_seek =
  ws_inner :: ring_crypto_write
  ws_last_nonce :: "bytes option"
  ws_decrypt_buf :: buf_mut

definition ws_new :: "aead_env \<Rightarrow> nat \<Rightarrow> stream \<Rightarrow> bytes \<Rightarrow> io_error + ring_crypto_write_seek" where
  "ws_new E seed writer key =
     (case ring_crypto_write_new E seed writer key of Inl e \<Rightarrow> Inl e
      | Inr w \<Rightarrow> Inr \<lparr>ws_inner = w, ws_last_nonce = None,
          ws_decrypt_buf = buf_new (replicate (NONCE_LEN + e_block_size E + e_tag_len E) 0)\<rparr>)"

definition ws_pos :: "ring_crypto_write_seek \<Rightarrow> nat" where
  "ws_pos s = w_block_index (ws_inner s) * w_plaintext_block_size (ws_inner s) + b_pos_write (w_buf (ws_inner s))"

abbreviation on_inner :: "(ring_crypto_write, io_error, 'a) sem \<Rightarrow> (ring_crypto_write_seek, io_error, 'a) sem" where
  "on_inner \<equiv> zoom ws_inner (\<lambda>w s. s\<lparr>ws_inner := w\<rparr>)"

abbreviation on_w_buf :: "(buf_mut, io_error, 'a) sem \<Rightarrow> (ring_crypto_write_seek, io_error, 'a) sem" where
  "on_w_buf m \<equiv> on_inner (zoom w_buf (\<lambda>b w. w\<lparr>w_buf := b\<rparr>) m)"

text \<open>\<open>self.inner.out.as_mut().unwrap()\<close>: its seek and its length.\<close>

definition w_out_seek :: "nat \<Rightarrow> (ring_crypto_write, io_error, unit) sem" where
  "w_out_seek p = (\<lambda>w. case w_out w of None \<Rightarrow> (Inl Panic, w)
     | Some out \<Rightarrow> (Inr (), w\<lparr>w_out := Some (state_of (stream_seek_start p out))\<rparr>))"

definition w_out_len :: "(ring_crypto_write, io_error, nat) sem" where
  "w_out_len = (\<lambda>w. case w_out w of None \<Rightarrow> (Inl Panic, w) | Some out \<Rightarrow> (Inr (stream_len out), w))"

text \<open>What follows a successful decryption: the plaintext becomes the content of the write buffer.\<close>

definition ws_reload :: "(ring_crypto_write_seek, io_error, unit) sem" where
  "ws_reload =
     bnd (modif (ws_inner_update (\<lambda>w. w\<lparr>w_buf := buf_clear (w_buf w), w_block_index := w_block_index w - 1\<rparr>))) (\<lambda>_.
     bnd (gets ws_inner) (\<lambda>w.
     bnd (on_inner (w_out_seek (w_block_index w * w_ciphertext_block_size w))) (\<lambda>_.
     bnd (gets ws_decrypt_buf) (\<lambda>db.
     bnd (on_w_buf (buf_seek_available (Start (buf_available_read db)))) (\<lambda>_.
     modif (ws_inner_update (w_buf_update (\<lambda>b. buf_set_as_mut
       (overlay (buf_as_ref b) 0 (buf_as_ref_read_available db)) b))))))))"

definition ws_decrypt_block :: "aead_env \<Rightarrow> (ring_crypto_write_seek, io_error, bool) sem" where
  "ws_decrypt_block E = (\<lambda>s. let w = ws_inner s in
     case w_out w of None \<Rightarrow> (Inl Panic, s)
     | Some out \<Rightarrow>
         (case decrypt_block E (w_key w) \<lparr>d_block_index = w_block_index w, d_buf = ws_decrypt_buf s,
             d_input = out, d_last_nonce = ws_last_nonce s\<rparr> of
            (res, d) \<Rightarrow>
              let s' = s\<lparr>ws_inner := w\<lparr>w_block_index := d_block_index d, w_out := Some (d_input d)\<rparr>,
                   ws_decrypt_buf := d_buf d, ws_last_nonce := d_last_nonce d\<rparr> in
              (case res of Inl e \<Rightarrow> (Inl e, s')
               | Inr _ \<Rightarrow> if w_block_index w = d_block_index d then (Inr False, s')
                   else bnd ws_reload (\<lambda>_. ret True) s')))"

definition ws_get_plaintext_len :: "(ring_crypto_write_seek, io_error, nat) sem" where
  "ws_get_plaintext_len =
     bnd (on_inner w_out_len) (\<lambda>ciphertext_len.
     bnd (gets ws_inner) (\<lambda>w.
     if ciphertext_len = 0 \<and> b_available (w_buf w) = 0 then ret 0
     else if w_block_index w = ciphertext_len div w_ciphertext_block_size w \<and> b_dirty (w_buf w)
     then ret (w_block_index w * w_plaintext_block_size w + b_available (w_buf w))
     else ret (u64_sub ciphertext_len ((ciphertext_len div w_ciphertext_block_size w + 1)
            * (w_ciphertext_block_size w - w_plaintext_block_size w)))))"

text \<open>First write or seek since the writer was opened: try to load the first block.\<close>

definition ws_load_first :: "aead_env \<Rightarrow> (ring_crypto_write_seek, io_error, unit) sem" where
  "ws_load_first E =
     bnd (on_inner (w_out_seek 0)) (\<lambda>_.
     bnd (modif (ws_inner_update (w_block_index_update (\<lambda>_. 0)))) (\<lambda>_.
     bnd (ws_decrypt_block E) (\<lambda>_. ret ())))"

definition ws_at_start :: "ring_crypto_write_seek \<Rightarrow> bool" where
  "ws_at_start s \<longleftrightarrow> ws_pos s = 0 \<and> b_available (w_buf (ws_inner s)) = 0"

abbreviation ws_seal_dirty :: "aead_env \<Rightarrow> (ring_crypto_write_seek, io_error, unit) sem" where
  "ws_seal_dirty E \<equiv> bnd (gets (\<lambda>s. b_dirty (w_buf (ws_inner s)))) (\<lambda>dirty. whenM dirty (on_inner (encrypt_and_write E)))"

abbreviation ws_seek_offset :: "nat \<Rightarrow> (ring_crypto_write_seek, io_error, unit) sem" where
  "ws_seek_offset o' \<equiv>
     bnd (gets (\<lambda>s. b_available (w_buf (ws_inner s)))) (\<lambda>available.
     bnd (on_w_buf (buf_seek_write (Start (min o' available)))) (\<lambda>_. ret ()))"

text \<open>The two branches of \<open>seek\<close>: the target is in the block of the position, or in another.\<close>

definition ws_seek_same_block :: "aead_env \<Rightarrow> nat \<Rightarrow> (ring_crypto_write_seek, io_error, unit) sem" where
  "ws_seek_same_block E new_pos =
     bnd (gets ws_at_start) (\<lambda>start.
     bnd (whenM start (ws_load_first E)) (\<lambda>_.
     bnd (gets (\<lambda>s. s)) (\<lambda>s.
     let w = ws_inner s;
         at_full_block_end = (ws_pos s mod w_plaintext_block_size w = 0
           \<and> b_pos_write (w_buf w) = b_available (w_buf w)) in
     bnd (whenM (b_available (w_buf w) = 0 \<or> at_full_block_end)
            (bnd (ws_seal_dirty E) (\<lambda>_. bnd (ws_decrypt_block E) (\<lambda>_. ret ())))) (\<lambda>_.
     ws_seek_offset (new_pos mod w_plaintext_block_size w)))))"

definition ws_seek_other_block :: "aead_env \<Rightarrow> nat \<Rightarrow> (ring_crypto_write_seek, io_error, unit) sem" where
  "ws_seek_other_block E new_pos =
     bnd (ws_seal_dirty E) (\<lambda>_.
     bnd (gets ws_inner) (\<lambda>w.
     let new_block_index = new_pos div w_plaintext_block_size w in
     bnd (on_inner w_out_len) (\<lambda>len.
     let target_block_index = min new_block_index (len div w_ciphertext_block_size w) in
     bnd (on_inner (w_out_seek (target_block_index * w_ciphertext_block_size w))) (\<lambda>_.
     bnd (modif (ws_inner_update (w_block_index_update (\<lambda>_. target_block_index)))) (\<lambda>_.
     bnd (ws_decrypt_block E) (\<lambda>_.
     bnd (gets (\<lambda>s. w_block_index (ws_inner s))) (\<lambda>block_index.
     if block_index = new_block_index then ws_seek_offset (new_pos mod w_plaintext_block_size w)
     else
       bnd (gets (\<lambda>s. b_available (w_buf (ws_inner s)))) (\<lambda>available.
       bnd (on_w_buf (buf_seek_write (Start available))) (\<lambda>_. ret ())))))))))"

definition ws_seek :: "aead_env \<Rightarrow> SeekFrom \<Rightarrow> (ring_crypto_write_seek, io_error, nat) sem" where
  "ws_seek E pos =
     bnd (case pos of Start p \<Rightarrow> ret (as_i64 p)
          | End d \<Rightarrow> bnd ws_get_plaintext_len (\<lambda>len. ret (wrap_i64 (as_i64 len + d)))
          | Current d \<Rightarrow> gets (\<lambda>s. wrap_i64 (as_i64 (ws_pos s) + d))) (\<lambda>target.
     if target < 0 then throw (IoErr InvalidInput ''position < 0'')
     else
       let new_pos = nat target in
       bnd (gets ws_pos) (\<lambda>cur.
       if new_pos = cur then ret new_pos
       else
         bnd (gets (\<lambda>s. w_plaintext_block_size (ws_inner s))) (\<lambda>b.
         bnd (if cur div b = new_pos div b then ws_seek_same_block E new_pos
              else ws_seek_other_block E new_pos) (\<lambda>_.
         bnd (gets ws_pos) (\<lambda>p.
         bnd (whenM (p < new_pos) (on_inner (fill_zeros (ring_write E) (new_pos - p)))) (\<lambda>_.
         gets ws_pos))))))"

definition ws_flush :: "aead_env \<Rightarrow> (ring_crypto_write_seek, io_error, unit) sem" where
  "ws_flush E = on_inner (ring_flush E)"

definition ws_write :: "aead_env \<Rightarrow> bytes \<Rightarrow> (ring_crypto_write_seek, io_error, nat) sem" where
  "ws_write E d =
     bnd (gets (\<lambda>s. s)) (\<lambda>s.
     bnd (if ws_at_start s then ws_load_first E
          else whenM (b_dirty (w_buf (ws_inner s)) \<and> buf_remaining (w_buf (ws_inner s)) = 0)
            (bnd (ws_flush E) (\<lambda>_.
             bnd (gets (\<lambda>s. ws_pos s div w_plaintext_block_size (ws_inner s))) (\<lambda>block_index.
             bnd (on_inner w_out_len) (\<lambda>len.
             bnd (gets (\<lambda>s. w_ciphertext_block_size (ws_inner s))) (\<lambda>c.
             whenM (len > block_index * c) (bnd (ws_decrypt_block E) (\<lambda>_. ret ())))))))) (\<lambda>_.
     on_inner (ring_write E d)))"

definition ws_finish :: "aead_env \<Rightarrow> (ring_crypto_write_seek, io_error, stream) sem" where
  "ws_finish E = on_inner (ring_finish E)"

subsection \<open>The attached buffer\<close>

text \<open>
  \<open>wk E w out base\<close>: the write buffer stands for block \<open>w_block_index w\<close> of the file, whose bytes
  \<open>out\<close> decrypt to \<open>base\<close>. The buffer holds at least what the file holds of that block, exactly
  that when it is not dirty, and the stream is positioned on the block. The plaintext the writer
  stands for is \<open>base\<close> with the buffer laid over it.
\<close>

definition wk :: "aead_env \<Rightarrow> ring_crypto_write \<Rightarrow> stream \<Rightarrow> bytes \<Rightarrow> bool" where
  "wk E w out base \<longleftrightarrow> w_ok E w \<and> w_out w = Some out \<and> enc_file E (w_key w) (sdata out) base
     \<and> w_block_index w * e_block_size E \<le> length base
     \<and> spos out = w_block_index w * ciphertext_block_size E
     \<and> length (chunk (e_block_size E) (w_block_index w) base) \<le> b_available (w_buf w)
     \<and> (b_dirty (w_buf w) \<or> buf_as_ref (w_buf w) = chunk (e_block_size E) (w_block_index w) base)
     \<and> (b_dirty (w_buf w) \<longrightarrow> b_available (w_buf w) \<noteq> 0)
     \<and> (b_dirty (w_buf w) \<or> b_pos_write (w_buf w) < e_block_size E)"

definition wk_content :: "aead_env \<Rightarrow> ring_crypto_write \<Rightarrow> bytes \<Rightarrow> bytes" where
  "wk_content E w base = overlay base (w_block_index w * e_block_size E) (buf_as_ref (w_buf w))"

abbreviation wk_pos :: "aead_env \<Rightarrow> ring_crypto_write \<Rightarrow> nat" where
  "wk_pos E w \<equiv> w_block_index w * e_block_size E + b_pos_write (w_buf w)"

definition w_drained :: "ring_crypto_write \<Rightarrow> bool" where
  "w_drained w \<longleftrightarrow> b_available (w_buf w) = 0 \<and> b_pos_write (w_buf w) = 0 \<and> \<not> b_dirty (w_buf w)"

lemma wkD:
  assumes "wk E w out base"
  shows "w_ok E w" "w_out w = Some out" "enc_file E (w_key w) (sdata out) base"
    "w_block_index w * e_block_size E \<le> length base"
    "spos out = w_block_index w * ciphertext_block_size E"
    "length (chunk (e_block_size E) (w_block_index w) base) \<le> b_available (w_buf w)"
    "\<not> b_dirty (w_buf w) \<Longrightarrow> buf_as_ref (w_buf w) = chunk (e_block_size E) (w_block_index w) base"
    "b_dirty (w_buf w) \<Longrightarrow> b_available (w_buf w) \<noteq> 0"
    "\<not> b_dirty (w_buf w) \<Longrightarrow> b_pos_write (w_buf w) < e_block_size E"
    "length base \<le> w_block_index w * e_block_size E + b_available (w_buf w) \<or> b_available (w_buf w) = e_block_size E"
proof -
  show "length base \<le> w_block_index w * e_block_size E + b_available (w_buf w) \<or> b_available (w_buf w) = e_block_size E"
    using assms w_okD(8) [of E w] by (auto simp: wk_def length_chunk min_def split: if_splits)
qed (use assms in \<open>auto simp: wk_def\<close>)

lemma overlay_chunk: "i * b \<le> length xs \<Longrightarrow> overlay xs (i * b) (chunk b i xs) = xs"
  by (cases "length xs \<le> i * b + b")
     (simp_all add: overlay_def chunk_def min_def flip: drop_drop take_add,
       metis add.commute append.assoc append_take_drop_id take_add)

lemma wk_content_clean: "wk E w out base \<Longrightarrow> \<not> b_dirty (w_buf w) \<Longrightarrow> wk_content E w base = base"
  using wkD(4,7) [of E w out base] by (simp add: wk_content_def overlay_chunk)

lemma wk_pos_le:
  assumes "wk E w out base"
  shows "wk_pos E w \<le> length (wk_content E w base)"
    and "length (wk_content E w base) = max (length base) (w_block_index w * e_block_size E + b_available (w_buf w))"
  using wkD(4) [OF assms] w_okD(9) [OF wkD(1) [OF assms]] buf_invD(2) [OF w_okD(3) [OF wkD(1) [OF assms]]]
  by (auto simp: wk_content_def overlay_def)

text \<open>Sealing a dirty buffer writes the content to the file.\<close>

lemma wk_seal:
  assumes wk: "wk E w out base" and dirty: "b_dirty (w_buf w)"
  obtains w' out' where "encrypt_and_write E w = (Inr (), w')" "w_ok E w'" "w_out w' = Some out'"
    "enc_file E (w_key w') (sdata out') (wk_content E w base)" "w_key w' = w_key w"
    "w_block_index w' = Suc (w_block_index w)" "w_drained w'"
    "b_available (w_buf w) = e_block_size E \<Longrightarrow> spos out' = Suc (w_block_index w) * ciphertext_block_size E"
proof -
  note wD = wkD [OF wk] and ok = w_okD [OF wkD(1) [OF wk]]
  have pos: "spos out \<le> length (sdata out)"
    using enc_file_pos_le [OF ok(1) wD(3,4)] wD(5) by simp
  obtain blk w' where w': "encrypt_and_write E w = (Inr (), w')"
    "open_block E (w_key w) (w_block_index w) blk = Some (buf_as_ref (w_buf w))"
    "w_out w' = Some (out\<lparr>sdata := overlay (sdata out) (spos out) blk, spos := spos out + length blk\<rparr>)"
    "w_block_index w' = Suc (w_block_index w)" "w_key w' = w_key w" "w_ok E w'"
    "b_available (w_buf w') = 0" "b_pos_write (w_buf w') = 0" "\<not> b_dirty (w_buf w')"
    by (rule encrypt_and_write_ok [OF wD(1,2) pos])
  have ne: "buf_as_ref (w_buf w) \<noteq> []" using wD(8) [OF dirty] ok(9) by auto
  have "enc_file E (w_key w) (overlay (sdata out) (spos out) blk) (wk_content E w base)"
    unfolding wD(5) wk_content_def using wD(10) ok(8,9) ne
    by (intro enc_file_replace [OF ok(1) wD(3) w'(2) wD(4)]) auto
  moreover have "length blk = b_available (w_buf w) + overhead E"
    using open_block_length [OF ok(1) w'(2)] ok(9) by simp
  ultimately show thesis using that w' wD(5)
    by (simp add: w_drained_def ciphertext_block_size_eq)
qed

text \<open>Writing into the buffer overwrites the content at the position.\<close>

lemma overlay_overlay_inside:
  "p \<le> length xs \<Longrightarrow> q \<le> length ys \<Longrightarrow>
   overlay (overlay xs p ys) (p + q) zs = overlay xs p (overlay ys q zs)"
  by (cases "q + length zs \<le> length ys") (simp_all add: overlay_def add.assoc add.left_commute)

lemma wk_buf_write:
  fixes d :: bytes
  assumes wk: "wk E w out base" and room: "b_pos_write (w_buf w) < e_block_size E"
  defines "w' \<equiv> w\<lparr>w_buf := state_of (buf_write d (w_buf w))\<rparr>"
  obtains k where "result_of (buf_write d (w_buf w)) = Inr k" "k \<le> length d" "d \<noteq> [] \<Longrightarrow> 0 < k"
    "wk E w' out base" "wk_content E w' base = overlay (wk_content E w base) (wk_pos E w) (take k d)"
    "wk_pos E w' = wk_pos E w + k" "b_pos_write (w_buf w) = b_available (w_buf w) \<Longrightarrow> b_pos_write (w_buf w') = b_available (w_buf w')"
    "k = min (e_block_size E - b_pos_write (w_buf w)) (length d)"
proof -
  note wD = wkD [OF wk] and ok = w_okD [OF wkD(1) [OF wk]]
  let ?i = "w_block_index w * e_block_size E"
  define k where "k = min (buf_remaining (w_buf w)) (length d)"
  note bw = buf_write_content [OF ok(3), of d, folded k_def]
  have k: "k \<le> length d" "b_pos_write (w_buf w) + k \<le> e_block_size E" "d \<noteq> [] \<Longrightarrow> 0 < k"
    using room ok(4) by (auto simp: k_def buf_remaining_def)
  note bi = buf_invD [OF ok(3)]
  have inv': "buf_inv (w_buf w')" by (simp add: w'_def buf_inv_write [OF ok(3)])
  have ref: "buf_as_ref (w_buf w') = overlay (buf_as_ref (w_buf w)) (b_pos_write (w_buf w)) (take k d)"
    using bw(2) by (simp add: w'_def)
  have av: "b_available (w_buf w') = max (b_pos_write (w_buf w) + k) (b_available (w_buf w))"
    using arg_cong [OF ref, of length] length_buf_as_ref [OF inv'] ok(9) bi(2) k(1) by (simp add: overlay_def)
  have w'f: "w_block_index w' = w_block_index w" "w_key w' = w_key w" "w_out w' = w_out w" "b_pos_write (w_buf w') = b_pos_write (w_buf w) + k"
      "b_dirty (w_buf w') \<longleftrightarrow> b_dirty (w_buf w) \<or> k \<noteq> 0"
    using bw(3,5) by (simp_all add: w'_def)
  have "w_ok E w'" using wD(1) bw(4) ok(4) inv' by (simp add: w_ok_def w'_def)
  moreover have "buf_as_ref (w_buf w') = chunk (e_block_size E) (w_block_index w) base" if "\<not> b_dirty (w_buf w')"
    using that ref wD(7) w'f(5) by simp
  ultimately have "wk E w' out base" using wD w'f av by (auto simp: wk_def)
  moreover have "wk_content E w' base = overlay (wk_content E w base) (wk_pos E w) (take k d)"
    unfolding wk_content_def ref w'f
    using overlay_overlay_inside [OF wD(4), of "b_pos_write (w_buf w)" "buf_as_ref (w_buf w)" "take k d"] ok(8,9) bi(2) wD(10) k(1,2)
    by auto
  moreover have "k = min (e_block_size E - b_pos_write (w_buf w)) (length d)" using ok(4) by (simp add: k_def buf_remaining_def)
  ultimately show thesis using that [of k] bw(1) k w'f(1,4) av by simp
qed

lemma wk_seek:
  assumes "wk E w out base" "p \<le> b_available (w_buf w)" "p < e_block_size E \<or> b_dirty (w_buf w)"
  defines "w' \<equiv> w\<lparr>w_buf := (w_buf w)\<lparr>b_pos_write := p\<rparr>\<rparr>"
  shows "zoom w_buf (\<lambda>b w. w\<lparr>w_buf := b\<rparr>) (buf_seek_write (Start p)) w = (Inr p, w')"
    and "wk E w' out base" and "wk_content E w' base = wk_content E w base"
proof -
  note ok = w_okD [OF wkD(1) [OF assms(1)]]
  have "p \<le> length (b_buf (w_buf w))" using assms(2) ok(4,8) by simp
  from buf_seek_write_start [OF ok(3) this] show "zoom w_buf (\<lambda>b w. w\<lparr>w_buf := b\<rparr>) (buf_seek_write (Start p)) w = (Inr p, w')"
    using assms(2) by (simp add: w'_def max_absorb2)
  show "wk E w' out base" using assms by (auto simp: wk_def w_ok_def buf_inv_def buf_as_ref_def)
  show "wk_content E w' base = wk_content E w base" by (simp add: w'_def wk_content_def buf_as_ref_def)
qed

text \<open>An empty buffer behind the last, full, block is attached: there is nothing to load.\<close>

lemma wk_drained:
  assumes "w_ok E w" "w_out w = Some out" "enc_file E (w_key w) (sdata out) pt" "w_drained w"
    "w_block_index w * e_block_size E = length pt" "spos out = w_block_index w * ciphertext_block_size E"
  shows "wk E w out pt" "wk_content E w pt = pt" "wk_pos E w = length pt"
  using assms w_okD(7) [OF assms(1)]
  by (auto simp: wk_def wk_content_def w_drained_def chunk_def buf_as_ref_def)

subsection \<open>Loading a block\<close>

definition ws_ok :: "aead_env \<Rightarrow> ring_crypto_write_seek \<Rightarrow> bool" where
  "ws_ok E s \<longleftrightarrow> w_ok E (ws_inner s) \<and> buf_inv (ws_decrypt_buf s)
     \<and> length (b_buf (ws_decrypt_buf s)) = ciphertext_block_size E"

lemma ws_load_eof:
  assumes ok: "ws_ok E s" and out: "w_out (ws_inner s) = Some out" "srest out = []"
  obtains s' where "ws_decrypt_block E s = (Inr False, s')" "ws_ok E s'" "ws_inner s' = ws_inner s"
proof -
  let ?s = "s\<lparr>ws_decrypt_buf := buf_clear (ws_decrypt_buf s)\<rparr>"
  have "ws_decrypt_block E s = (Inr False, ?s)"
    using out by (simp add: ws_decrypt_block_def Let_def decrypt_block_eof)
  with that [of ?s] ok show thesis by (simp add: ws_ok_def)
qed

lemma ws_load:
  assumes ok: "ws_ok E s" and out: "w_out (ws_inner s) = Some out"
    and enc: "enc_file E (w_key (ws_inner s)) (sdata out) pt"
    and i: "w_block_index (ws_inner s) * e_block_size E < length pt"
    and pos: "spos out = w_block_index (ws_inner s) * ciphertext_block_size E"
  obtains s' where "ws_decrypt_block E s = (Inr True, s')" "ws_ok E s'" "wk E (ws_inner s') out pt"
    "w_block_index (ws_inner s') = w_block_index (ws_inner s)" "b_pos_write (w_buf (ws_inner s')) = 0"
    "\<not> b_dirty (w_buf (ws_inner s'))" "w_key (ws_inner s') = w_key (ws_inner s)"
    "b_available (w_buf (ws_inner s')) = length (chunk (e_block_size E) (w_block_index (ws_inner s)) pt)"
proof -
  let ?w = "ws_inner s" and ?b = "e_block_size E" and ?c = "ciphertext_block_size E"
  let ?i = "w_block_index ?w"
  have wok: "w_ok E ?w" using ok by (simp add: ws_ok_def)
  note wD = w_okD [OF wok]
  note blk = enc_file_block [OF wD(1) enc i]
  have blk_eq: "take ?c (srest out) = chunk ?c ?i (sdata out)" by (simp add: srest_def pos chunk_def)
  let ?d = "\<lparr>d_block_index = ?i, d_buf = ws_decrypt_buf s, d_input = out, d_last_nonce = ws_last_nonce s\<rparr>"
  obtain d' where d': "decrypt_block E (w_key ?w) ?d = (Inr (), d')" "d_block_index d' = Suc ?i"
    "buf_as_ref_read_available (d_buf d') = chunk ?b ?i pt"
    "b_available (d_buf d') = NONCE_LEN + length (chunk ?b ?i pt)"
    "b_pos_read (d_buf d') = NONCE_LEN" "buf_inv (d_buf d')" "length (b_buf (d_buf d')) = ?c"
    "d_input d' = out\<lparr>spos := spos out + length (chunk ?c ?i (sdata out))\<rparr>"
    using decrypt_block_ok [of E ?d "w_key ?w" "chunk ?b ?i pt"] ok wD(1) blk blk_eq
    by (auto simp: ws_ok_def simp del: length_take)
  define n where "n = length (chunk ?b ?i pt)"
  have n: "n \<le> ?b" "buf_available_read (d_buf d') = n"
    using d'(4,5) by (simp_all add: n_def length_chunk buf_available_read_def)
  let ?buf = "(buf_clear (w_buf ?w))\<lparr>b_available := n\<rparr>"
  have sk: "buf_seek_available (Start n) (buf_clear (w_buf ?w)) = (Inr n, ?buf)"
    using buf_seek_available_start [OF buf_inv_clear [OF wD(3)], of n] n(1) wD(4) by (simp add: buf_clear_def)
  have full: "overlay (buf_as_ref ?buf) 0 (chunk ?b ?i pt) = chunk ?b ?i pt"
    using n(1) wD(4) by (intro overlay_0_full) (simp add: buf_as_ref_def n_def buf_clear_def)
  let ?w' = "?w\<lparr>w_buf := buf_set_as_mut (chunk ?b ?i pt) ?buf\<rparr>"
  let ?s = "s\<lparr>ws_inner := ?w', ws_decrypt_buf := d_buf d', ws_last_nonce := d_last_nonce d'\<rparr>"
  have "ws_decrypt_block E s = (Inr True, ?s)"
    using out d'(1,2,3,8) sk n(2) full pos wD(6)
    by (simp add: ws_decrypt_block_def Let_def ws_reload_def w_out_seek_def stream_seek_start_def)
  moreover have ref: "buf_as_ref (buf_set_as_mut (chunk ?b ?i pt) ?buf) = chunk ?b ?i pt"
    by (simp add: buf_as_ref_def buf_set_as_mut_def n_def)
  moreover have wok': "w_ok E ?w'"
    using wok n(1) wD(4) buf_invD [OF wD(3)]
    by (simp add: w_ok_def buf_inv_def buf_set_as_mut_def buf_clear_def n_def)
  moreover have "wk E ?w' out pt"
    using wok' ref out enc i pos wD(7) by (simp add: wk_def) (simp add: buf_set_as_mut_def n_def)
  moreover have "ws_ok E ?s" using wok' d'(6,7) by (simp add: ws_ok_def)
  ultimately show thesis using that [of ?s] by (simp add: buf_set_as_mut_def n_def)
qed

text \<open>The state of an open writer: attached, or fresh, with nothing loaded yet.\<close>

definition ws_fresh :: "aead_env \<Rightarrow> ring_crypto_write_seek \<Rightarrow> bytes \<Rightarrow> bool" where
  "ws_fresh E s pt \<longleftrightarrow> w_drained (ws_inner s) \<and> w_block_index (ws_inner s) = 0
     \<and> (\<exists>out. w_out (ws_inner s) = Some out \<and> enc_file E (w_key (ws_inner s)) (sdata out) pt)"

definition ws_attached :: "aead_env \<Rightarrow> ring_crypto_write_seek \<Rightarrow> bytes \<Rightarrow> nat \<Rightarrow> bool" where
  "ws_attached E s pt p \<longleftrightarrow> (\<exists>out base. wk E (ws_inner s) out base \<and> pt = wk_content E (ws_inner s) base
     \<and> p = wk_pos E (ws_inner s))"

definition ws_rel :: "aead_env \<Rightarrow> bytes \<Rightarrow> ring_crypto_write_seek \<Rightarrow> bytes \<Rightarrow> nat \<Rightarrow> bool" where
  "ws_rel E key s pt p \<longleftrightarrow> ws_ok E s \<and> w_key (ws_inner s) = key
     \<and> (ws_attached E s pt p \<or> ws_fresh E s pt \<and> p = 0)"

lemma ws_attachedI:
  "wk E (ws_inner s) out base \<Longrightarrow> wk_content E (ws_inner s) base = pt \<Longrightarrow> wk_pos E (ws_inner s) = p
     \<Longrightarrow> ws_attached E s pt p"
  by (auto simp: ws_attached_def)

lemma ws_rel_pos:
  assumes "ws_rel E key s pt p"
  shows "p \<le> length pt" "ws_pos s = p"
proof -
  have ok: "w_ok E (ws_inner s)" using assms by (simp add: ws_rel_def ws_ok_def)
  show "p \<le> length pt" using assms wk_pos_le(1) by (auto simp: ws_rel_def ws_attached_def)
  show "ws_pos s = p" using assms w_okD(5) [OF ok]
    by (auto simp: ws_rel_def ws_attached_def ws_fresh_def ws_pos_def w_drained_def)
qed

text \<open>Loading the first block attaches a writer that stands at the start with an empty buffer.\<close>

lemma ws_load_first_ok:
  assumes rel: "ws_rel E key s pt p" and start: "ws_at_start s"
  obtains s' where "ws_load_first E s = (Inr (), s')" "ws_ok E s'" "w_key (ws_inner s') = key"
    "ws_attached E s' pt 0" "b_pos_write (w_buf (ws_inner s')) = 0" "w_block_index (ws_inner s') = 0"
    "\<not> b_dirty (w_buf (ws_inner s'))" "b_available (w_buf (ws_inner s')) = min (e_block_size E) (length pt)"
proof -
  let ?w = "ws_inner s"
  note start = start [unfolded ws_at_start_def]
  have ok: "ws_ok E s" "w_ok E ?w" "w_key ?w = key" using rel by (auto simp: ws_rel_def ws_ok_def)
  note wD = w_okD [OF ok(2)]
  have p0: "w_block_index ?w = 0" "b_pos_write (w_buf ?w) = 0" using start wD(5,7) by (auto simp: ws_pos_def)
  have "\<exists>out. w_out ?w = Some out \<and> enc_file E key (sdata out) pt \<and> \<not> b_dirty (w_buf ?w)"
  proof (cases "ws_fresh E s pt")
    case True
    with ok(3) show ?thesis by (auto simp: ws_fresh_def w_drained_def)
  next
    case False
    then obtain out base where wk: "wk E ?w out base" "pt = wk_content E ?w base"
      using rel by (auto simp: ws_rel_def ws_attached_def)
    from wkD(8) [OF wk(1)] start have "\<not> b_dirty (w_buf ?w)" by auto
    with wk_content_clean [OF wk(1)] wk wkD(2,3) [OF wk(1)] ok(3) show ?thesis by simp
  qed
  then obtain out where out: "w_out ?w = Some out" "enc_file E key (sdata out) pt" "\<not> b_dirty (w_buf ?w)" by blast
  let ?out = "out\<lparr>spos := 0\<rparr>"
  let ?s = "s\<lparr>ws_inner := ?w\<lparr>w_out := Some ?out, w_block_index := 0\<rparr>\<rparr>"
  have ok': "ws_ok E ?s" using ok(1) by (simp add: ws_ok_def w_ok_def)
  have step: "ws_load_first E s = bnd (ws_decrypt_block E) (\<lambda>_. ret ()) ?s"
    using out(1) by (simp add: ws_load_first_def w_out_seek_def stream_seek_start_def comp_def)
  show thesis
  proof (cases "pt = []")
    case True
    then have "sdata out = []" using enc_file_empty_iff [OF out(2) wD(1)] by simp
    then have e: "srest ?out = []" by (simp add: srest_def)
    obtain s' where s': "ws_decrypt_block E ?s = (Inr False, s')" "ws_ok E s'" "ws_inner s' = ws_inner ?s"
      using ws_load_eof [OF ok', of ?out] e by auto
    have "ws_attached E s' pt 0"
      using wk_drained [of E "ws_inner s'" ?out pt] s'(2,3) out True start p0 ok(3)
      by (intro ws_attachedI [of E s' ?out pt]) (auto simp: ws_ok_def w_drained_def)
    with that [of s'] s' step True ok(3) p0 out(3) start show thesis by simp
  next
    case False
    then obtain s' where s': "ws_decrypt_block E ?s = (Inr True, s')" "ws_ok E s'" "wk E (ws_inner s') ?out pt"
      "w_block_index (ws_inner s') = 0" "b_pos_write (w_buf (ws_inner s')) = 0"
      "\<not> b_dirty (w_buf (ws_inner s'))" "w_key (ws_inner s') = key"
      "b_available (w_buf (ws_inner s')) = length (chunk (e_block_size E) 0 pt)"
      using ws_load [OF ok', of ?out pt] out ok(3) by auto
    with that [of s'] step ws_attachedI [OF s'(3) wk_content_clean [OF s'(3,6)]] show thesis
      by (simp add: length_chunk)
  qed
qed

subsection \<open>Writing\<close>

text \<open>A write with room in the attached buffer goes to the buffer.\<close>

lemma ring_write_room:
  assumes wk: "wk E w out base" and room: "b_pos_write (w_buf w) < e_block_size E"
  obtains k w' where "ring_write E d w = (Inr k, w')" "k \<le> length d" "d \<noteq> [] \<Longrightarrow> 0 < k" "wk E w' out base"
    "w_key w' = w_key w" "wk_content E w' base = overlay (wk_content E w base) (wk_pos E w) (take k d)"
    "wk_pos E w' = wk_pos E w + k" "w_block_index w' = w_block_index w"
    "b_pos_write (w_buf w) = b_available (w_buf w) \<Longrightarrow> b_pos_write (w_buf w') = b_available (w_buf w')"
    "k = min (e_block_size E - b_pos_write (w_buf w)) (length d)"
proof -
  let ?w = "w\<lparr>w_buf := state_of (buf_write d (w_buf w))\<rparr>"
  obtain k where k: "result_of (buf_write d (w_buf w)) = Inr k" "k \<le> length d" "d \<noteq> [] \<Longrightarrow> 0 < k"
    "wk E ?w out base" "wk_content E ?w base = overlay (wk_content E w base) (wk_pos E w) (take k d)"
    "wk_pos E ?w = wk_pos E w + k"
    "b_pos_write (w_buf w) = b_available (w_buf w) \<Longrightarrow> b_pos_write (w_buf ?w) = b_available (w_buf ?w)"
    "k = min (e_block_size E - b_pos_write (w_buf w)) (length d)"
    using wk_buf_write [OF wk room, of d] by blast
  have "buf_remaining (w_buf w) \<noteq> 0"
    using room w_okD(4) [OF wkD(1) [OF wk]] by (simp add: buf_remaining_def)
  then have "ring_write E d w = (Inr k, ?w)"
    using k(1) wkD(2) [OF wk] by (cases "buf_write d (w_buf w)") (simp add: ring_write_def)
  with that k show thesis by simp
qed

text \<open>A full, dirty buffer is sealed first; the next block is loaded if the file has one.\<close>

lemma ws_next_block:
  assumes ok: "ws_ok E s" and wk: "wk E (ws_inner s) out base"
    and full: "b_dirty (w_buf (ws_inner s))" "b_pos_write (w_buf (ws_inner s)) = e_block_size E"
  obtains w1 s' where "encrypt_and_write E (ws_inner s) = (Inr (), w1)" "w_drained w1"
    "w_block_index w1 = Suc (w_block_index (ws_inner s))" "w_ok E w1"
    "ws_decrypt_block E (s\<lparr>ws_inner := w1\<rparr>) = (Inr (length (wk_content E (ws_inner s) base) > w_block_index w1 * e_block_size E), s')"
    "ws_ok E s'" "w_key (ws_inner s') = w_key (ws_inner s)" "w_block_index (ws_inner s') = w_block_index w1"
    "ws_attached E s' (wk_content E (ws_inner s) base) (wk_pos E (ws_inner s))" "b_pos_write (w_buf (ws_inner s')) = 0"
    "\<not> b_dirty (w_buf (ws_inner s'))"
    "\<exists>out1. w_out w1 = Some out1 \<and> (length (sdata out1) > w_block_index w1 * ciphertext_block_size E
        \<longleftrightarrow> length (wk_content E (ws_inner s) base) > w_block_index w1 * e_block_size E)"
    "length (wk_content E (ws_inner s) base) \<le> w_block_index w1 * e_block_size E \<Longrightarrow> ws_inner s' = w1"
proof -
  let ?w = "ws_inner s" and ?pt = "wk_content E (ws_inner s) base"
  let ?s = "\<lambda>w1. s\<lparr>ws_inner := w1\<rparr>"
  note wD = w_okD [OF wkD(1) [OF wk]]
  have av: "b_available (w_buf ?w) = e_block_size E" using full(2) wD(8) buf_invD(2) [OF wD(3)] by simp
  obtain w1 out1 where w1: "encrypt_and_write E ?w = (Inr (), w1)" "w_ok E w1" "w_out w1 = Some out1"
      "enc_file E (w_key w1) (sdata out1) ?pt" "w_key w1 = w_key ?w"
      "w_block_index w1 = Suc (w_block_index ?w)" "w_drained w1"
      "spos out1 = w_block_index w1 * ciphertext_block_size E"
    using wk_seal [OF wk full(1)] av by metis
  have ok1: "ws_ok E (?s w1)" using ok w1(2) by (simp add: ws_ok_def)
  have le: "w_block_index w1 * e_block_size E \<le> length ?pt"
    using wk_pos_le(1) [OF wk] full(2) w1(6) by simp
  have pos: "wk_pos E ?w = w_block_index w1 * e_block_size E" using full(2) w1(6) by simp
  note iff = enc_file_pos_less_iff [OF wD(1) w1(4), of "w_block_index w1"]
  show thesis
  proof (cases "w_block_index w1 * e_block_size E < length ?pt")
    case True
    obtain s' where s': "ws_decrypt_block E (?s w1) = (Inr True, s')" "ws_ok E s'" "wk E (ws_inner s') out1 ?pt"
        "w_block_index (ws_inner s') = w_block_index w1" "b_pos_write (w_buf (ws_inner s')) = 0"
        "\<not> b_dirty (w_buf (ws_inner s'))" "w_key (ws_inner s') = w_key w1"
      using ws_load [OF ok1, of out1 ?pt] w1 True by auto
    have "ws_attached E s' ?pt (wk_pos E ?w)"
      unfolding ws_attached_def using s' wk_content_clean [OF s'(3,6)] pos by (metis add.right_neutral)
    with that [of w1 s'] w1 s' True iff show thesis by auto
  next
    case False
    with le have eq: "w_block_index w1 * e_block_size E = length ?pt" by simp
    from False iff have "srest out1 = []" by (simp add: srest_def w1(8))
    then obtain s' where s': "ws_decrypt_block E (?s w1) = (Inr False, s')" "ws_ok E s'" "ws_inner s' = w1"
      using ws_load_eof [OF ok1, of out1] w1(3) by auto
    have "ws_attached E s' ?pt (wk_pos E ?w)"
      unfolding ws_attached_def s'(3) using wk_drained [OF w1(2,3,4,7) eq w1(8)] eq pos by metis
    with that [of w1 s'] w1 s' False iff show thesis by (auto simp: w_drained_def)
  qed
qed

text \<open>A write takes what fits into the rest of the block.\<close>

lemma ws_write_exact:
  fixes d :: bytes
  assumes rel: "ws_rel E key s pt p"
  defines "k \<equiv> min (e_block_size E - p mod e_block_size E) (length d)"
  shows "\<exists>s'. ws_write E d s = (Inr k, s') \<and> ws_rel E key s' (overlay pt p (take k d)) (p + k)"
proof -
  have room: "\<exists>s'. on_inner (ring_write E d) s = (Inr k, s') \<and> ws_rel E key s' (overlay pt p (take k d)) (p + k)"
    if att: "ws_ok E s" "w_key (ws_inner s) = key" "ws_attached E s pt p"
      "b_pos_write (w_buf (ws_inner s)) < e_block_size E" for s
  proof -
    from att(3) obtain out base where wk: "wk E (ws_inner s) out base" "pt = wk_content E (ws_inner s) base"
      "p = wk_pos E (ws_inner s)" by (auto simp: ws_attached_def)
    have "p mod e_block_size E = b_pos_write (w_buf (ws_inner s))" using wk(3) att(4) by simp
    then obtain w' where "ring_write E d (ws_inner s) = (Inr k, w')" "wk E w' out base"
      "w_key w' = key" "wk_content E w' base = overlay pt p (take k d)" "wk_pos E w' = p + k"
      using ring_write_room [OF wk(1) att(4), of d] wk(2,3) att(2) unfolding k_def by metis
    moreover from this have "ws_rel E key (s\<lparr>ws_inner := w'\<rparr>) (overlay pt p (take k d)) (p + k)"
      using att(1) wkD(1) ws_attachedI [of E "s\<lparr>ws_inner := w'\<rparr>" out base]
      by (simp add: ws_rel_def ws_ok_def)
    ultimately show ?thesis by (auto simp: zoom_apply)
  qed
  have ok: "ws_ok E s" "w_ok E (ws_inner s)" "w_key (ws_inner s) = key" using rel by (auto simp: ws_rel_def ws_ok_def)
  note wD = w_okD [OF ok(2)]
  show ?thesis
  proof (cases "ws_at_start s")
    case True
    obtain s' where "ws_load_first E s = (Inr (), s')" "ws_ok E s'" "w_key (ws_inner s') = key"
      "ws_attached E s' pt 0" "b_pos_write (w_buf (ws_inner s')) = 0"
      using ws_load_first_ok [OF rel True] by metis
    with True room [of s'] wD(7) ws_rel_pos(2) [OF rel] True [unfolded ws_at_start_def] show ?thesis by (simp add: ws_write_def)
  next
    case False
    with rel have att: "ws_attached E s pt p"
      using wD(5) by (auto simp: ws_rel_def ws_fresh_def ws_pos_def w_drained_def ws_at_start_def)
    then obtain out base where wk: "wk E (ws_inner s) out base" "pt = wk_content E (ws_inner s) base"
      "p = wk_pos E (ws_inner s)" by (auto simp: ws_attached_def)
    show ?thesis
    proof (cases "b_pos_write (w_buf (ws_inner s)) < e_block_size E")
      case True
      then have "buf_remaining (w_buf (ws_inner s)) \<noteq> 0" using wD(4) by (simp add: buf_remaining_def)
      with False room [OF ok(1,3) att True] show ?thesis by (simp add: ws_write_def)
    next
      case full: False
      then have d: "b_dirty (w_buf (ws_inner s))" "b_pos_write (w_buf (ws_inner s)) = e_block_size E"
        using wkD(9) [OF wk(1)] buf_invD(2) [OF wD(3)] wD(8) by auto
      obtain w1 s' out1 where n: "encrypt_and_write E (ws_inner s) = (Inr (), w1)" "w_drained w1" "w_ok E w1"
        "ws_decrypt_block E (s\<lparr>ws_inner := w1\<rparr>) = (Inr (length pt > w_block_index w1 * e_block_size E), s')"
        "ws_ok E s'" "w_key (ws_inner s') = key" "ws_attached E s' pt p" "b_pos_write (w_buf (ws_inner s')) = 0"
        "w_out w1 = Some out1" "length (sdata out1) > w_block_index w1 * ciphertext_block_size E
           \<longleftrightarrow> length pt > w_block_index w1 * e_block_size E"
        "length pt \<le> w_block_index w1 * e_block_size E \<Longrightarrow> ws_inner s' = w1"
        by (rule ws_next_block [OF ok(1) wk(1) d, folded wk(2,3)], metis ok(3))
      have rem: "buf_remaining (w_buf (ws_inner s)) = 0" using d(2) wD(4) by (simp add: buf_remaining_def)
      then have flush: "ws_flush E s = (Inr (), s\<lparr>ws_inner := w1\<rparr>)"
        using n(1) d(1) wkD(2) [OF wk(1)] by (simp add: ws_flush_def ring_flush_def zoom_apply)
      have bi: "ws_pos (s\<lparr>ws_inner := w1\<rparr>) div w_plaintext_block_size w1 = w_block_index w1"
        using n(2) w_okD(5,7) [OF n(3)] by (simp add: ws_pos_def w_drained_def)
      have len: "on_inner w_out_len (s\<lparr>ws_inner := w1\<rparr>) = (Inr (length (sdata out1)), s\<lparr>ws_inner := w1\<rparr>)"
        using n(9) by (simp add: w_out_len_def stream_len_def zoom_apply)
      show ?thesis
      proof (cases "length pt > w_block_index w1 * e_block_size E")
        case True
        have "ws_write E d s = on_inner (ring_write E d) s'"
          using False d(1) rem flush bi len True n(4,10) w_okD(6) [OF n(3)] by (simp add: ws_write_def)
        with room [OF n(5,6,7)] n(8) wD(7) show ?thesis by simp
      next
        case f: False
        have "ws_write E d s = on_inner (ring_write E d) (s\<lparr>ws_inner := w1\<rparr>)"
          using False d(1) rem flush bi len f n(4,10) w_okD(6) [OF n(3)] by (simp add: ws_write_def)
        moreover have i: "ws_inner s' = w1" using f n(11) by simp
        moreover have "ws_ok E (s\<lparr>ws_inner := w1\<rparr>)" using ok(1) n(3) by (simp add: ws_ok_def)
        moreover have "ws_attached E (s\<lparr>ws_inner := w1\<rparr>) pt p" using n(7) i by (simp add: ws_attached_def)
        ultimately show ?thesis using room [of "s\<lparr>ws_inner := w1\<rparr>"] n(6,8) wD(7) by simp
      qed
    qed
  qed
qed

lemma ws_write_ok:
  assumes rel: "ws_rel E key s pt p"
  shows "\<exists>k s'. ws_write E d s = (Inr k, s') \<and> k \<le> length d \<and> (d \<noteq> [] \<longrightarrow> 0 < k)
      \<and> ws_rel E key s' (overlay pt p (take k d)) (p + k)"
proof -
  have "0 < e_block_size E" using rel w_okD(7) by (auto simp: ws_rel_def ws_ok_def)
  then have "p mod e_block_size E < e_block_size E" by simp
  with ws_write_exact [OF rel, of d] show ?thesis by fastforce
qed

interpretation ws_writer: io_writer_at "ws_write E" "ws_rel E key" for E key
  by unfold_locales (auto dest: ws_rel_pos(1) intro: ws_write_ok)

subsection \<open>Appending zeros\<close>

text \<open>
  At the end of the content the inner writer, which never loads a block, is an appending writer:
  this is how a seek beyond the end fills the gap.
\<close>

definition tw_content :: "aead_env \<Rightarrow> ring_crypto_write \<Rightarrow> bytes" where
  "tw_content E w = (case w_out w of None \<Rightarrow> []
     | Some out \<Rightarrow> wk_content E w (dec_file E (w_key w) (sdata out)))"

definition tw_inv :: "aead_env \<Rightarrow> bytes \<Rightarrow> ring_crypto_write \<Rightarrow> bool" where
  "tw_inv E key w \<longleftrightarrow> w_key w = key \<and> (\<exists>out base. wk E w out base
     \<and> b_pos_write (w_buf w) = b_available (w_buf w) \<and> wk_pos E w = length (wk_content E w base))"

lemma tw_content_eq: "wk E w out base \<Longrightarrow> tw_content E w = wk_content E w base"
  using wkD(1-3) [of E w out base] dec_file_eq [OF w_okD(1)] by (auto simp: tw_content_def)

lemma tw_invI:
  "w_key w = key \<Longrightarrow> wk E w out base \<Longrightarrow> b_pos_write (w_buf w) = b_available (w_buf w)
     \<Longrightarrow> wk_pos E w = length (wk_content E w base) \<Longrightarrow> tw_inv E key w"
  by (auto simp: tw_inv_def)

lemma tw_write_room:
  assumes inv: "tw_inv E key w" and room: "b_pos_write (w_buf w) < e_block_size E"
  shows "\<exists>k w'. ring_write E d w = (Inr k, w') \<and> k \<le> length d \<and> (d \<noteq> [] \<longrightarrow> 0 < k)
      \<and> tw_content E w' = tw_content E w @ take k d \<and> tw_inv E key w'"
proof -
  from inv obtain out base where w: "w_key w = key" "wk E w out base"
    "b_pos_write (w_buf w) = b_available (w_buf w)" "wk_pos E w = length (wk_content E w base)"
    by (auto simp: tw_inv_def)
  obtain k w' where k: "ring_write E d w = (Inr k, w')" "k \<le> length d" "d \<noteq> [] \<Longrightarrow> 0 < k" "wk E w' out base"
    "w_key w' = w_key w" "wk_content E w' base = overlay (wk_content E w base) (wk_pos E w) (take k d)"
    "wk_pos E w' = wk_pos E w + k" "b_pos_write (w_buf w') = b_available (w_buf w')"
    using ring_write_room [OF w(2) room, of d] w(3) by metis
  have "wk_content E w' base = wk_content E w base @ take k d" using k(6) w(4) by (simp add: overlay_at_end)
  moreover from this have "tw_inv E key w'" using k w by (intro tw_invI [OF _ k(4,8)]) simp_all
  ultimately show ?thesis using k by (simp add: tw_content_eq [OF w(2)] tw_content_eq [OF k(4)])
qed

lemma tw_write:
  assumes inv: "tw_inv E key w"
  shows "\<exists>k w'. ring_write E d w = (Inr k, w') \<and> k \<le> length d \<and> (d \<noteq> [] \<longrightarrow> 0 < k)
      \<and> tw_content E w' = tw_content E w @ take k d \<and> tw_inv E key w'"
proof (cases "b_pos_write (w_buf w) < e_block_size E")
  case True
  with inv show ?thesis by (rule tw_write_room)
next
  case False
  from inv obtain out base where w: "w_key w = key" "wk E w out base"
    "b_pos_write (w_buf w) = b_available (w_buf w)" "wk_pos E w = length (wk_content E w base)"
    by (auto simp: tw_inv_def)
  note wD = w_okD [OF wkD(1) [OF w(2)]]
  have d: "b_dirty (w_buf w)" "b_pos_write (w_buf w) = e_block_size E"
    using False wkD(9) [OF w(2)] w(3) wD(8) by auto
  obtain w1 out1 where w1: "encrypt_and_write E w = (Inr (), w1)" "w_ok E w1" "w_out w1 = Some out1"
      "enc_file E (w_key w1) (sdata out1) (wk_content E w base)" "w_key w1 = w_key w"
      "w_block_index w1 = Suc (w_block_index w)" "w_drained w1"
      "spos out1 = w_block_index w1 * ciphertext_block_size E"
    using wk_seal [OF w(2) d(1)] d(2) w(3) by metis
  have "w_block_index w1 * e_block_size E = length (wk_content E w base)" using w(4) d(2) w1(6) by simp
  note wk1 = wk_drained [OF w1(2,3,4,7) this w1(8)]
  have "tw_inv E key w1" using wk1 w1(5,7) w(1) by (intro tw_invI [OF _ wk1(1)]) (simp_all add: w_drained_def)
  moreover have "tw_content E w1 = tw_content E w"
    using tw_content_eq [OF wk1(1)] tw_content_eq [OF w(2)] wk1(2) by simp
  moreover have "ring_write E d w = ring_write E d w1"
    using d w1(1,3,7) wD(4) wkD(2) [OF w(2)]
    by (simp add: ring_write_def ring_flush_def buf_remaining_def w_drained_def)
  moreover have "b_pos_write (w_buf w1) < e_block_size E" using w1(7) wD(7) by (simp add: w_drained_def)
  ultimately show ?thesis using tw_write_room [of E key w1 d] by simp
qed

interpretation tail_writer: io_writer "ring_write E" "tw_content E" "tw_inv E key" for E key
  by unfold_locales (rule tw_write)

subsection \<open>Seeking\<close>

text \<open>Where the two branches of \<open>seek\<close> leave the writer: at the target, or at the end before it.\<close>

definition ws_reached :: "aead_env \<Rightarrow> bytes \<Rightarrow> ring_crypto_write_seek \<Rightarrow> bytes \<Rightarrow> nat \<Rightarrow> bool" where
  "ws_reached E key s pt n \<longleftrightarrow> ws_ok E s \<and> w_key (ws_inner s) = key
     \<and> (\<exists>out base. wk E (ws_inner s) out base \<and> wk_content E (ws_inner s) base = pt
        \<and> (wk_pos E (ws_inner s) = n \<or> wk_pos E (ws_inner s) < n \<and> wk_pos E (ws_inner s) = length pt
             \<and> b_pos_write (w_buf (ws_inner s)) = b_available (w_buf (ws_inner s))))"

lemma ws_seek_offset_ok:
  assumes ok: "ws_ok E s" "w_key (ws_inner s) = key" and wk: "wk E (ws_inner s) out base"
    and pt: "wk_content E (ws_inner s) base = pt" and n: "w_block_index (ws_inner s) = n div e_block_size E"
  obtains s' where "ws_seek_offset (n mod e_block_size E) s = (Inr (), s')" "ws_reached E key s' pt n"
proof -
  let ?w = "ws_inner s" and ?b = "e_block_size E"
  note wD = w_okD [OF wkD(1) [OF wk]]
  define q where "q = min (n mod ?b) (b_available (w_buf ?w))"
  have q: "q \<le> b_available (w_buf ?w)" "q < ?b" using wD(7) by (auto simp: q_def min_less_iff_disj)
  let ?w' = "?w\<lparr>w_buf := (w_buf ?w)\<lparr>b_pos_write := q\<rparr>\<rparr>" let ?s = "s\<lparr>ws_inner := ?w'\<rparr>"
  note sk = wk_seek [OF wk q(1) disjI1 [OF q(2)]]
  have step: "ws_seek_offset (n mod ?b) s = (Inr (), ?s)"
    using sk(1) by (simp add: zoom_apply [of ws_inner] flip: q_def)
  have nn: "n = n div ?b * ?b + n mod ?b" by simp
  have "ws_ok E ?s" using ok(1) wkD(1) [OF sk(2)] by (simp add: ws_ok_def)
  moreover have "wk_pos E ?w' = n \<or> wk_pos E ?w' < n \<and> wk_pos E ?w' = length pt
      \<and> b_pos_write (w_buf ?w') = b_available (w_buf ?w')"
  proof (cases "n mod ?b \<le> b_available (w_buf ?w)")
    case True
    then show ?thesis using n by (simp add: q_def)
  next
    case False
    have "n mod ?b < ?b" using wD(7) by simp
    with False have "b_available (w_buf ?w) \<noteq> ?b" by linarith
    with wkD(10) [OF wk] wk_pos_le(2) [OF wk] pt
    have "length pt = n div ?b * ?b + b_available (w_buf ?w)" by (simp add: n)
    moreover have "n div ?b * ?b + b_available (w_buf ?w) < n" using False nn by linarith
    ultimately show ?thesis using False by (simp add: q_def n)
  qed
  ultimately have "ws_reached E key ?s pt n"
    using sk(2,3) pt ok(2) by (auto simp: ws_reached_def)
  with step that show thesis by blast
qed

text \<open>The rest of the seek: zeros up to the target.\<close>

lemma ws_fill_ok:
  assumes r: "ws_reached E key s pt n"
  obtains s' where "whenM (ws_pos s < n) (on_inner (fill_zeros (ring_write E) (n - ws_pos s))) s = (Inr (), s')"
    "ws_rel E key s' (pt @ replicate (n - length pt) 0) n"
proof -
  let ?w = "ws_inner s"
  from r obtain out base where w: "ws_ok E s" "w_key ?w = key" "wk E ?w out base" "wk_content E ?w base = pt"
    "wk_pos E ?w = n \<or> wk_pos E ?w < n \<and> wk_pos E ?w = length pt \<and> b_pos_write (w_buf ?w) = b_available (w_buf ?w)"
    by (auto simp: ws_reached_def)
  have pos: "ws_pos s = wk_pos E ?w" using w_okD(5) [OF wkD(1) [OF w(3)]] by (simp add: ws_pos_def)
  show thesis
  proof (cases "wk_pos E ?w = n")
    case True
    then have "n \<le> length pt" using wk_pos_le(1) [OF w(3)] w(4) by simp
    moreover have "ws_attached E s pt n" using w(3,4) True by (rule ws_attachedI)
    ultimately show thesis using that [of s] w(1,2) pos True by (simp add: ws_rel_def)
  next
    case False
    with w(5) have t: "wk_pos E ?w < n" "wk_pos E ?w = length pt" "b_pos_write (w_buf ?w) = b_available (w_buf ?w)" by auto
    then have "tw_inv E key ?w" using w(2,3,4) by (auto simp: tw_inv_def)
    from tail_writer.fill_zeros_ok [OF this, of "n - ws_pos s"] obtain w' where
      w': "fill_zeros (ring_write E) (n - ws_pos s) ?w = (Inr (), w')" "tw_inv E key w'"
      "tw_content E w' = pt @ replicate (n - length pt) 0"
      using tw_content_eq [OF w(3)] w(4) pos t(2) by auto
    from w'(2) obtain out' base' where wk': "w_key w' = key" "wk E w' out' base'" "wk_pos E w' = length (wk_content E w' base')"
      by (auto simp: tw_inv_def)
    have c: "wk_content E w' base' = pt @ replicate (n - length pt) 0" using w'(3) tw_content_eq [OF wk'(2)] by simp
    have "ws_attached E (s\<lparr>ws_inner := w'\<rparr>) (pt @ replicate (n - length pt) 0) n"
      using wk'(2,3) c t(1,2) by (intro ws_attachedI [of E _ out' base']) simp_all
    then have "ws_rel E key (s\<lparr>ws_inner := w'\<rparr>) (pt @ replicate (n - length pt) 0) n"
      using w(1) wk'(1) wkD(1) [OF wk'(2)] by (simp add: ws_rel_def ws_ok_def)
    with that [of "s\<lparr>ws_inner := w'\<rparr>"] w'(1) pos t(1) show thesis by simp
  qed
qed

lemma ws_attached_empty_eof:
  assumes wk: "wk E w out base" and e: "b_available (w_buf w) = 0"
  shows "srest out = []" "\<not> b_dirty (w_buf w)"
proof -
  note wD = wkD [OF wk] and ok = w_okD [OF wkD(1) [OF wk]]
  show d: "\<not> b_dirty (w_buf w)" using wD(8) e by blast
  have "length base \<le> w_block_index w * e_block_size E" using wD(10) e ok(7) by simp
  then have "length (sdata out) \<le> spos out"
    using enc_file_pos_less_iff [OF ok(1) wD(3), of "w_block_index w"] wD(5) by simp
  then show "srest out = []" by (simp add: srest_def)
qed

text \<open>Within the block of the position.\<close>

lemma ws_seek_same_block_ok:
  assumes rel: "ws_rel E key s pt p" and same: "p div e_block_size E = n div e_block_size E"
  obtains s' where "ws_seek_same_block E n s = (Inr (), s')" "ws_reached E key s' pt n"
proof -
  let ?b = "e_block_size E"
  define rest where "rest = (\<lambda>s :: ring_crypto_write_seek. let w = ws_inner s;
         at_full_block_end = (ws_pos s mod w_plaintext_block_size w = 0 \<and> b_pos_write (w_buf w) = b_available (w_buf w)) in
     bnd (whenM (b_available (w_buf w) = 0 \<or> at_full_block_end)
            (bnd (ws_seal_dirty E) (\<lambda>_. bnd (ws_decrypt_block E) (\<lambda>_. ret ())))) (\<lambda>_.
     ws_seek_offset (n mod w_plaintext_block_size w)) s)"
  have unfold: "ws_seek_same_block E n s = rest s1" if "whenM (ws_at_start s) (ws_load_first E) s = (Inr (), s1)" for s s1
    using that by (simp add: ws_seek_same_block_def rest_def Let_def)
  have main: "\<exists>s'. rest s = (Inr (), s') \<and> ws_reached E key s' pt n"
    if s: "ws_ok E s" "w_key (ws_inner s) = key" "ws_attached E s pt q" "q div ?b = n div ?b" for s q
  proof -
    let ?w = "ws_inner s"
    from s(3) obtain out base where wk: "wk E ?w out base" "pt = wk_content E ?w base" "q = wk_pos E ?w"
      by (auto simp: ws_attached_def)
    note wD = w_okD [OF wkD(1) [OF wk(1)]]
    have pos: "ws_pos s = q" using wk(3) wD(5) by (simp add: ws_pos_def)
    show ?thesis
    proof (cases "b_pos_write (w_buf ?w) < ?b")
      case room: True
      then have bi: "w_block_index ?w = n div ?b" "q mod ?b = b_pos_write (w_buf ?w)"
        using s(4) wk(3) by simp_all
      show ?thesis
      proof (cases "b_available (w_buf ?w) = 0")
        case True
        note eof = ws_attached_empty_eof [OF wk(1) True]
        obtain s1 where s1: "ws_decrypt_block E s = (Inr False, s1)" "ws_ok E s1" "ws_inner s1 = ?w"
          by (rule ws_load_eof [OF s(1) wkD(2) [OF wk(1)] eof(1)])
        obtain s' where "ws_seek_offset (n mod ?b) s1 = (Inr (), s')" "ws_reached E key s' pt n"
          using ws_seek_offset_ok [of E s1 key out base pt n] s1(2,3) s(2) wk(1,2) bi(1) by auto
        with s1(1) eof(2) True wD(5) show ?thesis by (simp add: rest_def Let_def)
      next
        case False
        then have "\<not> (ws_pos s mod ?b = 0 \<and> b_pos_write (w_buf ?w) = b_available (w_buf ?w))"
          using pos bi(2) by auto
        moreover obtain s' where "ws_seek_offset (n mod ?b) s = (Inr (), s')" "ws_reached E key s' pt n"
          using ws_seek_offset_ok [OF s(1,2) wk(1), of pt n] wk(2) bi(1) by metis
        ultimately show ?thesis using False wD(5) by (simp add: rest_def Let_def del: de_Morgan_conj)
      qed
    next
      case False
      then have d: "b_dirty (w_buf ?w)" "b_pos_write (w_buf ?w) = ?b" "b_available (w_buf ?w) = ?b"
        using wkD(9) [OF wk(1)] buf_invD(2) [OF wD(3)] wD(8) by auto
      obtain w1 s1 where n: "encrypt_and_write E ?w = (Inr (), w1)" "w_block_index w1 = Suc (w_block_index ?w)"
        "ws_decrypt_block E (s\<lparr>ws_inner := w1\<rparr>) = (Inr (length pt > w_block_index w1 * ?b), s1)"
        "ws_ok E s1" "w_key (ws_inner s1) = key" "w_block_index (ws_inner s1) = w_block_index w1" "ws_attached E s1 pt q"
        by (rule ws_next_block [OF s(1) wk(1) d(1,2), folded wk(2,3)], metis s(2))
      from n(7) obtain out1 base1 where wk1: "wk E (ws_inner s1) out1 base1" "pt = wk_content E (ws_inner s1) base1"
        by (auto simp: ws_attached_def)
      have "w_block_index (ws_inner s1) = n div ?b"
        using n(2,6) s(4) wk(3) d(2) wD(7) by simp
      then obtain s' where "ws_seek_offset (n mod ?b) s1 = (Inr (), s')" "ws_reached E key s' pt n"
        using ws_seek_offset_ok [OF n(4,5) wk1(1), of pt n] wk1(2) by metis
      moreover have "ws_pos s mod ?b = 0" using pos wk(3) d(2) by simp
      ultimately show ?thesis using d n(1,3) wD(5) by (simp add: rest_def Let_def zoom_apply [of ws_inner])
    qed
  qed
  have wok: "w_ok E (ws_inner s)" using rel by (simp add: ws_rel_def ws_ok_def)
  show thesis
  proof (cases "ws_at_start s")
    case True
    obtain s1 where s1: "ws_load_first E s = (Inr (), s1)" "ws_ok E s1" "w_key (ws_inner s1) = key" "ws_attached E s1 pt 0"
      using ws_load_first_ok [OF rel True] by metis
    have "0 div ?b = n div ?b" using same ws_rel_pos(2) [OF rel] True by (simp add: ws_at_start_def)
    with main [OF s1(2-4)] unfold [of s s1] s1(1) True that show thesis by auto
  next
    case False
    with rel w_okD(5) [OF wok] have "ws_attached E s pt p"
      by (auto simp: ws_rel_def ws_fresh_def ws_pos_def w_drained_def ws_at_start_def)
    with main [of s p] unfold [of s s] rel False same that show thesis by (auto simp: ws_rel_def)
  qed
qed

text \<open>
  Leaving the block: the buffer is sealed if it is dirty. What is in the buffer afterwards does
  not matter if the target block exists; if it does not, the buffer has to be empty.
\<close>

lemma ws_seal_dirty_ok:
  assumes rel: "ws_rel E key s pt p"
  obtains s1 out1 where "ws_seal_dirty E s = (Inr (), s1)" "ws_ok E s1" "w_key (ws_inner s1) = key"
    "w_out (ws_inner s1) = Some out1" "enc_file E key (sdata out1) pt" "\<not> b_dirty (w_buf (ws_inner s1))"
    "pt = [] \<longrightarrow> w_drained (ws_inner s1)"
proof -
  let ?w = "ws_inner s"
  have ok: "ws_ok E s" "w_key ?w = key" using rel by (auto simp: ws_rel_def)
  show thesis
  proof (cases "ws_fresh E s pt")
    case True
    with ok that [of s] show thesis by (auto simp: ws_fresh_def w_drained_def)
  next
    case False
    with rel obtain out base where wk: "wk E ?w out base" "pt = wk_content E ?w base"
      by (auto simp: ws_rel_def ws_attached_def)
    show thesis
    proof (cases "b_dirty (w_buf ?w)")
      case True
      obtain w1 out1 where "encrypt_and_write E ?w = (Inr (), w1)" "w_ok E w1" "w_out w1 = Some out1"
        "enc_file E key (sdata out1) pt" "w_key w1 = key" "w_drained w1"
        using wk_seal [OF wk(1) True] wk(2) ok(2) by metis
      with that [of "s\<lparr>ws_inner := w1\<rparr>" out1] ok(1) True show thesis
        by (simp add: ws_ok_def w_drained_def zoom_apply)
    next
      case clean: False
      have "base = pt" using wk_content_clean [OF wk(1) clean] wk(2) by simp
      moreover have "w_drained ?w" if "pt = []"
        using wkD(7) [OF wk(1) clean] that \<open>base = pt\<close> w_okD(3,9) [OF wkD(1) [OF wk(1)]] clean
        by (auto simp: w_drained_def chunk_def buf_inv_def)
      ultimately show thesis using that [of s out] ok clean wkD(2,3) [OF wk(1)] by simp
    qed
  qed
qed

lemma ws_seek_other_block_ok:
  assumes rel: "ws_rel E key s pt p"
    and guard: "n div e_block_size E * e_block_size E < length pt \<or> \<not> e_block_size E dvd length pt \<or> pt = []"
  obtains s' where "ws_seek_other_block E n s = (Inr (), s')" "ws_reached E key s' pt n"
proof -
  let ?b = "e_block_size E" and ?c = "ciphertext_block_size E"
  obtain s1 out1 where s1: "ws_seal_dirty E s = (Inr (), s1)" "ws_ok E s1" "w_key (ws_inner s1) = key"
    "w_out (ws_inner s1) = Some out1" "enc_file E key (sdata out1) pt" "\<not> b_dirty (w_buf (ws_inner s1))"
    "pt = [] \<longrightarrow> w_drained (ws_inner s1)"
    by (rule ws_seal_dirty_ok [OF rel])
  have wok: "w_ok E (ws_inner s1)" using s1(2) by (simp add: ws_ok_def)
  note wD = w_okD [OF wok]
  define t where "t = min (n div ?b) (length pt div ?b)"
  have len: "length (sdata out1) div ?c = length pt div ?b"
    using enc_length_div(1) [OF wD(7) enc_fileD(1) [OF s1(5)]] by (simp add: ciphertext_block_size_eq)
  let ?out = "out1\<lparr>spos := t * ?c\<rparr>"
  let ?s2 = "s1\<lparr>ws_inner := (ws_inner s1)\<lparr>w_out := Some ?out, w_block_index := t\<rparr>\<rparr>"
  define rest where "rest = bnd (ws_decrypt_block E) (\<lambda>_.
     bnd (gets (\<lambda>s. w_block_index (ws_inner s))) (\<lambda>block_index.
     if block_index = n div ?b then ws_seek_offset (n mod ?b)
     else bnd (gets (\<lambda>s. b_available (w_buf (ws_inner s)))) (\<lambda>available.
       bnd (on_w_buf (buf_seek_write (Start available))) (\<lambda>_. ret ()))))"
  have step: "ws_seek_other_block E n s = rest ?s2"
    using s1(1,4) wD(5,6) len unfolding ws_seek_other_block_def rest_def
    by (simp add: w_out_len_def stream_len_def w_out_seek_def stream_seek_start_def Let_def comp_def t_def zoom_apply cong: if_cong)
  have ok2: "ws_ok E ?s2" using s1(2) by (simp add: ws_ok_def w_ok_def)
  have tle: "t * ?b \<le> length pt" by (simp add: t_def min_le_iff_disj flip: less_eq_div_iff_mult_less_eq [OF wD(7)])
  have "\<exists>s3 ok. ws_decrypt_block E ?s2 = (Inr ok, s3) \<and> ws_ok E s3 \<and> w_key (ws_inner s3) = key
      \<and> wk E (ws_inner s3) ?out pt \<and> wk_content E (ws_inner s3) pt = pt \<and> w_block_index (ws_inner s3) = t
      \<and> b_available (w_buf (ws_inner s3)) = length (chunk ?b t pt)"
  proof (cases "t * ?b < length pt")
    case True
    obtain s3 where s3: "ws_decrypt_block E ?s2 = (Inr True, s3)" "ws_ok E s3" "wk E (ws_inner s3) ?out pt"
      "w_block_index (ws_inner s3) = t" "\<not> b_dirty (w_buf (ws_inner s3))" "w_key (ws_inner s3) = key"
      "b_available (w_buf (ws_inner s3)) = length (chunk ?b t pt)"
      using ws_load [OF ok2, of ?out pt] s1(3,5) True by auto
    with wk_content_clean [OF s3(3,5)] show ?thesis by blast
  next
    case False
    with tle have eq: "t * ?b = length pt" by simp
    then have "?b dvd length pt" by (metis dvd_triv_right)
    moreover have "t \<le> n div ?b" by (simp add: t_def)
    then have "length pt \<le> n div ?b * ?b" unfolding eq [symmetric] by (rule mult_le_mono1)
    ultimately have "pt = []" using guard by auto
    then have dr: "w_drained (ws_inner s1)" using s1(7) by blast
    have e: "srest ?out = []"
      using enc_file_pos_less_iff [OF wD(1) s1(5), of t] eq by (simp add: srest_def)
    obtain s3 where s3: "ws_decrypt_block E ?s2 = (Inr False, s3)" "ws_ok E s3" "ws_inner s3 = ws_inner ?s2"
      using ws_load_eof [OF ok2, of ?out] e by auto
    have "wk E (ws_inner s3) ?out pt" "wk_content E (ws_inner s3) pt = pt"
      using wk_drained [of E "ws_inner s3" ?out pt] s3(2,3) dr eq s1(3,5) by (simp_all add: ws_ok_def w_drained_def)
    moreover have "b_available (w_buf (ws_inner s3)) = length (chunk ?b t pt)"
      using s3(3) dr \<open>pt = []\<close> by (simp add: w_drained_def chunk_def)
    ultimately show ?thesis using s3 s1(3) by auto
  qed
  then obtain s3 ok where s3: "ws_decrypt_block E ?s2 = (Inr ok, s3)" "ws_ok E s3" "w_key (ws_inner s3) = key"
      "wk E (ws_inner s3) ?out pt" "wk_content E (ws_inner s3) pt = pt" "w_block_index (ws_inner s3) = t"
      "b_available (w_buf (ws_inner s3)) = length (chunk ?b t pt)" by blast
  show thesis
  proof (cases "t = n div ?b")
    case True
    with s3(6) have "w_block_index (ws_inner s3) = n div ?b" by simp
    from ws_seek_offset_ok [OF s3(2-5) this] obtain s' where
      "ws_seek_offset (n mod ?b) s3 = (Inr (), s')" "ws_reached E key s' pt n" by blast
    moreover from this(1) have "rest ?s2 = (Inr (), s')" using s3(1,6) True by (simp add: rest_def)
    ultimately show thesis using that step by simp
  next
    case False
    then have t: "t = length pt div ?b" "t < n div ?b" by (auto simp: t_def)
    let ?a = "b_available (w_buf (ws_inner s3))"
    have a: "t * ?b + ?a = length pt" "?a < ?b"
      using s3(7) t(1) wD(7) by (simp_all add: length_chunk minus_div_mult_eq_mod)
    let ?w = "(ws_inner s3)\<lparr>w_buf := (w_buf (ws_inner s3))\<lparr>b_pos_write := ?a\<rparr>\<rparr>"
    note sk = wk_seek [OF s3(4) order_refl disjI1 [OF a(2)]]
    have r: "rest ?s2 = (Inr (), s3\<lparr>ws_inner := ?w\<rparr>)"
      using s3(1,6) False sk(1) by (simp add: rest_def zoom_apply [of ws_inner])
    have "Suc t * ?b \<le> n div ?b * ?b" using t(2) by (intro mult_le_mono1) simp
    also have "\<dots> \<le> n" by simp
    finally have "wk_pos E ?w < n" using a(2) s3(6) by simp
    then have "ws_reached E key (s3\<lparr>ws_inner := ?w\<rparr>) pt n"
      using sk(2,3) s3(2,3,5,6) a(1) wkD(1) [OF sk(2)] by (auto simp: ws_reached_def ws_ok_def)
    with r step that show thesis by simp
  qed
qed

text \<open>
  The seek as a whole. The guard is abstract: the target is in the block of the position, or its
  block exists, or the last block of the file is partial, or the file is empty.
\<close>

definition ws_seek_guard :: "nat \<Rightarrow> bytes \<Rightarrow> nat \<Rightarrow> nat \<Rightarrow> bool" where
  "ws_seek_guard b pt p n \<longleftrightarrow> p div b = n div b \<or> n div b * b < length pt \<or> \<not> b dvd length pt \<or> pt = []"

lemma ws_seek_ok:
  assumes rel: "ws_rel E key s pt p" and guard: "ws_seek_guard (e_block_size E) pt p n" and n: "n < 2 ^ 63"
  shows "\<exists>s'. ws_seek E (Start n) s = (Inr n, s') \<and> ws_rel E key s' (pt @ replicate (n - length pt) 0) n"
proof (cases "p = n")
  case True
  with ws_rel_pos [OF rel] rel n show ?thesis by (simp add: ws_seek_def Let_def)
next
  case False
  let ?b = "e_block_size E"
  have wok: "w_ok E (ws_inner s)" using rel by (simp add: ws_rel_def ws_ok_def)
  obtain s1 where s1: "(if p div ?b = n div ?b then ws_seek_same_block E n else ws_seek_other_block E n) s = (Inr (), s1)"
    "ws_reached E key s1 pt n"
  proof (cases "p div ?b = n div ?b")
    case True
    with ws_seek_same_block_ok [OF rel True] that show thesis by auto
  next
    case False
    with guard have "n div ?b * ?b < length pt \<or> \<not> ?b dvd length pt \<or> pt = []" by (simp add: ws_seek_guard_def)
    with ws_seek_other_block_ok [OF rel this] that False show thesis by auto
  qed
  obtain s2 where s2: "whenM (ws_pos s1 < n) (on_inner (fill_zeros (ring_write E) (n - ws_pos s1))) s1 = (Inr (), s2)"
    "ws_rel E key s2 (pt @ replicate (n - length pt) 0) n"
    by (rule ws_fill_ok [OF s1(2)])
  have "ws_seek E (Start n) s = (Inr (ws_pos s2), s2)"
    using s1(1) s2(1) False n ws_rel_pos(2) [OF rel] w_okD(5) [OF wok] by (simp add: ws_seek_def Let_def)
  with s2(2) ws_rel_pos(2) [OF s2(2)] show ?thesis by simp
qed

text \<open>
  Flushing writes a full, dirty buffer and nothing else. It is invisible as long as no existing
  block follows the position, or the position is not at a block boundary.
\<close>

definition ws_flush_guard :: "nat \<Rightarrow> bytes \<Rightarrow> nat \<Rightarrow> bool" where
  "ws_flush_guard b pt p \<longleftrightarrow> \<not> b dvd p \<or> p = length pt"

lemma ws_flush_ok:
  assumes rel: "ws_rel E key s pt p" and guard: "ws_flush_guard (e_block_size E) pt p"
  shows "\<exists>s'. ws_flush E s = (Inr (), s') \<and> ws_rel E key s' pt p"
proof (cases "b_dirty (w_buf (ws_inner s)) \<and> buf_remaining (w_buf (ws_inner s)) = 0")
  case False
  have "w_out (ws_inner s) \<noteq> None"
    using rel wkD(2) by (fastforce simp: ws_rel_def ws_attached_def ws_fresh_def)
  with False rel show ?thesis by (auto simp: ws_flush_def ring_flush_def zoom_apply)
next
  case True
  let ?w = "ws_inner s"
  from True rel have "ws_attached E s pt p" by (auto simp: ws_rel_def ws_fresh_def w_drained_def)
  then obtain out base where wk: "wk E ?w out base" "pt = wk_content E ?w base" "p = wk_pos E ?w"
    by (auto simp: ws_attached_def)
  note wD = w_okD [OF wkD(1) [OF wk(1)]]
  have full: "b_pos_write (w_buf ?w) = e_block_size E" "b_available (w_buf ?w) = e_block_size E"
    using True wD(4,8) buf_invD(2) [OF wD(3)] by (auto simp: buf_remaining_def)
  obtain w1 out1 where w1: "encrypt_and_write E ?w = (Inr (), w1)" "w_ok E w1" "w_out w1 = Some out1"
    "enc_file E (w_key w1) (sdata out1) pt" "w_key w1 = w_key ?w"
    "w_block_index w1 = Suc (w_block_index ?w)" "w_drained w1"
    "spos out1 = w_block_index w1 * ciphertext_block_size E"
    using wk_seal [OF wk(1)] True wk(2) full(2) by metis
  have "w_block_index w1 * e_block_size E = p" using wk(3) full(1) w1(6) by simp
  moreover from this have "p = length pt" using guard by (auto simp: ws_flush_guard_def)
  ultimately have i: "w_block_index w1 * e_block_size E = length pt" "p = length pt" by simp_all
  have "ws_attached E (s\<lparr>ws_inner := w1\<rparr>) pt p"
    using wk_drained [OF w1(2,3,4,7) i(1) w1(8)] i(2) by (intro ws_attachedI [of E _ out1 pt]) simp_all
  then have "ws_rel E key (s\<lparr>ws_inner := w1\<rparr>) pt p"
    using rel w1(2,5) by (simp add: ws_rel_def ws_ok_def)
  moreover have "ws_flush E s = (Inr (), s\<lparr>ws_inner := w1\<rparr>)"
    using w1(1) True wkD(2) [OF wk(1)] by (simp add: ws_flush_def ring_flush_def zoom_apply)
  ultimately show ?thesis by blast
qed

text \<open>Finishing seals what is in the buffer: the file then decrypts to the content.\<close>

lemma ws_finish_ok:
  assumes rel: "ws_rel E key s pt p"
  shows "\<exists>out s'. ws_finish E s = (Inr out, s') \<and> enc_file E key (sdata out) pt"
proof -
  let ?w = "ws_inner s"
  obtain s1 out1 where s1: "ws_seal_dirty E s = (Inr (), s1)" "w_out (ws_inner s1) = Some out1" "enc_file E key (sdata out1) pt"
    by (rule ws_seal_dirty_ok [OF rel])
  have out: "w_out ?w \<noteq> None"
    using rel wkD(2) by (fastforce simp: ws_rel_def ws_attached_def ws_fresh_def)
  have seal: "whenM (b_dirty (w_buf ?w)) (encrypt_and_write E) ?w = (Inr (), ws_inner s1)"
    using s1(1) by (cases "b_dirty (w_buf ?w)") (auto simp: zoom_apply split: prod.splits)
  have "ring_finish E ?w = (Inr out1, (ws_inner s1)\<lparr>w_out := None\<rparr>)"
    using out seal s1(2) by (simp add: ring_finish_def)
  with s1(3) show ?thesis by (simp add: ws_finish_def zoom_apply)
qed

lemma ws_rel_new:
  assumes "aead_ok E" "enc_file E key ct pt" "ws_new E seed (stream_of ct) key = Inr s"
  shows "ws_rel E key s pt 0"
proof -
  obtain w where w: "ring_crypto_write_new E seed (stream_of ct) key = Inr w"
    "s = \<lparr>ws_inner = w, ws_last_nonce = None, ws_decrypt_buf = buf_new (replicate (ciphertext_block_size E) 0)\<rparr>"
    using assms(3) by (auto simp: ws_new_def ciphertext_block_size_def split: sum.splits)
  have "w_ok E w" using assms(1) w(1) by (rule w_ok_new)
  moreover have "w_key w = key" "w_buf w = buf_new (replicate (e_block_size E) 0)" "w_block_index w = 0"
      "w_out w = Some (stream_of ct)"
    using w(1) by (auto simp: ring_crypto_write_new_def split: if_splits)
  ultimately show ?thesis using assms(2) w(2) aead_okD(2) [OF assms(1)]
    by (auto simp: ws_rel_def ws_ok_def ws_fresh_def w_drained_def intro!: buf_inv_new)
qed

end
