(* ===== verification/Crypto_Auth.thy ===== *)
theory Crypto_Auth
  imports Crypto_Read
begin

text \<open>
  Integrity of what a reader delivers, for arbitrary (possibly corrupted) file contents: every
  byte handed out belongs to a block that was opened under the reader's key with the index of its
  position, and the blocks come in order. A block that does not authenticate ends the read with
  an error.
\<close>

subsection \<open>Every outcome of decrypting a block\<close>

lemma decrypt_block_run:
  fixes s :: dec_state
  assumes "length (b_buf (d_buf s)) = ciphertext_block_size E"
  defines "blk \<equiv> take (ciphertext_block_size E) (srest (d_input s))"
  shows "blk \<noteq> [] \<Longrightarrow> length blk < NONCE_LEN \<Longrightarrow> result_of (decrypt_block E key s) = Inl Panic"
    and "NONCE_LEN \<le> length blk \<Longrightarrow> open_block E key (d_block_index s) blk = None
      \<Longrightarrow> result_of (decrypt_block E key s) = Inl (IoErr Other ''error opening within'')"
    and "open_block E key (d_block_index s) blk = Some [] \<Longrightarrow>
      decrypt_block E key s = (Inr (), s\<lparr>d_buf := put_remaining NONCE_LEN [] (put_remaining 0 blk (buf_clear (d_buf s))),
        d_last_nonce := Some (take NONCE_LEN blk), d_input := (d_input s)\<lparr>spos := spos (d_input s) + length blk\<rparr>\<rparr>)"
proof -
  have fill: "read_fill stream_read (ciphertext_block_size E) [] (d_input s) =
      (Inr blk, (d_input s)\<lparr>spos := spos (d_input s) + length blk\<rparr>)"
    by (simp only: stream_read_fill blk_def append_Nil)
  show "blk \<noteq> [] \<Longrightarrow> length blk < NONCE_LEN \<Longrightarrow> result_of (decrypt_block E key s) = Inl Panic"
    using fill assms(1) by (simp add: decrypt_block_def)
  have ne: "NONCE_LEN \<le> length blk \<Longrightarrow> blk \<noteq> []" by (auto simp: NONCE_LEN_def)
  show "NONCE_LEN \<le> length blk \<Longrightarrow> open_block E key (d_block_index s) blk = None
      \<Longrightarrow> result_of (decrypt_block E key s) = Inl (IoErr Other ''error opening within'')"
    using fill assms(1) ne by (simp add: decrypt_block_def open_block_def)
  show "open_block E key (d_block_index s) blk = Some [] \<Longrightarrow>
      decrypt_block E key s = (Inr (), s\<lparr>d_buf := put_remaining NONCE_LEN [] (put_remaining 0 blk (buf_clear (d_buf s))),
        d_last_nonce := Some (take NONCE_LEN blk), d_input := (d_input s)\<lparr>spos := spos (d_input s) + length blk\<rparr>\<rparr>)"
    using fill assms(1) ne by (simp add: decrypt_block_def open_block_def split: if_splits)
qed

subsection \<open>The invariant of a reader on arbitrary bytes\<close>

definition opened :: "aead_env \<Rightarrow> bytes \<Rightarrow> bytes \<Rightarrow> nat \<Rightarrow> bytes" where
  "opened E key ct k = concat (map (\<lambda>i. case open_block E key i (chunk (ciphertext_block_size E) i ct) of
     None \<Rightarrow> [] | Some p \<Rightarrow> p) [0..<k])"

definition authentic :: "aead_env \<Rightarrow> bytes \<Rightarrow> bytes \<Rightarrow> nat \<Rightarrow> bool" where
  "authentic E key ct k \<longleftrightarrow> (\<forall>i < k. open_block E key i (chunk (ciphertext_block_size E) i ct) \<noteq> None)"

definition a_inv :: "aead_env \<Rightarrow> bytes \<Rightarrow> bytes \<Rightarrow> bytes \<Rightarrow> ring_crypto_read \<Rightarrow> bool" where
  "a_inv E key ct out r \<longleftrightarrow> r_ok E r \<and> r_key r = key
     \<and> (case r_input r of None \<Rightarrow> False | Some inp \<Rightarrow> sdata inp = ct
          \<and> (srest inp = drop (r_block_index r * ciphertext_block_size E) ct \<or> srest inp = []))
     \<and> authentic E key ct (r_block_index r)
     \<and> out @ buf_as_ref_read_available (r_buf r) = opened E key ct (r_block_index r)"

lemma opened_Suc: "open_block E key k (chunk (ciphertext_block_size E) k ct) = Some p \<Longrightarrow>
    opened E key ct (Suc k) = opened E key ct k @ p"
  by (simp add: opened_def)

lemma a_inv_decrypt:
  assumes inv: "a_inv E key ct out r" and drained: "buf_as_ref_read_available (r_buf r) = []"
    and step: "r_decrypt_block E r = (Inr (), r')"
  shows "a_inv E key ct out r'"
proof -
  let ?c = "ciphertext_block_size E" and ?i = "r_block_index r"
  from inv obtain inp where r: "r_ok E r" "r_key r = key" "r_input r = Some inp" "sdata inp = ct"
    "srest inp = drop (?i * ?c) ct \<or> srest inp = []" "authentic E key ct ?i" "out = opened E key ct ?i"
    using drained by (auto simp: a_inv_def split: option.splits)
  note rD = r_okD [OF r(1)]
  let ?d = "\<lparr>d_block_index = ?i, d_buf = r_buf r, d_input = inp, d_last_nonce = r_last_nonce r\<rparr>"
  define blk where "blk = take ?c (srest inp)"
  note run = decrypt_block_run [of ?d E key, unfolded dec_state.select_convs, OF rD(4), folded blk_def]
  obtain d' where d': "decrypt_block E key ?d = (Inr (), d')" "r' = r\<lparr>r_block_index := d_block_index d',
      r_buf := d_buf d', r_input := Some (d_input d'), r_last_nonce := d_last_nonce d'\<rparr>"
    using step r(2,3) by (auto simp: r_decrypt_block_def split: prod.splits)
  consider (eof) "blk = []" | (empty) "open_block E key ?i blk = Some []"
    | (some) p where "open_block E key ?i blk = Some p" "p \<noteq> []"
    using run(1,2) d'(1) by (cases "open_block E key ?i blk") (auto simp: not_less [symmetric])
  then show ?thesis
  proof cases
    case eof
    then have "srest inp = []" using csz_pos [OF rD(1)] by (simp add: blk_def)
    with d' r have "r' = r\<lparr>r_buf := buf_clear (r_buf r)\<rparr>" by (auto simp: decrypt_block_eof)
    with r show ?thesis by (auto simp: a_inv_def r_ok_def buf_as_ref_read_available_def)
  next
    case empty
    have l: "length blk = overhead E" using open_block_length [OF rD(1) empty] by simp
    then have "length (srest inp) \<le> length blk"
      using rD(7) by (auto simp: blk_def ciphertext_block_size_def min_def split: if_splits)
    then have rest: "srest (inp\<lparr>spos := spos inp + length blk\<rparr>) = []" by (simp add: srest_def)
    have fit: "length blk \<le> length (b_buf (r_buf r))" using l rD(4) by (simp add: ciphertext_block_size_def)
    have "r_ok E r'" "buf_as_ref_read_available (r_buf r') = []"
      using run(3) [OF empty] d' r(1) rD(3) fit
      by (auto simp: put_remaining_put r_ok_def buf_inv_def buf_as_ref_read_available_def)
    with run(3) [OF empty] d' r rest show ?thesis by (auto simp: a_inv_def)
  next
    case some
    have l: "length blk = length p + overhead E" by (rule open_block_length [OF rD(1) some(1)])
    then have "blk \<noteq> []" by (auto simp: NONCE_LEN_def)
    then have sr: "srest inp = drop (?i * ?c) ct" using r(5) by (auto simp: blk_def)
    have ck: "blk = chunk ?c ?i ct" by (simp add: blk_def sr chunk_def)
    obtain d where d: "decrypt_block E key ?d = (Inr (), d)" "d_block_index d = Suc ?i"
      "buf_as_ref_read_available (d_buf d) = p" "buf_inv (d_buf d)" "length (b_buf (d_buf d)) = ?c"
      "d_input d = inp\<lparr>spos := spos inp + length blk\<rparr>"
      using decrypt_block_ok [of E ?d key p] rD(1,3,4) some by (auto simp: blk_def simp del: length_take)
    have "srest (d_input d) = drop (length blk) (srest inp)" by (simp add: d(6) srest_def add.commute)
    also have "\<dots> = drop (Suc ?i * ?c) ct" unfolding sr blk_def by (auto simp: min_def add.commute)
    finally have "srest (d_input d) = drop (Suc ?i * ?c) ct" .
    moreover have "authentic E key ct (Suc ?i)" using r(6) some(1) ck by (auto simp: authentic_def less_Suc_eq)
    moreover have "out @ p = opened E key ct (Suc ?i)" using opened_Suc some(1) ck r(7) by metis
    ultimately show ?thesis using d d' r rD by (auto simp: a_inv_def r_ok_def)
  qed
qed

lemma a_inv_buf_read:
  assumes "a_inv E key ct out r"
  shows "a_inv E key ct (out @ take n (buf_as_ref_read_available (r_buf r))) (r\<lparr>r_buf := state_of (buf_read n (r_buf r))\<rparr>)"
proof -
  have b: "buf_inv (r_buf r)" using assms by (simp add: a_inv_def r_ok_def)
  have "length (b_buf (state_of (buf_read n (r_buf r)))) = length (b_buf (r_buf r))"
    by (simp add: buf_read_eq [OF b])
  with assms buf_read_rest [OF b, of n] buf_inv_read [OF b, of n] show ?thesis
    by (auto simp: a_inv_def r_ok_def split: option.splits)
qed

lemma a_inv_read:
  assumes inv: "a_inv E key ct out r" and n: "0 < n" and rd: "ring_read E n r = (Inr d, r')"
  shows "a_inv E key ct (out @ d) r'"
proof -
  let ?av = "\<lambda>r. buf_as_ref_read_available (r_buf r)"
  have serve: "on_r_buf (buf_read n) r = (Inr (take n (?av r)), r\<lparr>r_buf := state_of (buf_read n (r_buf r))\<rparr>)"
    if "a_inv E key ct out r" for r
    using that buf_read_eq [of "r_buf r" n] by (simp add: a_inv_def r_ok_def)
  show ?thesis
  proof (cases "?av r = []")
    case False
    then have "take n (?av r) \<noteq> []" using n by simp
    with rd serve [OF inv] a_inv_buf_read [OF inv, of n] show ?thesis by (simp add: ring_read_def)
  next
    case True
    have b: "buf_inv (r_buf r)" using inv by (simp add: a_inv_def r_ok_def)
    have "buf_read n (r_buf r) = (Inr [], r_buf r)"
      using True b by (simp add: buf_read_def buf_available_read_def flip: length_0_conv)
    with rd obtain r1 where r1: "r_decrypt_block E r = (Inr (), r1)" "on_r_buf (buf_read n) r1 = (Inr d, r')"
      by (auto simp: ring_read_def elim!: bnd_InrE)
    have inv1: "a_inv E key ct out r1" by (rule a_inv_decrypt [OF inv True r1(1)])
    with r1(2) serve [OF inv1] a_inv_buf_read [OF inv1, of n] show ?thesis by simp
  qed
qed

lemma a_inv_read_loop:
  assumes "a_inv E key ct acc r" "length acc < n" "read_loop (ring_read E) n acc r = (Inr d, r')"
  shows "a_inv E key ct d r' \<and> length d \<le> n"
  using assms
proof (induction "n - length acc" arbitrary: acc r rule: less_induct)
  case less
  from less.prems(3) obtain x r1 where x: "ring_read E (n - length acc) r = (Inr x, r1)"
    by (auto simp: read_loop.simps [of _ n acc r] split: prod.splits sum.splits)
  have inv1: "a_inv E key ct (acc @ x) r1" using a_inv_read [OF less.prems(1) _ x] less.prems(2) by simp
  show ?case
  proof (cases "x = [] \<or> n \<le> length (acc @ x)")
    case True
    with less.prems x inv1 show ?thesis
      by (auto simp: read_loop.simps [of _ n acc r] split: if_splits)
  next
    case False
    then have "0 < length x" "length (acc @ x) < n" by auto
    then have "n - length (acc @ x) < n - length acc" "length (acc @ x) < n" unfolding length_append by linarith+
    moreover have "read_loop (ring_read E) n (acc @ x) r1 = (Inr d, r')"
      using less.prems(3) x False by (auto simp: read_loop.simps [of _ n acc r] split: if_splits)
    ultimately show ?thesis using less.hyps inv1 by blast
  qed
qed

lemma a_inv_new:
  assumes "aead_ok E" "ring_crypto_read_new E (stream_of ct) key = Inr r"
  shows "a_inv E key ct [] r"
  using assms aead_okD(2) [OF assms(1)]
  by (auto simp: a_inv_def r_ok_def ring_crypto_read_new_def Let_def ciphertext_block_size_def opened_def
      authentic_def buf_as_ref_read_available_def intro!: buf_inv_new split: if_splits)

end
