(* ===== verification/Crypto_Stream.thy ===== *)
theory Crypto_Stream
  imports Sample_AEAD Crypto_Write_Seek Crypto_Auth
begin

text \<open>
  The properties of the encrypting writer and the decrypting reader taken together: what is
  written, in whatever pieces, is read back; seeks; and the places where the code does not do
  what its callers expect.
\<close>

subsection \<open>Round trip\<close>

lemma write_each_ok:
  assumes "w_inv E w \<and> w_key w = key"
  shows "\<exists>w'. for_each (write_all (ring_write E)) ds w = (Inr (), w')
      \<and> w_inv E w' \<and> w_key w' = key \<and> w_content E w' = w_content E w @ concat ds"
  using assms
proof (induction ds arbitrary: w)
  case (Cons d ds)
  obtain w1 where w1: "write_all (ring_write E) d w = (Inr (), w1)" "w_content E w1 = w_content E w @ d"
      "w_inv E w1 \<and> w_key w1 = key"
    using crypto_writer.write_all_ok [OF Cons.prems] by blast
  with Cons.IH [OF w1(3)] show ?case by auto
qed simp

text \<open>A session of a writer on an empty file, and of a reader on a file.\<close>

definition encrypt_pieces :: "aead_env \<Rightarrow> nat \<Rightarrow> bytes \<Rightarrow> bytes list \<Rightarrow> io_error + bytes" where
  "encrypt_pieces E seed key ds =
     (case ring_crypto_write_new E seed (stream_of []) key of Inl e \<Rightarrow> Inl e
      | Inr w \<Rightarrow> (case result_of (bnd (for_each (write_all (ring_write E)) ds) (\<lambda>_. ring_finish E) w) of
          Inl e \<Rightarrow> Inl e | Inr s \<Rightarrow> Inr (sdata s)))"

definition read_prefix :: "aead_env \<Rightarrow> bytes \<Rightarrow> bytes \<Rightarrow> nat \<Rightarrow> io_error + bytes" where
  "read_prefix E key ct n =
     (case ring_crypto_read_new E (stream_of ct) key of Inl e \<Rightarrow> Inl e
      | Inr r \<Rightarrow> result_of (su_read (ring_read E) n r))"

lemma encrypt_pieces_ok:
  assumes "aead_ok E" "length key = e_key_len E"
  shows "\<exists>ct. encrypt_pieces E seed key ds = Inr ct \<and> enc_file E key ct (concat ds)"
proof -
  obtain w where w: "ring_crypto_write_new E seed (stream_of []) key = Inr w"
    using assms(2) by (simp add: ring_crypto_write_new_def)
  note new = w_inv_new [OF assms(1) w]
  obtain w1 where w1: "for_each (write_all (ring_write E)) ds w = (Inr (), w1)" "w_inv E w1"
      "w_key w1 = key" "w_content E w1 = concat ds"
    using write_each_ok [of E w key ds] new by auto
  with w ring_finish_ok [OF w1(2)] show ?thesis by (auto simp: encrypt_pieces_def)
qed

lemma read_prefix_ok:
  assumes "aead_ok E" "length key = e_key_len E" "enc_file E key ct pt" "0 < n"
  shows "read_prefix E key ct n = Inr (take n pt)"
proof -
  obtain r where r: "ring_crypto_read_new E (stream_of ct) key = Inr r"
    using assms(2) by (simp add: ring_crypto_read_new_def Let_def)
  from crypto_reader.su_read_ok [OF r_inv_new(1) [OF assms(1,3) r] assms(4)] r_inv_new(2) [OF assms(1,3) r] r
  show ?thesis by (auto simp: read_prefix_def)
qed

text \<open>
  C1: a fresh writer accepts any sequence of pieces and finishing it succeeds; the resulting file
  decrypts block by block to the concatenation of the pieces, and a reader opened on the file with
  the same key fills any nonempty buffer with exactly the first bytes of that concatenation.
\<close>

theorem write_read_roundtrip:
  assumes "aead_ok E" "length key = e_key_len E"
  shows "\<exists>ct. encrypt_pieces E seed key ds = Inr ct \<and> enc_file E key ct (concat ds)
      \<and> (\<forall>n > 0. read_prefix E key ct n = Inr (take n (concat ds)))"
  using encrypt_pieces_ok [OF assms, of seed ds] read_prefix_ok [OF assms] by blast

theorem write_read_roundtrip_witness:
  "\<exists>ct. encrypt_pieces sample_env 5 sample_key [[1, 2, 3], replicate 20 4] = Inr ct
     \<and> read_prefix sample_env sample_key ct 5 = Inr [1, 2, 3, 4, 4]"
proof -
  have five: "take 5 (concat [[1, 2, 3], replicate 20 4]) = [1, 2, 3, 4, (4::byte)]"
    by (simp add: numeral_eq_Suc)
  from write_read_roundtrip [OF sample_env_ok sample_key_ok, of 5 "[[1, 2, 3], replicate 20 4]"]
  show ?thesis unfolding five [symmetric] by (auto simp del: concat.simps)
qed

text \<open>Sample files, for the witnesses below.\<close>

definition sample_pt :: "nat \<Rightarrow> bytes" where
  "sample_pt n = map word_of_nat [0..<n]"

definition sample_ct :: "bytes \<Rightarrow> bytes" where
  "sample_ct pt = (case encrypt_pieces sample_env 5 sample_key [pt] of Inl _ \<Rightarrow> [] | Inr ct \<Rightarrow> ct)"

lemma sample_file: "enc_file sample_env sample_key (sample_ct pt) pt"
  using encrypt_pieces_ok [OF sample_env_ok sample_key_ok, of 5 "[pt]"] by (auto simp: sample_ct_def)

lemma length_sample_pt [simp]: "length (sample_pt n) = n"
  by (simp add: sample_pt_def)

lemma length_sample_ct: "length (sample_ct pt) = length pt + 13 * ((length pt + 15) div 16)"
  using enc_fileD(1) [OF sample_file [of pt]] by (simp add: nblocks_def NONCE_LEN_def)

lemma sample_reader:
  obtains r where "ring_crypto_read_new sample_env (stream_of (sample_ct pt)) sample_key = Inr r"
    "r_good sample_env (sample_ct pt) pt r" "r_block_index r = 0"
proof -
  obtain r where "ring_crypto_read_new sample_env (stream_of (sample_ct pt)) sample_key = Inr r"
    by (simp add: ring_crypto_read_new_def Let_def)
  with that r_good_new [OF sample_env_ok sample_file this] r_inv_new(3) [OF sample_env_ok sample_file this]
  show thesis by blast
qed

lemma sample_small: "length pt < 100 \<Longrightarrow> length (sample_ct pt) < 2 ^ 63"
  "overhead sample_env \<le> e_block_size sample_env"
  by (simp_all add: length_sample_ct NONCE_LEN_def)

subsection \<open>Seeking and reading\<close>

text \<open>
  The operations a handle performs on its reader, and the specification: a position in the
  plaintext. A seek is clamped to the length the code computes; a read stays inside the file.
  The specification is undefined (\<open>None\<close>) for negative targets and for reads beyond the end.
\<close>

datatype read_op = OpSeek SeekFrom | OpRead nat

datatype read_out = OutPos nat | OutData bytes

primrec run_read_op :: "aead_env \<Rightarrow> read_op \<Rightarrow> (ring_crypto_read, io_error, read_out) sem" where
  "run_read_op E (OpSeek pos) = bnd (ring_read_seek E pos) (\<lambda>n. ret (OutPos n))"
| "run_read_op E (OpRead n) = bnd (su_read (ring_read E) n) (\<lambda>d. ret (OutData d))"

primrec run_read_ops :: "aead_env \<Rightarrow> read_op list \<Rightarrow> (ring_crypto_read, io_error, read_out list) sem" where
  "run_read_ops E [] = ret []"
| "run_read_ops E (op # ops) =
     bnd (run_read_op E op) (\<lambda>out. bnd (run_read_ops E ops) (\<lambda>outs. ret (out # outs)))"

primrec spec_read_op :: "nat \<Rightarrow> bytes \<Rightarrow> read_op \<Rightarrow> nat \<Rightarrow> (read_out \<times> nat) option" where
  "spec_read_op len pt (OpSeek pos) p =
     (let t = seek_target len p pos; n = min (nat t) len in if t < 0 then None else Some (OutPos n, n))"
| "spec_read_op len pt (OpRead n) p =
     (if 0 < n \<and> p + n \<le> length pt then Some (OutData (take n (drop p pt)), p + n) else None)"

primrec spec_read_ops :: "nat \<Rightarrow> bytes \<Rightarrow> read_op list \<Rightarrow> nat \<Rightarrow> (read_out list \<times> nat) option" where
  "spec_read_ops len pt [] p = Some ([], p)"
| "spec_read_ops len pt (op # ops) p =
     (case spec_read_op len pt op p of None \<Rightarrow> None
      | Some (out, p') \<Rightarrow> (case spec_read_ops len pt ops p' of None \<Rightarrow> None
          | Some (outs, p'') \<Rightarrow> Some (out # outs, p'')))"

lemma run_read_op_refines:
  assumes "r_good E ct pt r" "length ct < 2 ^ 63" "overhead E \<le> e_block_size E"
    and spec: "spec_read_op (computed_len E pt) pt op (r_pos r) = Some (out, p)"
  obtains r' where "run_read_op E op r = (Inr out, r')" "r_good E ct pt r'" "r_pos r' = p"
proof (cases op)
  case (OpSeek pos)
  with spec have "0 \<le> seek_target (computed_len E pt) (r_pos r) pos" by (auto simp: Let_def split: if_splits)
  from ring_read_seek_ok [OF assms(1-3) this] spec that OpSeek show thesis
    by (auto simp: Let_def split: if_splits)
next
  case (OpRead n)
  with spec have n: "0 < n" "n \<le> length pt - r_pos r"
    and out: "out = OutData (take n (drop (r_pos r) pt))" "p = r_pos r + n"
    by (auto split: if_splits)
  obtain r' where "su_read (ring_read E) n r = (Inr (take n (drop (r_pos r) pt)), r')"
    "r_good E ct pt r'" "r_pos r' = r_pos r + n"
    by (rule r_good_su_read [OF assms(1) n])
  with that out OpRead show thesis by simp
qed

lemma run_read_ops_refines:
  assumes "r_good E ct pt r" "length ct < 2 ^ 63" "overhead E \<le> e_block_size E"
    and "spec_read_ops (computed_len E pt) pt ops (r_pos r) = Some (outs, p)"
  shows "\<exists>r'. run_read_ops E ops r = (Inr outs, r') \<and> r_good E ct pt r' \<and> r_pos r' = p"
  using assms(1,4)
proof (induction ops arbitrary: r outs)
  case (Cons op ops)
  from Cons.prems(2) obtain out p1 outs1 where
    op: "spec_read_op (computed_len E pt) pt op (r_pos r) = Some (out, p1)"
    and ops: "spec_read_ops (computed_len E pt) pt ops p1 = Some (outs1, p)" "outs = out # outs1"
    by (auto split: option.splits)
  obtain r1 where r1: "run_read_op E op r = (Inr out, r1)" "r_good E ct pt r1" "r_pos r1 = p1"
    by (rule run_read_op_refines [OF Cons.prems(1) assms(2,3) op])
  from Cons.IH [OF r1(2)] r1(3) ops(1) obtain r2 where
    "run_read_ops E ops r1 = (Inr outs1, r2)" "r_good E ct pt r2" "r_pos r2 = p" by auto
  with r1(1) ops(2) show ?case by simp
qed simp



subsection \<open>Where the code falls short\<close>

text \<open>
  When the last block of the file is full, the length the reader computes is one block
  overhead (nonce and tag, 28 bytes in the program) too short: every seek into the last bytes of
  the file, in particular to its end, stops before them.
\<close>

theorem seek_tail_unreachable:
  assumes "r_good E ct pt r" "length ct < 2 ^ 63" "overhead E \<le> e_block_size E"
    and "pt \<noteq> []" "e_block_size E dvd length pt"
    and "length pt - overhead E \<le> p" "p < 2 ^ 63"
  shows "\<exists>r'. ring_read_seek E (Start p) r = (Inr (length pt - overhead E), r')
      \<and> r_pos r' = length pt - overhead E \<and> r_good E ct pt r'"
proof -
  have len: "computed_len E pt = length pt - overhead E"
    using assms(4,5) by (simp add: computed_len_def dvd_eq_mod_eq_0)
  have t: "seek_target (computed_len E pt) (r_pos r) (Start p) = int p"
    using assms(7) by (simp add: seek_target_def)
  with ring_read_seek_ok [OF assms(1-3), of "Start p"] assms(6) show ?thesis
    by (auto simp: len min_def split: if_splits)
qed

theorem seek_tail_unreachable_witness:
  "\<exists>r r'. ring_crypto_read_new sample_env (stream_of (sample_ct (sample_pt 16))) sample_key = Inr r
     \<and> ring_read_seek sample_env (Start 16) r = (Inr 3, r')"
proof -
  obtain r where r: "ring_crypto_read_new sample_env (stream_of (sample_ct (sample_pt 16))) sample_key = Inr r"
    "r_good sample_env (sample_ct (sample_pt 16)) (sample_pt 16) r" by (rule sample_reader)
  have "length (sample_ct (sample_pt 16)) < 2 ^ 63" by (rule sample_small) simp
  from seek_tail_unreachable [OF r(2) this sample_small(2), of 16] r(1)
  show ?thesis by (auto simp: NONCE_LEN_def simp flip: length_greater_0_conv)
qed

lemma su_read_eof_state:
  assumes good: "r_good E ct pt r" "r_block_index r = 0" and pt: "pt \<noteq> []" "length pt \<le> e_block_size E"
    and n: "length pt < n"
  obtains r' where "su_read (ring_read E) n r = (Inr pt, r')" "r_inv E ct pt r'" "r_rem E pt r' = []"
    "r_pos r' = 0"
proof -
  have inv: "r_inv E ct pt r" using good by (simp add: r_good_def)
  have ok: "r_ok E r" using inv by (simp add: r_inv_def)
  note rD = r_okD [OF ok]
  have nl: "\<not> r_loaded E pt r" using good(2) by (simp add: r_loaded_def)
  with inv have "b_available (r_buf r) = 0" by (simp add: r_inv_def)
  then have av: "buf_read n (r_buf r) = (Inr [], r_buf r)"
    by (simp add: buf_read_def buf_available_read_def)
  have "r_block_index r * e_block_size E < length pt" using good(2) pt(1) by simp
  from r_decrypt_block_next [OF inv this] obtain r1 where r1: "r_decrypt_block E r = (Inr (), r1)"
    "r_inv E ct pt r1" "r_loaded E pt r1" "r_block_index r1 = 1"
    "buf_as_ref_read_available (r_buf r1) = pt"
    using good(2) pt(2) by (auto simp: chunk_def)
  have binv: "buf_inv (r_buf r1)" using r1(2) by (simp add: r_inv_def r_ok_def)
  let ?r2 = "r1\<lparr>r_buf := state_of (buf_read n (r_buf r1))\<rparr>"
  have one: "ring_read E n r = (Inr pt, ?r2)"
    using av r1(1,5) n buf_read_eq [OF binv, of n] by (simp add: ring_read_def)
  have r2: "r_inv E ct pt ?r2" "r_rem E pt ?r2 = []"
    using r_inv_buf_read [OF r1(2,3), of n] r1(4,5) n pt(2) by simp_all
  let ?r3 = "?r2\<lparr>r_buf := buf_clear (r_buf ?r2)\<rparr>"
  have two: "ring_read E (n - length pt) ?r2 = (Inr [], ?r3) \<and> r_inv E ct pt ?r3 \<and> r_rem E pt ?r3 = []"
    using ring_read_cases [OF r2(1), of "n - length pt"] r2(2) n by auto
  have "su_read (ring_read E) n r = (Inr pt, ?r3)"
    using one two pt(1) n by (simp add: su_read_def read_loop.simps [of _ n "[]"] read_loop.simps [of _ n pt])
  moreover have "r_pos ?r3 = 0" using r1(4) by (simp add: r_pos_def)
  ultimately show thesis using that two by blast
qed

text \<open>
  For a file of a single block, a read that reaches the end of the stream and then a seek
  back to the start leaves a reader that answers \<open>Ok(0)\<close> to the seek and delivers nothing.
\<close>

theorem rewind_after_eof_reads_nothing:
  assumes "r_good E ct pt r" "r_block_index r = 0" "pt \<noteq> []" "length pt \<le> e_block_size E"
    and "length ct < 2 ^ 63" "overhead E \<le> e_block_size E" "length pt < n" "0 < m"
  shows "\<exists>r'. run_read_ops E [OpRead n, OpSeek (Start 0), OpRead m] r =
      (Inr [OutData pt, OutPos 0, OutData []], r')"
proof -
  obtain r1 where r1: "su_read (ring_read E) n r = (Inr pt, r1)" "r_inv E ct pt r1" "r_rem E pt r1 = []"
      "r_pos r1 = 0"
    using su_read_eof_state [OF assms(1-4,7)] by blast
  have seek: "ring_read_seek E (Start 0) r1 = (Inr 0, r1)"
    using r_get_plaintext_len_eq [OF r1(2) assms(5,6)] r1(4) by (simp add: ring_read_seek_def Let_def)
  obtain r2 where "su_read (ring_read E) m r1 = (Inr [], r2)"
    using crypto_reader.su_read_ok [OF r1(2) assms(8)] r1(3) by auto
  with r1(1) seek show ?thesis by simp
qed

theorem rewind_after_eof_reads_nothing_witness:
  "\<exists>r r'. ring_crypto_read_new sample_env (stream_of (sample_ct [10, 20, 30])) sample_key = Inr r
     \<and> run_read_ops sample_env [OpRead 4, OpSeek (Start 0), OpRead 3] r =
         (Inr [OutData [10, 20, 30], OutPos 0, OutData []], r')"
proof -
  obtain r where r: "ring_crypto_read_new sample_env (stream_of (sample_ct [10, 20, 30])) sample_key = Inr r"
    "r_good sample_env (sample_ct [10, 20, 30]) [10, 20, 30] r" "r_block_index r = 0" by (rule sample_reader)
  have s: "length (sample_ct [10, 20, 30]) < 2 ^ 63" by (rule sample_small) simp
  have "\<exists>r'. run_read_ops sample_env [OpRead 4, OpSeek (Start 0), OpRead 3] r =
      (Inr [OutData [10, 20, 30], OutPos 0, OutData []], r')"
    by (rule rewind_after_eof_reads_nothing [OF r(2,3) _ _ s sample_small(2)]) simp_all
  with r(1) show ?thesis by blast
qed

subsection \<open>Editing a file in place\<close>

text \<open>
  The operations a handle performs on its writer, and the specification: the plaintext and a
  position in it. A seek beyond the end extends the plaintext with zeros; a flush changes nothing.
  The guards of seek and flush are \<open>ws_seek_guard\<close> and \<open>ws_flush_guard\<close>; without them the code goes
  wrong (below).
\<close>

datatype write_op = OpSeekTo nat | OpWrite bytes | OpFlush

primrec run_write_op :: "aead_env \<Rightarrow> write_op \<Rightarrow> (ring_crypto_write_seek, io_error, unit) sem" where
  "run_write_op E (OpSeekTo n) = bnd (ws_seek E (Start n)) (\<lambda>_. ret ())"
| "run_write_op E (OpWrite d) = write_all (ws_write E) d"
| "run_write_op E OpFlush = ws_flush E"

primrec spec_write_op :: "nat \<Rightarrow> write_op \<Rightarrow> bytes \<times> nat \<Rightarrow> (bytes \<times> nat) option" where
  "spec_write_op b (OpSeekTo n) c = (case c of (pt, p) \<Rightarrow>
     if n < 2 ^ 63 \<and> ws_seek_guard b pt p n then Some (pt @ replicate (n - length pt) 0, n) else None)"
| "spec_write_op b (OpWrite d) c = (case c of (pt, p) \<Rightarrow> Some (overlay pt p d, p + length d))"
| "spec_write_op b OpFlush c = (case c of (pt, p) \<Rightarrow> if ws_flush_guard b pt p then Some (pt, p) else None)"

primrec spec_write_ops :: "nat \<Rightarrow> write_op list \<Rightarrow> bytes \<times> nat \<Rightarrow> (bytes \<times> nat) option" where
  "spec_write_ops b [] c = Some c"
| "spec_write_ops b (op # ops) c = (case spec_write_op b op c of None \<Rightarrow> None | Some c' \<Rightarrow> spec_write_ops b ops c')"

text \<open>A session: open the writer on a file, run the operations, finish.\<close>

definition edit_file :: "aead_env \<Rightarrow> nat \<Rightarrow> bytes \<Rightarrow> write_op list \<Rightarrow> bytes \<Rightarrow> io_error + bytes" where
  "edit_file E seed key ops ct =
     (case ws_new E seed (stream_of ct) key of Inl e \<Rightarrow> Inl e
      | Inr s \<Rightarrow> (case result_of (bnd (for_each (run_write_op E) ops) (\<lambda>_. ws_finish E) s) of
          Inl e \<Rightarrow> Inl e | Inr out \<Rightarrow> Inr (sdata out)))"

definition edit_and_read :: "aead_env \<Rightarrow> nat \<Rightarrow> bytes \<Rightarrow> write_op list \<Rightarrow> bytes \<Rightarrow> io_error + bytes" where
  "edit_and_read E seed key ops ct =
     (case edit_file E seed key ops ct of Inl e \<Rightarrow> Inl e | Inr ct' \<Rightarrow> read_prefix E key ct' (length ct' + 1))"

lemma run_write_op_refines:
  assumes "ws_rel E key s pt p" "spec_write_op (e_block_size E) op (pt, p) = Some (pt', p')"
  shows "\<exists>s'. run_write_op E op s = (Inr (), s') \<and> ws_rel E key s' pt' p'"
proof (cases op)
  case (OpSeekTo n)
  with assms(2) ws_seek_ok [OF assms(1), of n] show ?thesis by (auto split: if_splits)
next
  case (OpWrite d)
  with assms(2) ws_writer.write_all_at [OF assms(1), of d] show ?thesis by auto
next
  case OpFlush
  with assms(2) ws_flush_ok [OF assms(1)] show ?thesis by (auto split: if_splits)
qed

lemma run_write_ops_refines:
  assumes "ws_rel E key s pt p" "spec_write_ops (e_block_size E) ops (pt, p) = Some (pt', p')"
  shows "\<exists>s'. for_each (run_write_op E) ops s = (Inr (), s') \<and> ws_rel E key s' pt' p'"
  using assms
proof (induction ops arbitrary: s pt p)
  case (Cons op ops)
  from Cons.prems(2) obtain pt1 p1 where op: "spec_write_op (e_block_size E) op (pt, p) = Some (pt1, p1)"
    "spec_write_ops (e_block_size E) ops (pt1, p1) = Some (pt', p')" by (auto split: option.splits)
  obtain s1 where s1: "run_write_op E op s = (Inr (), s1)" "ws_rel E key s1 pt1 p1"
    using run_write_op_refines [OF Cons.prems(1) op(1)] by blast
  from Cons.IH [OF s1(2) op(2)] s1(1) show ?case by auto
qed simp



text \<open>
  Without the guard the buffer keeps stale content. On a file of exactly one full block, a seek
  into the block followed by a seek behind the end and a write duplicates the first block instead
  of filling the gap with zeros.
\<close>

theorem seek_past_full_block_duplicates:
  "edit_and_read sample_env 9 sample_key [OpSeekTo 5, OpSeekTo 19, OpWrite [99]] (sample_ct (sample_pt 16)) =
     Inr (sample_pt 16 @ overlay (sample_pt 16) 3 [99])"
  by code_simp

text \<open>
  A flush at a block boundary inside the file seals the block without loading the next one; the
  next write then replaces the whole following block by a short one, and what is left of the old
  block behind it makes the file unreadable: reading it back fails to authenticate.
\<close>

theorem flush_at_block_boundary_corrupts:
  "edit_and_read sample_env 9 sample_key [OpWrite (replicate 16 1), OpFlush, OpWrite [2]] (sample_ct (sample_pt 20)) =
     Inl (IoErr Other ''error opening within'')"
  by code_simp

subsection \<open>Corrupted files\<close>

text \<open>
  C8: whatever the bytes of a file are, a read that succeeds returns a prefix of the plaintexts of
  its leading blocks, each of which was opened under the key with the index of its position: data
  that does not authenticate, or that was moved to another place, is never returned.
\<close>

theorem read_returns_authenticated_data:
  assumes "aead_ok E" "0 < n" "read_prefix E key ct n = Inr d"
  shows "\<exists>k rest. authentic E key ct k \<and> d @ rest = opened E key ct k \<and> length d \<le> n"
proof -
  obtain r r' where r: "ring_crypto_read_new E (stream_of ct) key = Inr r" "su_read (ring_read E) n r = (Inr d, r')"
    using assms(3) by (auto simp: read_prefix_def split: sum.splits prod.splits dest: prod_eqI)
      (metis prod.collapse)
  from a_inv_read_loop [of E key ct "[]" r n d r'] a_inv_new [OF assms(1) r(1)] r(2) assms(2)
  have "a_inv E key ct d r'" "length d \<le> n" by (auto simp: su_read_def)
  then show ?thesis by (auto simp: a_inv_def)
qed

theorem read_returns_authenticated_data_witness:
  "\<exists>k rest. authentic sample_env sample_key (sample_ct [10, 20, 30]) k
     \<and> [10, 20] @ rest = opened sample_env sample_key (sample_ct [10, 20, 30]) k"
proof -
  have "read_prefix sample_env sample_key (sample_ct [10, 20, 30]) 2 = Inr [10, 20]" by code_simp
  from read_returns_authenticated_data [OF sample_env_ok _ this] show ?thesis by auto
qed

lemma read_prefix_unopened:
  assumes "aead_ok E" "length key = e_key_len E" "0 < n" "NONCE_LEN \<le> length ct"
    and "open_block E key 0 (take (ciphertext_block_size E) ct) = None"
  shows "read_prefix E key ct n = Inl (IoErr Other ''error opening within'')"
proof -
  let ?c = "ciphertext_block_size E"
  obtain r where r: "ring_crypto_read_new E (stream_of ct) key = Inr r"
      "r_input r = Some (stream_of ct)" "r_key r = key" "r_buf r = buf_new (replicate ?c 0)" "r_block_index r = 0"
    using assms(2) by (auto simp: ring_crypto_read_new_def Let_def ciphertext_block_size_def)
  let ?d = "\<lparr>d_block_index = 0, d_buf = r_buf r, d_input = stream_of ct, d_last_nonce = r_last_nonce r\<rparr>"
  have "result_of (decrypt_block E key ?d) = Inl (IoErr Other ''error opening within'')"
    using assms(4,5) r(4) by (intro decrypt_block_run(2)) (simp_all add: ciphertext_block_size_def)
  then obtain d' where "decrypt_block E key ?d = (Inl (IoErr Other ''error opening within''), d')"
    by (metis prod.collapse)
  then obtain r' where "r_decrypt_block E r = (Inl (IoErr Other ''error opening within''), r')"
    using r by (auto simp: r_decrypt_block_def)
  moreover have "buf_read n (r_buf r) = (Inr [], r_buf r)" using r(4) by (simp add: buf_read_def buf_available_read_def)
  ultimately have "ring_read E n r = (Inl (IoErr Other ''error opening within''), r')" by (simp add: ring_read_def)
  then show ?thesis using r(1) by (simp add: read_prefix_def su_read_def read_loop.simps)
qed

text \<open>
  A first block that is long enough to hold a nonce but does not authenticate makes every
  nonempty read fail with the error of the code.
\<close>

theorem corrupted_first_block_rejected:
  assumes "aead_ok E" "length key = e_key_len E" "0 < n" "NONCE_LEN \<le> length ct"
    and "open_block E key 0 (take (ciphertext_block_size E) ct) = None"
  shows "read_prefix E key ct n = Inl (IoErr Other ''error opening within'')"
  using assms by (rule read_prefix_unopened)

theorem corrupted_first_block_rejected_witness:
  "read_prefix sample_env sample_key ((sample_ct [10, 20, 30])[13 := 0]) 2 = Inl (IoErr Other ''error opening within'')"
proof -
  have "NONCE_LEN \<le> length ((sample_ct [10, 20, 30])[13 := 0])" by (simp add: length_sample_ct NONCE_LEN_def)
  moreover have "open_block sample_env sample_key 0
      (take (ciphertext_block_size sample_env) ((sample_ct [10, 20, 30])[13 := 0])) = None" by code_simp
  ultimately show ?thesis by (intro corrupted_first_block_rejected sample_env_ok) simp_all
qed

end
