(* ===== verification/Crypto.thy ===== *)
theory Crypto
  imports Crypto_Stream
begin

text \<open>
  Model of \<open>src/crypto.rs\<close>: the ciphers, the constructors of readers and writers, encryption of
  strings and file names, key derivation, serialisation into encrypted files and copying ranges
  out of them.

  Code outside the repository is the record \<open>crypto_env\<close>: the AEAD of each cipher, base64, hex,
  BLAKE3 and Argon2. What is relied on is \<open>crypto_ok\<close>. A Rust \<open>String\<close> is its UTF-8 bytes, a
  list of characters; reading a \<open>String\<close> back checks UTF-8.
\<close>

subsection \<open>Parameters\<close>

datatype cipher = ChaCha20Poly1305 | Aes256Gcm

record crypto_env =
  k_aead :: "cipher \<Rightarrow> aead_env"
  k_b64_encode :: "bytes \<Rightarrow> string"
  k_b64_decode :: "string \<Rightarrow> bytes option"
  k_hex_encode :: "bytes \<Rightarrow> string"
  k_blake3 :: "bytes \<Rightarrow> bytes"
  k_argon2 :: "bytes \<Rightarrow> bytes \<Rightarrow> nat \<Rightarrow> string + bytes"

datatype crypto_error = CryptoIo io_error | CryptoDecode | CryptoSerialize | CryptoGeneric string

text \<open>
  Base64 decodes what it encodes and its alphabet has no \<open>|\<close>; Argon2 fills the output buffer.
\<close>

definition crypto_ok :: "crypto_env \<Rightarrow> bool" where
  "crypto_ok K \<longleftrightarrow> (\<forall>c. aead_ok (k_aead K c))
     \<and> (\<forall>b. k_b64_decode K (k_b64_encode K b) = Some b)
     \<and> (\<forall>b. CHR ''|'' \<notin> set (k_b64_encode K b))
     \<and> (\<forall>p s n dk. k_argon2 K p s n = Inr dk \<longrightarrow> length dk = n)"

subsection \<open>Strings\<close>

definition as_bytes :: "string \<Rightarrow> bytes" where
  "as_bytes s = map (\<lambda>c. word_of_nat (of_char c)) s"

definition string_of_bytes :: "bytes \<Rightarrow> string" where
  "string_of_bytes b = map (\<lambda>x. char_of (unat x)) b"

definition u8_in :: "nat \<Rightarrow> nat \<Rightarrow> byte \<Rightarrow> bool" where
  "u8_in lo hi b \<longleftrightarrow> lo \<le> unat b \<and> unat b \<le> hi"

text \<open>\<open>core::str\<close>'s validation, by the leading byte of each character.\<close>

fun utf8_ok :: "bytes \<Rightarrow> bool" where
  "utf8_ok [] = True"
| "utf8_ok (a # r) =
     (if u8_in 0 127 a then utf8_ok r
      else if u8_in 194 223 a then (case r of b # r' \<Rightarrow> u8_in 128 191 b \<and> utf8_ok r' | _ \<Rightarrow> False)
      else if u8_in 224 239 a then
        (case r of b # c # r' \<Rightarrow>
           (if unat a = 224 then u8_in 160 191 b else if unat a = 237 then u8_in 128 159 b else u8_in 128 191 b)
           \<and> u8_in 128 191 c \<and> utf8_ok r'
         | _ \<Rightarrow> False)
      else if u8_in 240 244 a then
        (case r of b # c # d # r' \<Rightarrow>
           (if unat a = 240 then u8_in 144 191 b else if unat a = 244 then u8_in 128 143 b else u8_in 128 191 b)
           \<and> u8_in 128 191 c \<and> u8_in 128 191 d \<and> utf8_ok r'
         | _ \<Rightarrow> False)
      else False)"

definition replace_chars :: "char set \<Rightarrow> char \<Rightarrow> string \<Rightarrow> string" where
  "replace_chars from to s = map (\<lambda>c. if c \<in> from then to else c) s"

subsection \<open>Ciphers, readers and writers\<close>

definition key_len :: "crypto_env \<Rightarrow> cipher \<Rightarrow> nat" where
  "key_len K c = e_key_len (k_aead K c)"

definition max_plaintext_len :: "cipher \<Rightarrow> nat" where
  "max_plaintext_len c = (case c of ChaCha20Poly1305 \<Rightarrow> (2 ^ 32 - 1) * 64 | Aes256Gcm \<Rightarrow> (2 ^ 39 - 256) div 8)"

definition create_write :: "crypto_env \<Rightarrow> nat \<Rightarrow> stream \<Rightarrow> cipher \<Rightarrow> bytes \<Rightarrow> io_error + ring_crypto_write" where
  "create_write K seed writer c key = ring_crypto_write_new (k_aead K c) seed writer key"

definition create_write_seek :: "crypto_env \<Rightarrow> nat \<Rightarrow> stream \<Rightarrow> cipher \<Rightarrow> bytes \<Rightarrow> io_error + ring_crypto_write_seek" where
  "create_write_seek K seed writer c key = ws_new (k_aead K c) seed writer key"

definition create_read :: "crypto_env \<Rightarrow> stream \<Rightarrow> cipher \<Rightarrow> bytes \<Rightarrow> io_error + ring_crypto_read" where
  "create_read K reader c key = ring_crypto_read_new (k_aead K c) reader key"

definition create_read_seek :: "crypto_env \<Rightarrow> stream \<Rightarrow> cipher \<Rightarrow> bytes \<Rightarrow> io_error + ring_crypto_read" where
  "create_read_seek K reader c key = ring_crypto_read_new (k_aead K c) reader key"

text \<open>
  Writing the pieces a serialiser produces through a fresh writer and finishing it; reading
  everything a fresh reader delivers (the buffer is larger than the file, so it is never filled).
\<close>

definition write_pieces :: "crypto_env \<Rightarrow> nat \<Rightarrow> cipher \<Rightarrow> bytes \<Rightarrow> bytes list \<Rightarrow> io_error + bytes" where
  "write_pieces K seed c key ds =
     (case create_write K seed (stream_of []) c key of Inl e \<Rightarrow> Inl e
      | Inr w \<Rightarrow> (case result_of (bnd (for_each (write_all (ring_write (k_aead K c))) ds)
                    (\<lambda>_. ring_finish (k_aead K c)) w) of
          Inl e \<Rightarrow> Inl e | Inr s \<Rightarrow> Inr (sdata s)))"

definition read_to_end :: "crypto_env \<Rightarrow> cipher \<Rightarrow> bytes \<Rightarrow> bytes \<Rightarrow> io_error + bytes" where
  "read_to_end K c key ct =
     (case create_read K (stream_of ct) c key of Inl e \<Rightarrow> Inl e
      | Inr r \<Rightarrow> result_of (su_read (ring_read (k_aead K c)) (length ct + 1) r))"

subsection \<open>Strings and file names\<close>

definition encrypt :: "crypto_env \<Rightarrow> nat \<Rightarrow> string \<Rightarrow> cipher \<Rightarrow> bytes \<Rightarrow> crypto_error + string" where
  "encrypt K seed s c key =
     (case write_pieces K seed c key [as_bytes s] of Inl e \<Rightarrow> Inl (CryptoIo e)
      | Inr v \<Rightarrow> Inr (k_b64_encode K v))"

definition decrypt :: "crypto_env \<Rightarrow> string \<Rightarrow> cipher \<Rightarrow> bytes \<Rightarrow> crypto_error + string" where
  "decrypt K s c key =
     (case k_b64_decode K s of None \<Rightarrow> Inl CryptoDecode
      | Some v \<Rightarrow> (case read_to_end K c key v of Inl e \<Rightarrow> Inl (CryptoIo e)
          | Inr d \<Rightarrow> if utf8_ok d then Inr (string_of_bytes d)
              else Inl (CryptoIo (IoErr InvalidData ''stream did not contain valid UTF-8''))))"

definition decrypt_file_name :: "crypto_env \<Rightarrow> string \<Rightarrow> cipher \<Rightarrow> bytes \<Rightarrow> crypto_error + string" where
  "decrypt_file_name K name c key = decrypt K (replace_chars {CHR ''|''} (CHR ''/'') name) c key"

definition derive_key :: "crypto_env \<Rightarrow> string \<Rightarrow> cipher \<Rightarrow> bytes \<Rightarrow> crypto_error + bytes" where
  "derive_key K password c salt =
     (case k_argon2 K (as_bytes password) salt (key_len K c) of Inl e \<Rightarrow> Inl (CryptoGeneric e) | Inr dk \<Rightarrow> Inr dk)"

definition normalize_name :: "string \<Rightarrow> string" where
  "normalize_name = replace_chars {CHR ''/'', CHR 0x5C} (CHR '' '')"

definition encrypt_file_name :: "crypto_env \<Rightarrow> nat \<Rightarrow> string \<Rightarrow> cipher \<Rightarrow> bytes \<Rightarrow> crypto_error + string" where
  "encrypt_file_name K seed name c key =
     (if name = ''$.'' \<or> name = ''$..'' then Inr name
      else if name = ''.'' \<or> name = ''..'' then Inr (CHR ''$'' # name)
      else (case encrypt K seed (normalize_name name) c key of Inl e \<Rightarrow> Inl e
        | Inr e \<Rightarrow> Inr (replace_chars {CHR ''/''} (CHR ''|'') e)))"

text \<open>BLAKE3 of a slice, a string and a vector.\<close>

definition hash :: "crypto_env \<Rightarrow> bytes \<Rightarrow> bytes" where
  "hash K d = k_blake3 K d"

definition hash_secret_string :: "crypto_env \<Rightarrow> string \<Rightarrow> bytes" where
  "hash_secret_string K d = hash K (as_bytes d)"

definition hash_secret_vec :: "crypto_env \<Rightarrow> bytes \<Rightarrow> bytes" where
  "hash_secret_vec K d = hash K d"

definition hash_file_name :: "crypto_env \<Rightarrow> string \<Rightarrow> string" where
  "hash_file_name K name =
     (if name = ''$.'' \<or> name = ''$..'' then name
      else if name = ''.'' \<or> name = ''..'' then CHR ''$'' # name
      else k_hex_encode K (hash_secret_string K name))"

subsection \<open>Files\<close>

text \<open>
  \<open>serialize_encrypt_into\<close>: \<open>ds\<close> are the pieces \<open>bincode\<close> writes for the value. In
  \<open>atomic_serialize_encrypt_into\<close> the target is replaced only by a complete file.
\<close>

definition serialize_encrypt_into :: "crypto_env \<Rightarrow> nat \<Rightarrow> bytes list \<Rightarrow> cipher \<Rightarrow> bytes \<Rightarrow> crypto_error + bytes" where
  "serialize_encrypt_into K seed ds c key =
     (case write_pieces K seed c key ds of Inl e \<Rightarrow> Inl (CryptoIo e) | Inr ct \<Rightarrow> Inr ct)"

definition atomic_serialize_encrypt_into ::
  "crypto_env \<Rightarrow> nat \<Rightarrow> bytes list \<Rightarrow> cipher \<Rightarrow> bytes \<Rightarrow> (bytes option, crypto_error, unit) sem" where
  "atomic_serialize_encrypt_into K seed ds c key =
     bnd (lift (serialize_encrypt_into K seed ds c key)) (\<lambda>ct. modif (\<lambda>_. Some ct))"

text \<open>
  \<open>copy_from_file\<close> from a file with bytes \<open>ct\<close> (\<open>None\<close>: it does not exist) to a writer.
\<close>

definition copy_from_file ::
  "crypto_env \<Rightarrow> bytes option \<Rightarrow> nat \<Rightarrow> nat \<Rightarrow> cipher \<Rightarrow> bytes \<Rightarrow> (bytes \<Rightarrow> ('w, io_error, nat) sem) \<Rightarrow> bool
     \<Rightarrow> ('w, io_error, nat) sem" where
  "copy_from_file K file pos len c key wr stop_on_eof = (\<lambda>w.
     if len = 0 then (Inr 0, w)
     else case file of None \<Rightarrow> (Inl (IoErr NotFound ''No such file or directory''), w)
     | Some ct \<Rightarrow>
        if ct = [] then (Inr 0, w)
        else case create_read K (stream_of ct) c key of Inl e \<Rightarrow> (Inl e, w)
        | Inr r \<Rightarrow>
           (case seek_forward (ring_read (k_aead K c)) pos stop_on_eof r of
              (Inl e, _) \<Rightarrow> (Inl e, w)
            | (Inr pos2, r') \<Rightarrow>
                if pos2 < pos then (if stop_on_eof then (Inr 0, w) else (Inl unexpected_eof, w))
                else (case copy (ring_read (k_aead K c)) wr len stop_on_eof (r', w) of
                  (res, (_, w')) \<Rightarrow> (res, w'))))"

definition copy_from_file_exact ::
  "crypto_env \<Rightarrow> bytes option \<Rightarrow> nat \<Rightarrow> nat \<Rightarrow> cipher \<Rightarrow> bytes \<Rightarrow> (bytes \<Rightarrow> ('w, io_error, nat) sem)
     \<Rightarrow> ('w, io_error, unit) sem" where
  "copy_from_file_exact K file pos len c key wr = bnd (copy_from_file K file pos len c key wr False) (\<lambda>_. ret ())"

subsection \<open>Lemmas\<close>

lemma crypto_okD:
  assumes "crypto_ok K"
  shows "aead_ok (k_aead K c)" "k_b64_decode K (k_b64_encode K b) = Some b" "CHR ''|'' \<notin> set (k_b64_encode K b)"
  using assms by (auto simp: crypto_ok_def)

lemma string_of_as_bytes [simp]: "string_of_bytes (as_bytes s) = s"
proof -
  have "unat (word_of_nat (of_char c) :: byte) = of_char c" for c
    by (simp add: unsigned_of_nat take_bit_eq_mod)
  then show ?thesis by (simp add: string_of_bytes_def as_bytes_def o_def)
qed

lemma write_pieces_eq: "write_pieces K seed c key ds = encrypt_pieces (k_aead K c) seed key ds"
  by (simp add: write_pieces_def encrypt_pieces_def create_write_def)

lemma read_to_end_eq: "read_to_end K c key ct = read_prefix (k_aead K c) key ct (length ct + 1)"
  unfolding read_to_end_def read_prefix_def create_read_def ..

lemma enc_file_length_le: "enc_file E key ct pt \<Longrightarrow> length pt \<le> length ct"
  by (simp add: enc_file_def)

text \<open>The contract of encrypted storage: what is written is what is read.\<close>

lemma write_pieces_ok:
  assumes "crypto_ok K" "length key = key_len K c"
  obtains ct where "write_pieces K seed c key ds = Inr ct" "enc_file (k_aead K c) key ct (concat ds)"
    "read_to_end K c key ct = Inr (concat ds)"
proof -
  have E: "aead_ok (k_aead K c)" "length key = e_key_len (k_aead K c)" using assms by (auto simp: crypto_ok_def key_len_def)
  obtain ct where ct: "encrypt_pieces (k_aead K c) seed key ds = Inr ct" "enc_file (k_aead K c) key ct (concat ds)"
    using encrypt_pieces_ok [OF E] by blast
  have "read_to_end K c key ct = Inr (take (length ct + 1) (concat ds))"
    unfolding read_to_end_eq by (rule read_prefix_ok [OF E ct(2)]) simp
  with enc_file_length_le [OF ct(2)] have "read_to_end K c key ct = Inr (concat ds)" by simp
  with that ct show thesis by (simp add: write_pieces_eq)
qed

lemma replace_chars_inverse: "x \<notin> set s \<Longrightarrow> replace_chars {x} y (replace_chars {y} x s) = s"
  by (induction s) (auto simp: replace_chars_def)

lemma normalize_name_id: "CHR ''/'' \<notin> set s \<Longrightarrow> CHR 0x5C \<notin> set s \<Longrightarrow> normalize_name s = s"
  by (induction s) (auto simp: replace_chars_def normalize_name_def)

lemma file_name_decrypts:
  assumes "crypto_ok K" "length key = key_len K c" "utf8_ok (as_bytes (normalize_name name))"
    and "name \<notin> {''$.'', ''$..'', ''.'', ''..''}"
  obtains e where "encrypt_file_name K seed name c key = Inr e" "decrypt_file_name K e c key = Inr (normalize_name name)"
proof -
  obtain ct where ct: "write_pieces K seed c key [as_bytes (normalize_name name)] = Inr ct"
      "read_to_end K c key ct = Inr (as_bytes (normalize_name name))"
    using write_pieces_ok [OF assms(1,2), of seed "[as_bytes (normalize_name name)]"] by auto
  let ?e = "replace_chars {CHR ''/''} (CHR ''|'') (k_b64_encode K ct)"
  have "replace_chars {CHR ''|''} (CHR ''/'') ?e = k_b64_encode K ct"
    by (rule replace_chars_inverse [OF crypto_okD(3) [OF assms(1)]])
  then have "decrypt_file_name K ?e c key = Inr (normalize_name name)"
    using ct(2) assms(3) by (simp add: decrypt_file_name_def decrypt_def crypto_okD(2) [OF assms(1)])
  moreover have "encrypt_file_name K seed name c key = Inr ?e"
    using assms(4) ct(1) by (simp add: encrypt_file_name_def encrypt_def)
  ultimately show thesis using that by blast
qed

subsection \<open>A concrete environment\<close>

definition hex_digit :: "nat \<Rightarrow> char" where
  "hex_digit n = ''0123456789abcdef'' ! n"

fun hex_value :: "char \<Rightarrow> nat" where
  "hex_value c = (if c \<in> set ''abcdef'' then of_char c - 87 else of_char c - 48)"

definition sample_encode :: "bytes \<Rightarrow> string" where
  "sample_encode b = concat (map (\<lambda>x. [hex_digit (unat x div 16), hex_digit (unat x mod 16)]) b)"

fun sample_decode :: "string \<Rightarrow> bytes option" where
  "sample_decode [] = Some []"
| "sample_decode [c] = None"
| "sample_decode (c # d # r) = (case sample_decode r of None \<Rightarrow> None
     | Some b \<Rightarrow> Some (word_of_nat (hex_value c * 16 + hex_value d) # b))"

definition sample_crypto :: crypto_env where
  "sample_crypto = \<lparr>k_aead = (\<lambda>_. sample_env), k_b64_encode = sample_encode, k_b64_decode = sample_decode,
     k_hex_encode = sample_encode, k_blake3 = (\<lambda>b. b),
     k_argon2 = (\<lambda>p s n. Inr (take n (p @ s @ replicate n 0)))\<rparr>"

lemma sample_crypto_sel [simp]:
  "k_aead sample_crypto c = sample_env" "k_b64_encode sample_crypto = sample_encode"
  "k_b64_decode sample_crypto = sample_decode" "k_hex_encode sample_crypto = sample_encode"
  "k_blake3 sample_crypto = (\<lambda>b. b)"
  by (simp_all add: sample_crypto_def)

lemma hex_value_digit:
  assumes "n < 16"
  shows "hex_value (hex_digit n) = n" "hex_digit n \<noteq> CHR ''|''"
proof -
  have "\<forall>n \<in> set [0..<16]. hex_value (hex_digit n) = n \<and> hex_digit n \<noteq> CHR ''|''" by code_simp
  with assms show "hex_value (hex_digit n) = n" "hex_digit n \<noteq> CHR ''|''" by auto
qed

lemma sample_decode_encode: "sample_decode (sample_encode b) = Some b"
proof (induction b)
  case (Cons x b)
  have "unat x < 256" using unsigned_less [of x] by simp
  then have "unat x div 16 < 16" "unat x mod 16 < 16" by (simp_all add: less_mult_imp_div_less)
  then have "word_of_nat (hex_value (hex_digit (unat x div 16)) * 16 + hex_value (hex_digit (unat x mod 16))) = x"
    by (simp only: hex_value_digit div_mult_mod_eq) simp
  with Cons show ?case by (simp add: sample_encode_def)
qed (simp add: sample_encode_def)

lemma sample_encode_no_bar: "CHR ''|'' \<notin> set (sample_encode b)"
proof -
  have "unat x < 256" for x :: byte using unsigned_less [of x] by simp
  then have "unat x div 16 < 16" "unat x mod 16 < 16" for x :: byte by (simp_all add: less_mult_imp_div_less)
  then have "hex_digit (unat x div 16) \<noteq> CHR ''|''" "hex_digit (unat x mod 16) \<noteq> CHR ''|''" for x :: byte
    by (simp_all add: hex_value_digit(2))
  then show ?thesis by (simp add: sample_encode_def) metis
qed

lemma sample_crypto_ok: "crypto_ok sample_crypto"
  using sample_env_ok sample_decode_encode sample_encode_no_bar
  by (auto simp: crypto_ok_def) (auto simp: sample_crypto_def)

subsection \<open>Properties\<close>

text \<open>
  C32: an ordinary file name is stored under a name that decrypts to it, with every slash and
  backslash replaced by a space; in particular names without them round-trip.
\<close>

theorem file_name_roundtrip:
  assumes "crypto_ok K" "length key = key_len K c" "utf8_ok (as_bytes (normalize_name name))"
    and "name \<notin> {''$.'', ''$..'', ''.'', ''..''}"
  shows "\<exists>e. encrypt_file_name K seed name c key = Inr e
      \<and> decrypt_file_name K e c key = Inr (normalize_name name)
      \<and> (CHR ''/'' \<notin> set name \<and> CHR 0x5C \<notin> set name \<longrightarrow> normalize_name name = name)"
proof -
  obtain e where "encrypt_file_name K seed name c key = Inr e" "decrypt_file_name K e c key = Inr (normalize_name name)"
    by (rule file_name_decrypts [OF assms])
  with normalize_name_id show ?thesis by blast
qed

theorem file_name_roundtrip_witness:
  "\<exists>e. encrypt_file_name sample_crypto 3 ''a.txt'' Aes256Gcm sample_key = Inr e
     \<and> decrypt_file_name sample_crypto e Aes256Gcm sample_key = Inr ''a.txt''"
proof -
  have "utf8_ok (as_bytes (normalize_name ''a.txt''))" "normalize_name ''a.txt'' = ''a.txt''" by code_simp+
  moreover have "length sample_key = key_len sample_crypto Aes256Gcm" by (simp add: key_len_def)
  ultimately show ?thesis
    using file_name_roundtrip [OF sample_crypto_ok, of sample_key Aes256Gcm "''a.txt''" 3] by auto
qed

interpretation crypto_pipe: io_pipe "ring_read E" "r_rem E pt" "r_inv E ct pt" stream_write sdata at_end for E ct pt
  by unfold_locales

text \<open>
  C33: copying a range out of an encrypted file appends exactly the requested plaintext bytes to the
  destination; with \<open>stop_on_eof\<close> the range is cut at the end of the file, without it a range that
  does not lie inside the file is the error the code documents.
\<close>

theorem copy_from_file_copies:
  assumes "crypto_ok K" "length key = key_len K c" "enc_file (k_aead K c) key ct pt" "at_end w"
  shows "(pos \<le> length pt \<and> (stop \<or> pos + len \<le> length pt) \<longrightarrow>
        (\<exists>w'. copy_from_file K (Some ct) pos len c key stream_write stop w = (Inr (min len (length pt - pos)), w')
          \<and> sdata w' = sdata w @ take len (drop pos pt)))
      \<and> (length pt < pos \<and> 0 < len \<and> pt \<noteq> [] \<longrightarrow>
        result_of (copy_from_file K (Some ct) pos len c key stream_write False w) = Inl unexpected_eof)"
proof -
  let ?E = "k_aead K c"
  have E: "aead_ok ?E" using assms(1) by (simp add: crypto_ok_def)
  obtain r where r: "create_read K (stream_of ct) c key = Inr r"
    using assms(2) by (simp add: create_read_def ring_crypto_read_new_def Let_def key_len_def)
  note new = r_inv_new [OF E assms(3) r [unfolded create_read_def]]
  have e: "ct = [] \<longleftrightarrow> pt = []" by (rule enc_file_empty_iff [OF assms(3) E])
  have go: "\<exists>w'. copy_from_file K (Some ct) pos len c key stream_write stop w = (Inr (min len (length pt - pos)), w')
      \<and> sdata w' = sdata w @ take len (drop pos pt)"
    if a: "pos \<le> length pt" "stop \<or> pos + len \<le> length pt" for stop
  proof (cases "len = 0 \<or> pt = []")
    case True
    with e show ?thesis by (auto simp: copy_from_file_def)
  next
    case False
    obtain r1 where r1: "seek_forward (ring_read ?E) pos stop r = (Inr pos, r1)" "r_rem ?E pt r1 = drop pos pt" "r_inv ?E ct pt r1"
      using crypto_reader.seek_forward_ok [OF new(1), of stop pos] new(2) a by (auto simp: min_absorb1)
    obtain r2 w' where "copy (ring_read ?E) stream_write len stop (r1, w) = (Inr (min len (length pt - pos)), (r2, w'))"
      "sdata w' = sdata w @ take len (drop pos pt)"
      using crypto_pipe.copy_ok [OF r1(3) assms(4), of stop len, unfolded r1(2) length_drop] a(2)
      by (auto simp: le_diff_conv2 [OF a(1)] add.commute)
    with False e r r1(1) show ?thesis by (simp add: copy_from_file_def)
  qed
  have eof: "result_of (copy_from_file K (Some ct) pos len c key stream_write False w) = Inl unexpected_eof"
    if a: "length pt < pos" "0 < len" "pt \<noteq> []"
  proof -
    obtain r1 where "seek_forward (ring_read ?E) pos False r = (Inl unexpected_eof, r1)"
      using crypto_reader.seek_forward_eof [OF new(1), of pos] new(2) a(1) by auto
    with a e r show ?thesis by (simp add: copy_from_file_def)
  qed
  from go eof show ?thesis by blast
qed

theorem copy_from_file_copies_witness:
  "\<exists>w'. copy_from_file sample_crypto (Some (sample_ct [10, 20, 30])) 1 2 Aes256Gcm sample_key stream_write False (stream_of []) = (Inr 2, w')
     \<and> sdata w' = [20, 30]"
proof -
  have "enc_file (k_aead sample_crypto Aes256Gcm) sample_key (sample_ct [10, 20, 30]) [10, 20, 30]" by (simp add: sample_file)
  from copy_from_file_copies [OF sample_crypto_ok _ this, of "stream_of []" 1 False 2]
  show ?thesis by (simp add: key_len_def at_end_def flip: numeral_2_eq_2)
qed

end
