(* ===== verification/Fs_Attr.thy ===== *)
theory Fs_Attr
  imports Prelude
begin

text \<open>
  The file attributes of \<open>src/encryptedfs.rs\<close>: \<open>FileAttr\<close>, \<open>SetFileAttr\<close> and its builder methods,
  \<open>CreateFileAttr\<close>, the attribute snapshots kept by open handles, and \<open>merge_attr\<close>, through which
  every change of an inode's metadata goes. Times are natural numbers (ticks of the clock).
\<close>

subsection \<open>Types\<close>

type_synonym time = nat

datatype file_type = Directory | RegularFile

record file_attr =
  a_ino :: nat
  a_size :: nat
  a_blocks :: nat
  a_atime :: time
  a_mtime :: time
  a_ctime :: time
  a_crtime :: time
  a_kind :: file_type
  a_perm :: "16 word"
  a_nlink :: "32 word"
  a_uid :: "32 word"
  a_gid :: "32 word"
  a_rdev :: "32 word"
  a_blksize :: "32 word"
  a_flags :: "32 word"

record set_file_attr =
  s_size :: "nat option"
  s_atime :: "time option"
  s_mtime :: "time option"
  s_ctime :: "time option"
  s_crtime :: "time option"
  s_perm :: "16 word option"
  s_uid :: "32 word option"
  s_gid :: "32 word option"
  s_rdev :: "32 word option"
  s_flags :: "32 word option"

definition set_attr_default :: set_file_attr where
  "set_attr_default = \<lparr>s_size = None, s_atime = None, s_mtime = None, s_ctime = None, s_crtime = None,
     s_perm = None, s_uid = None, s_gid = None, s_rdev = None, s_flags = None\<rparr>"

definition with_size :: "nat \<Rightarrow> set_file_attr \<Rightarrow> set_file_attr" where
  "with_size v s = s\<lparr>s_size := Some v\<rparr>"

definition with_atime :: "time \<Rightarrow> set_file_attr \<Rightarrow> set_file_attr" where
  "with_atime v s = s\<lparr>s_atime := Some v\<rparr>"

definition with_mtime :: "time \<Rightarrow> set_file_attr \<Rightarrow> set_file_attr" where
  "with_mtime v s = s\<lparr>s_mtime := Some v\<rparr>"

definition with_ctime :: "time \<Rightarrow> set_file_attr \<Rightarrow> set_file_attr" where
  "with_ctime v s = s\<lparr>s_ctime := Some v\<rparr>"

definition with_crtime :: "time \<Rightarrow> set_file_attr \<Rightarrow> set_file_attr" where
  "with_crtime v s = s\<lparr>s_crtime := Some v\<rparr>"

definition with_perm :: "16 word \<Rightarrow> set_file_attr \<Rightarrow> set_file_attr" where
  "with_perm v s = s\<lparr>s_perm := Some v\<rparr>"

definition with_uid :: "32 word \<Rightarrow> set_file_attr \<Rightarrow> set_file_attr" where
  "with_uid v s = s\<lparr>s_uid := Some v\<rparr>"

definition with_gid :: "32 word \<Rightarrow> set_file_attr \<Rightarrow> set_file_attr" where
  "with_gid v s = s\<lparr>s_gid := Some v\<rparr>"

definition with_rdev :: "32 word \<Rightarrow> set_file_attr \<Rightarrow> set_file_attr" where
  "with_rdev v s = s\<lparr>s_rdev := Some v\<rparr>"

text \<open>The method named after the flags sets \<open>rdev\<close>.\<close>

definition with_flags :: "32 word \<Rightarrow> set_file_attr \<Rightarrow> set_file_attr" where
  "with_flags v s = s\<lparr>s_rdev := Some v\<rparr>"

record create_file_attr =
  c_kind :: file_type
  c_perm :: "16 word"
  c_uid :: "32 word"
  c_gid :: "32 word"
  c_rdev :: "32 word"
  c_flags :: "32 word"

text \<open>\<open>From<CreateFileAttr> for FileAttr\<close>, at the time \<open>now\<close>.\<close>

definition file_attr_of_create :: "time \<Rightarrow> create_file_attr \<Rightarrow> file_attr" where
  "file_attr_of_create now c =
     \<lparr>a_ino = 0, a_size = 0, a_blocks = 0, a_atime = now, a_mtime = now, a_ctime = now, a_crtime = now,
      a_kind = c_kind c, a_perm = c_perm c, a_nlink = (if c_kind c = Directory then 2 else 1),
      a_uid = c_uid c, a_gid = c_gid c, a_rdev = c_rdev c, a_blksize = 0, a_flags = c_flags c\<rparr>"

text \<open>What an open handle remembers of the attributes.\<close>

record times_attr =
  t_atime :: time
  t_mtime :: time
  t_ctime :: time
  t_crtime :: time

record times_and_size_attr = times_attr +
  t_size :: nat

definition times_of_attr :: "file_attr \<Rightarrow> times_attr" where
  "times_of_attr a = \<lparr>t_atime = a_atime a, t_mtime = a_mtime a, t_ctime = a_ctime a, t_crtime = a_crtime a\<rparr>"

definition times_and_size_of_attr :: "file_attr \<Rightarrow> times_and_size_attr" where
  "times_and_size_of_attr a =
     \<lparr>t_atime = a_atime a, t_mtime = a_mtime a, t_ctime = a_ctime a, t_crtime = a_crtime a, t_size = a_size a\<rparr>"

definition set_attr_of_times :: "times_attr \<Rightarrow> set_file_attr" where
  "set_attr_of_times t = with_crtime (t_crtime t) (with_ctime (t_ctime t) (with_mtime (t_mtime t)
     (with_atime (t_atime t) set_attr_default)))"

definition set_attr_of_times_and_size :: "times_and_size_attr \<Rightarrow> set_file_attr" where
  "set_attr_of_times_and_size t = with_size (t_size t) (with_crtime (t_crtime t) (with_ctime (t_ctime t)
     (with_mtime (t_mtime t) (with_atime (t_atime t) set_attr_default))))"

subsection \<open>Merging\<close>

definition opt_max :: "nat \<Rightarrow> nat option \<Rightarrow> nat" where
  "opt_max v o' = (case o' of None \<Rightarrow> v | Some w \<Rightarrow> max v w)"

definition opt_set :: "'a \<Rightarrow> 'a option \<Rightarrow> 'a" where
  "opt_set v o' = (case o' of None \<Rightarrow> v | Some w \<Rightarrow> w)"

definition merge_attr :: "file_attr \<Rightarrow> set_file_attr \<Rightarrow> bool \<Rightarrow> file_attr" where
  "merge_attr a s overwrite_size = a\<lparr>
     a_size := (if overwrite_size then opt_set (a_size a) (s_size s) else opt_max (a_size a) (s_size s)),
     a_atime := opt_max (a_atime a) (s_atime s),
     a_mtime := opt_max (a_mtime a) (s_mtime s),
     a_ctime := opt_max (a_ctime a) (s_ctime s),
     a_crtime := opt_max (a_crtime a) (s_crtime s),
     a_perm := opt_set (a_perm a) (s_perm s),
     a_uid := opt_set (a_uid a) (s_uid s),
     a_gid := opt_set (a_gid a) (s_gid s),
     a_flags := opt_set (a_flags a) (s_flags s)\<rparr>"

lemmas set_attr_defs = set_attr_default_def with_size_def with_atime_def with_mtime_def with_ctime_def
  with_crtime_def with_perm_def with_uid_def with_gid_def with_rdev_def with_flags_def
  set_attr_of_times_def set_attr_of_times_and_size_def

lemma opt_max_simps [simp]: "opt_max v None = v" "opt_max v (Some w) = max v w"
  by (simp_all add: opt_max_def)

lemma opt_set_simps [simp]: "opt_set v None = v" "opt_set v (Some w) = w"
  by (simp_all add: opt_set_def)

text \<open>Merging never changes the identity of the inode, nor moves a time backwards.\<close>

lemma merge_attr_keeps [simp]:
  "a_ino (merge_attr a s ov) = a_ino a" "a_kind (merge_attr a s ov) = a_kind a"
  "a_nlink (merge_attr a s ov) = a_nlink a" "a_blocks (merge_attr a s ov) = a_blocks a"
  "a_rdev (merge_attr a s ov) = a_rdev a" "a_blksize (merge_attr a s ov) = a_blksize a"
  by (simp_all add: merge_attr_def)

lemma merge_attr_times_mono:
  "a_atime a \<le> a_atime (merge_attr a s ov)" "a_mtime a \<le> a_mtime (merge_attr a s ov)"
  "a_ctime a \<le> a_ctime (merge_attr a s ov)" "a_crtime a \<le> a_crtime (merge_attr a s ov)"
  by (simp_all add: merge_attr_def opt_max_def split: option.split)

lemma merge_attr_size:
  "a_size (merge_attr a s ov) = (case s_size s of None \<Rightarrow> a_size a
     | Some n \<Rightarrow> if ov then n else max (a_size a) n)"
  by (simp add: merge_attr_def split: option.split)

text \<open>
  Merging snapshots of handles in any order gives the same attributes: \<open>get_attr\<close> iterates over a
  hash set of read handles, whose order is not fixed.
\<close>

definition snapshot :: "set_file_attr \<Rightarrow> bool" where
  "snapshot s \<longleftrightarrow> s_perm s = None \<and> s_uid s = None \<and> s_gid s = None \<and> s_flags s = None"

lemma snapshot_times [simp]: "snapshot (set_attr_of_times t)" "snapshot (set_attr_of_times_and_size u)"
  by (simp_all add: snapshot_def set_attr_defs)

lemma merge_attr_snapshot_commute:
  assumes "snapshot s" "snapshot t"
  shows "merge_attr (merge_attr a s False) t False = merge_attr (merge_attr a t False) s False"
  using assms by (simp add: merge_attr_def snapshot_def opt_max_def max.commute max.left_commute split: option.split)

lemma merge_attr_snapshot_idem:
  assumes "snapshot s"
  shows "merge_attr (merge_attr a s False) s False = merge_attr a s False"
  using assms by (simp add: merge_attr_def snapshot_def opt_max_def max.left_commute split: option.split)

lemma merge_attr_own_snapshot [simp]:
  "merge_attr a (set_attr_of_times (times_of_attr a)) False = a"
  "merge_attr a (set_attr_of_times_and_size (times_and_size_of_attr a)) False = a"
  by (simp_all add: merge_attr_def set_attr_defs times_of_attr_def times_and_size_of_attr_def)

end
