(* ===== verification/Fs_State.thy ===== *)
theory Fs_State
  imports Crypto Fs_Attr "HOL-Library.AList"
begin

text \<open>
  The state of \<open>EncryptedFs\<close> (\<open>src/encryptedfs.rs\<close>) and the operations on the encrypted storage
  below it: inode files, directory entries and the caches.

  \<^item> The data directory is the record \<open>store\<close>: the encrypted inode files \<open>inodes/<ino>\<close>, and the
    entries \<open>contents/<ino>\<close>, each a file or a directory with the subdirectories \<open>ls\<close> and \<open>hash\<close>.
    File contents are separate objects because an open descriptor keeps its file when the path is
    replaced or removed.
  \<^item> Handles hold a reader or writer, the object it was opened on and a snapshot of attributes.
  \<^item> The clock and the random generator are counters; \<open>bincode\<close> is a parameter (\<open>fs_env\<close>).
  \<^item> The locks of the source make each operation atomic; the model is sequential. \<open>sync_all\<close> has
    no effect on it. Tasks that the source runs concurrently and then joins are run in order.
  \<^item> The key is the value \<open>ExpireValue::get\<close> delivers; caches may lose entries at any time
    (\<open>evict\<close>).
\<close>

subsection \<open>Parameters\<close>

record fs_env =
  v_crypto :: crypto_env
  v_cipher :: cipher
  v_ser_attr :: "file_attr \<Rightarrow> bytes list"
  v_de_attr :: "bytes \<Rightarrow> file_attr option"
  v_ser_entry :: "nat \<times> file_type \<Rightarrow> bytes list"
  v_de_entry :: "bytes \<Rightarrow> (nat \<times> file_type) option"
  v_ser_hash :: "nat \<times> file_type \<times> string \<Rightarrow> bytes list"
  v_de_hash :: "bytes \<Rightarrow> (nat \<times> file_type \<times> string) option"
  v_rand :: "nat \<Rightarrow> nat"
  v_fuel :: nat

text \<open>
  What is relied on: the cryptographic parameters are sound and \<open>bincode\<close> reads back what it
  writes.
\<close>

definition fs_env_ok :: "fs_env \<Rightarrow> bool" where
  "fs_env_ok V \<longleftrightarrow> crypto_ok (v_crypto V)
     \<and> (\<forall>x. v_de_attr V (concat (v_ser_attr V x)) = Some x)
     \<and> (\<forall>x. v_de_entry V (concat (v_ser_entry V x)) = Some x)
     \<and> (\<forall>x. v_de_hash V (concat (v_ser_hash V x)) = Some x)"

datatype fs_error = FsIo io_error | SerializeError | FsNotFound string | InodeNotFound | FsInvalidInput string
  | InvalidInodeType | InvalidFileHandle | FsAlreadyExists | AlreadyOpenForWrite | NotEmpty | FsOther string
  | InvalidPassword | InvalidDataDirStructure | FsCrypto crypto_error | MaxFilesizeExceeded nat | FsPanic | OutOfFuel

subsection \<open>State\<close>

datatype content = CFile nat | CDir (ls_dir: "(string \<times> bytes) list") (hash_dir: "(string \<times> bytes) list")

record store =
  st_inodes :: "nat \<rightharpoonup> bytes"
  st_contents :: "nat \<rightharpoonup> content"
  st_objs :: "nat \<Rightarrow> bytes"
  st_next_obj :: nat

record read_ctx =
  rc_ino :: nat
  rc_attr :: times_attr
  rc_reader :: "ring_crypto_read option"
  rc_obj :: nat

record write_ctx =
  wc_ino :: nat
  wc_attr :: times_and_size_attr
  wc_writer :: "ring_crypto_write_seek option"
  wc_obj :: nat

record encrypted_fs =
  f_store :: store
  f_key :: bytes
  f_write_handles :: "nat \<rightharpoonup> write_ctx"
  f_read_handles :: "nat \<rightharpoonup> read_ctx"
  f_current_handle :: nat
  f_opened_read :: "nat \<rightharpoonup> nat list"
  f_opened_write :: "nat \<rightharpoonup> nat"
  f_attr_cache :: "nat \<rightharpoonup> file_attr"
  f_name_cache :: "string \<rightharpoonup> string"
  f_meta_cache :: "nat \<times> string \<rightharpoonup> nat \<times> file_type"
  f_time :: time
  f_rng :: nat

type_synonym 'a fsm = "(encrypted_fs, fs_error, 'a) sem"

definition ROOT_INODE :: nat where
  "ROOT_INODE = 1"

text \<open>A cache entry may disappear between two operations (capacity or expiry).\<close>

definition evict :: "nat set \<Rightarrow> string set \<Rightarrow> (nat \<times> string) set \<Rightarrow> encrypted_fs \<Rightarrow> encrypted_fs" where
  "evict A N M s = s\<lparr>f_attr_cache := f_attr_cache s |` A, f_name_cache := f_name_cache s |` N,
     f_meta_cache := f_meta_cache s |` M\<rparr>"

abbreviation upd_store :: "(store \<Rightarrow> store) \<Rightarrow> unit fsm" where
  "upd_store g \<equiv> modif (\<lambda>s. s\<lparr>f_store := g (f_store s)\<rparr>)"

definition no_entry :: fs_error where
  "no_entry = FsIo (IoErr NotFound ''No such file or directory'')"

definition io_err :: "io_error \<Rightarrow> fs_error" where
  "io_err e = (case e of Panic \<Rightarrow> FsPanic | _ \<Rightarrow> FsIo e)"

definition crypto_err :: "crypto_error \<Rightarrow> fs_error" where
  "crypto_err e = (case e of CryptoIo Panic \<Rightarrow> FsPanic | _ \<Rightarrow> FsCrypto e)"

definition lift_err :: "('e \<Rightarrow> fs_error) \<Rightarrow> 'e + 'a \<Rightarrow> ('s, fs_error, 'a) sem" where
  "lift_err h r = (case r of Inl e \<Rightarrow> throw (h e) | Inr a \<Rightarrow> ret a)"

text \<open>The clock and the generator.\<close>

definition system_time_now :: "time fsm" where
  "system_time_now = (\<lambda>s. (Inr (f_time s), s\<lparr>f_time := Suc (f_time s)\<rparr>))"

definition create_rng :: "nat fsm" where
  "create_rng = (\<lambda>s. (Inr (f_rng s), s\<lparr>f_rng := Suc (f_rng s)\<rparr>))"

subsection \<open>Paths\<close>

definition ino_exists :: "encrypted_fs \<Rightarrow> nat \<Rightarrow> bool" where
  "ino_exists s ino \<longleftrightarrow> st_inodes (f_store s) ino \<noteq> None"

definition is_dir :: "encrypted_fs \<Rightarrow> nat \<Rightarrow> bool" where
  "is_dir s ino \<longleftrightarrow> (case st_contents (f_store s) ino of Some (CDir _ _) \<Rightarrow> True | _ \<Rightarrow> False)"

definition is_file :: "encrypted_fs \<Rightarrow> nat \<Rightarrow> bool" where
  "is_file s ino \<longleftrightarrow> (case st_contents (f_store s) ino of Some (CFile _) \<Rightarrow> True | _ \<Rightarrow> False)"

text \<open>\<open>File::open\<close> on a path of \<open>contents\<close>: the object behind it.\<close>

definition open_content :: "nat \<Rightarrow> nat fsm" where
  "open_content ino = (\<lambda>s. case st_contents (f_store s) ino of
     Some (CFile o') \<Rightarrow> (Inr o', s) | Some (CDir _ _) \<Rightarrow> (Inl (FsIo (IoErr IsADirectory ''Is a directory'')), s)
   | None \<Rightarrow> (Inl no_entry, s))"

subsection \<open>Metadata files\<close>

text \<open>\<open>bincode::deserialize_from(crypto::create_read(file, cipher, key))\<close>.\<close>

definition load_meta :: "fs_env \<Rightarrow> (bytes \<Rightarrow> 'a option) \<Rightarrow> bytes \<Rightarrow> bytes \<Rightarrow> fs_error + 'a" where
  "load_meta V de key ct =
     (case read_to_end (v_crypto V) (v_cipher V) key ct of
        Inl e \<Rightarrow> Inl (case e of Panic \<Rightarrow> FsPanic | _ \<Rightarrow> SerializeError)
      | Inr d \<Rightarrow> (case de d of None \<Rightarrow> Inl SerializeError | Some v \<Rightarrow> Inr v))"

text \<open>\<open>crypto::atomic_serialize_encrypt_into\<close>: the bytes that replace the target file.\<close>

definition save_meta :: "fs_env \<Rightarrow> bytes list \<Rightarrow> bytes fsm" where
  "save_meta V ds =
     bnd create_rng (\<lambda>seed. bnd (gets f_key) (\<lambda>key.
     lift_err crypto_err (serialize_encrypt_into (v_crypto V) seed ds (v_cipher V) key)))"

definition get_inode_from_storage :: "fs_env \<Rightarrow> nat \<Rightarrow> file_attr fsm" where
  "get_inode_from_storage V ino = (\<lambda>s. case st_inodes (f_store s) ino of None \<Rightarrow> (Inl InodeNotFound, s)
     | Some ct \<Rightarrow> (load_meta V (v_de_attr V) (f_key s) ct, s))"

definition get_inode_from_cache_or_storage :: "fs_env \<Rightarrow> nat \<Rightarrow> file_attr fsm" where
  "get_inode_from_cache_or_storage V ino =
     bnd (gets (\<lambda>s. f_attr_cache s ino)) (\<lambda>c. case c of Some attr \<Rightarrow> ret attr
     | None \<Rightarrow> bnd (get_inode_from_storage V ino) (\<lambda>attr.
         bnd (modif (f_attr_cache_update (\<lambda>m. m(ino \<mapsto> attr)))) (\<lambda>_. ret attr)))"

text \<open>\<open>get_attr\<close>: the stored attributes merged with the snapshots of the open handles.\<close>

definition merge_open_handles :: "encrypted_fs \<Rightarrow> nat \<Rightarrow> file_attr \<Rightarrow> file_attr" where
  "merge_open_handles s ino attr =
     (let attr = (case f_opened_read s ino of None \<Rightarrow> attr
          | Some fhs \<Rightarrow> fold (\<lambda>fh a. case f_read_handles s fh of None \<Rightarrow> a
              | Some ctx \<Rightarrow> merge_attr a (set_attr_of_times (rc_attr ctx)) False) fhs attr)
      in case f_opened_write s ino of None \<Rightarrow> attr
         | Some fh \<Rightarrow> (case f_write_handles s fh of None \<Rightarrow> attr
             | Some ctx \<Rightarrow> merge_attr attr (set_attr_of_times_and_size (wc_attr ctx)) False))"

definition get_attr :: "fs_env \<Rightarrow> nat \<Rightarrow> file_attr fsm" where
  "get_attr V ino =
     bnd (get_inode_from_cache_or_storage V ino) (\<lambda>attr. gets (\<lambda>s. merge_open_handles s ino attr))"

definition write_inode_to_storage :: "fs_env \<Rightarrow> file_attr \<Rightarrow> unit fsm" where
  "write_inode_to_storage V attr =
     bnd (save_meta V (v_ser_attr V attr)) (\<lambda>ct.
     bnd (upd_store (st_inodes_update (\<lambda>m. m(a_ino attr \<mapsto> ct)))) (\<lambda>_.
     modif (f_attr_cache_update (\<lambda>m. m(a_ino attr \<mapsto> attr)))))"

definition set_attr2 :: "fs_env \<Rightarrow> nat \<Rightarrow> set_file_attr \<Rightarrow> bool \<Rightarrow> unit fsm" where
  "set_attr2 V ino sa overwrite_size =
     bnd (get_attr V ino) (\<lambda>attr.
     bnd system_time_now (\<lambda>now.
     write_inode_to_storage V ((merge_attr attr sa overwrite_size)\<lparr>a_ctime := now, a_atime := now\<rparr>)))"

definition set_attr :: "fs_env \<Rightarrow> nat \<Rightarrow> set_file_attr \<Rightarrow> unit fsm" where
  "set_attr V ino sa = set_attr2 V ino sa False"

subsection \<open>Directory entries\<close>

record directory_entry =
  de_ino :: nat
  de_name :: string
  de_kind :: file_type

text \<open>Atomically replacing a file of a directory's \<open>ls\<close> or \<open>hash\<close> subdirectory.\<close>

definition put_ls :: "nat \<Rightarrow> string \<Rightarrow> bytes \<Rightarrow> unit fsm" where
  "put_ls dir name ct = (\<lambda>s. case st_contents (f_store s) dir of
     Some (CDir l h) \<Rightarrow> (Inr (), s\<lparr>f_store := (f_store s)\<lparr>st_contents :=
        (st_contents (f_store s))(dir \<mapsto> CDir (AList.update name ct l) h)\<rparr>\<rparr>)
   | _ \<Rightarrow> (Inl no_entry, s))"

definition put_hash :: "nat \<Rightarrow> string \<Rightarrow> bytes \<Rightarrow> unit fsm" where
  "put_hash dir name ct = (\<lambda>s. case st_contents (f_store s) dir of
     Some (CDir l h) \<Rightarrow> (Inr (), s\<lparr>f_store := (f_store s)\<lparr>st_contents :=
        (st_contents (f_store s))(dir \<mapsto> CDir l (AList.update name ct h))\<rparr>\<rparr>)
   | _ \<Rightarrow> (Inl no_entry, s))"

definition insert_directory_entry :: "fs_env \<Rightarrow> nat \<Rightarrow> directory_entry \<Rightarrow> unit fsm" where
  "insert_directory_entry V dir entry =
     bnd create_rng (\<lambda>seed. bnd (gets f_key) (\<lambda>key.
     bnd (lift_err crypto_err (encrypt_file_name (v_crypto V) seed (de_name entry) (v_cipher V) key)) (\<lambda>encrypted_name.
     bnd (attempt (bnd (save_meta V (v_ser_entry V (de_ino entry, de_kind entry))) (put_ls dir encrypted_name))) (\<lambda>ls.
     bnd (bnd (save_meta V (v_ser_hash V (de_ino entry, de_kind entry, encrypted_name)))
            (put_hash dir (hash_file_name (v_crypto V) (de_name entry)))) (\<lambda>_.
     lift ls)))))"

definition remove_directory_entry :: "fs_env \<Rightarrow> nat \<Rightarrow> string \<Rightarrow> unit fsm" where
  "remove_directory_entry V parent name = (\<lambda>s.
     let hash = hash_file_name (v_crypto V) name in
     case st_contents (f_store s) parent of Some (CDir l h) \<Rightarrow>
       (case map_of h hash of None \<Rightarrow> (Inl no_entry, s)
        | Some ct \<Rightarrow>
            (case load_meta V (v_de_hash V) (f_key s) ct of Inl e \<Rightarrow> (Inl e, s)
             | Inr (_, _, enc_name) \<Rightarrow>
                 (let s' = s\<lparr>f_store := (f_store s)\<lparr>st_contents :=
                        (st_contents (f_store s))(parent \<mapsto> CDir l (AList.delete hash h))\<rparr>\<rparr>
                  in case map_of l enc_name of None \<Rightarrow> (Inl no_entry, s')
                     | Some _ \<Rightarrow> (Inr (), s\<lparr>f_store := (f_store s)\<lparr>st_contents := (st_contents (f_store s))(parent \<mapsto>
                          CDir (AList.delete enc_name l) (AList.delete hash h))\<rparr>\<rparr>))))
     | _ \<Rightarrow> (Inl no_entry, s))"

definition exists_by_name :: "fs_env \<Rightarrow> nat \<Rightarrow> string \<Rightarrow> bool fsm" where
  "exists_by_name V parent name = (\<lambda>s.
     if \<not> ino_exists s parent then (Inl InodeNotFound, s)
     else case st_contents (f_store s) parent of
       Some (CDir l h) \<Rightarrow> (Inr (map_of h (hash_file_name (v_crypto V) name) \<noteq> None), s)
     | _ \<Rightarrow> (Inl InvalidInodeType, s))"

definition find_by_name :: "fs_env \<Rightarrow> nat \<Rightarrow> string \<Rightarrow> file_attr option fsm" where
  "find_by_name V parent name = (\<lambda>s.
     if \<not> ino_exists s parent then (Inl InodeNotFound, s)
     else case st_contents (f_store s) parent of
       Some (CDir l h) \<Rightarrow>
         (case map_of h (hash_file_name (v_crypto V) name) of None \<Rightarrow> (Inr None, s)
          | Some ct \<Rightarrow> (case load_meta V (v_de_hash V) (f_key s) ct of Inl e \<Rightarrow> (Inl e, s)
              | Inr (ino, _, _) \<Rightarrow>
                  bnd (get_inode_from_cache_or_storage V ino) (\<lambda>attr. ret (Some attr)) s))
     | _ \<Rightarrow> (Inl InvalidInodeType, s))"

text \<open>The number of children; the subtraction is on \<open>usize\<close>.\<close>

definition fs_len :: "nat \<Rightarrow> nat fsm" where
  "fs_len ino = (\<lambda>s. case st_contents (f_store s) ino of
     Some (CDir l h) \<Rightarrow> (Inr (u64_sub (length l) (if ino = ROOT_INODE then 1 else 2)), s)
   | _ \<Rightarrow> (Inl InvalidInodeType, s))"

subsection \<open>Listing\<close>

definition create_directory_entry :: "fs_env \<Rightarrow> nat \<Rightarrow> string \<times> bytes \<Rightarrow> directory_entry fsm" where
  "create_directory_entry V dir e = (case e of (enc_name, ct) \<Rightarrow>
     bnd (if enc_name = ''$.'' then ret ''.''
          else if enc_name = ''$..'' then ret ''..''
          else
            bnd (gets (\<lambda>s. f_name_cache s enc_name)) (\<lambda>c. case c of Some name \<Rightarrow> ret name
            | None \<Rightarrow>
                bnd (gets f_key) (\<lambda>key.
                case decrypt_file_name (v_crypto V) enc_name (v_cipher V) key of
                  Inl _ \<Rightarrow> throw (FsInvalidInput ''invalid file name'')
                | Inr name \<Rightarrow> bnd (modif (f_name_cache_update (\<lambda>m. m(enc_name \<mapsto> name)))) (\<lambda>_. ret name)))) (\<lambda>name.
     bnd (gets (\<lambda>s. f_meta_cache s (dir, enc_name))) (\<lambda>c. case c of
       Some (ino, kind) \<Rightarrow> ret \<lparr>de_ino = ino, de_name = name, de_kind = kind\<rparr>
     | None \<Rightarrow>
         bnd (gets f_key) (\<lambda>key.
         bnd (lift (load_meta V (v_de_entry V) key ct)) (\<lambda>(ino, kind).
         bnd (modif (f_meta_cache_update (\<lambda>m. m((dir, enc_name) \<mapsto> (ino, kind))))) (\<lambda>_.
         ret \<lparr>de_ino = ino, de_name = name, de_kind = kind\<rparr>))))))"

record directory_entry_plus = directory_entry +
  de_attr :: file_attr

definition create_directory_entry_plus :: "fs_env \<Rightarrow> nat \<Rightarrow> string \<times> bytes \<Rightarrow> directory_entry_plus fsm" where
  "create_directory_entry_plus V dir e =
     bnd (create_directory_entry V dir e) (\<lambda>entry.
     bnd (get_inode_from_cache_or_storage V (de_ino entry)) (\<lambda>attr.
     ret \<lparr>de_ino = de_ino entry, de_name = de_name entry, de_kind = de_kind entry, de_attr = attr\<rparr>))"

text \<open>One task per entry, collected in order; an entry that fails is an error in the result.\<close>

primrec collect_entries :: "('e \<Rightarrow> 'a fsm) \<Rightarrow> 'e list \<Rightarrow> (fs_error + 'a) list fsm" where
  "collect_entries f [] = ret []"
| "collect_entries f (e # es) = bnd (attempt (f e)) (\<lambda>r. bnd (collect_entries f es) (\<lambda>rs. ret (r # rs)))"

definition read_dir_with :: "fs_env \<Rightarrow> (nat \<Rightarrow> string \<times> bytes \<Rightarrow> 'a fsm) \<Rightarrow> nat \<Rightarrow> (fs_error + 'a) list fsm" where
  "read_dir_with V f ino =
     bnd (gets (\<lambda>s. st_contents (f_store s) ino)) (\<lambda>c. case c of
       Some (CDir l h) \<Rightarrow>
         bnd system_time_now (\<lambda>now.
         bnd (set_attr V ino (with_atime now set_attr_default)) (\<lambda>_.
         collect_entries (f ino) l))
     | _ \<Rightarrow> throw InvalidInodeType)"

definition read_dir :: "fs_env \<Rightarrow> nat \<Rightarrow> (fs_error + directory_entry) list fsm" where
  "read_dir V ino = read_dir_with V (create_directory_entry V) ino"

definition read_dir_plus :: "fs_env \<Rightarrow> nat \<Rightarrow> (fs_error + directory_entry_plus) list fsm" where
  "read_dir_plus V ino = read_dir_with V (create_directory_entry_plus V) ino"

end
