(* ===== verification/Fs_File.thy ===== *)
theory Fs_File
  imports Fs_State
begin

text \<open>
  File handles of \<open>EncryptedFs\<close> (\<open>src/encryptedfs.rs\<close>): open, read, write, flush, release,
  set_len, copy_file_range, and the resetting of handles after a change.

  A reader or writer works on the object it was opened on; its stream is brought up to date with
  the object before every call and the object with the stream after it.
\<close>

subsection \<open>Readers and writers on objects\<close>

definition v_aead :: "fs_env \<Rightarrow> aead_env" where
  "v_aead V = k_aead (v_crypto V) (v_cipher V)"

definition put_obj :: "nat \<Rightarrow> bytes \<Rightarrow> encrypted_fs \<Rightarrow> encrypted_fs" where
  "put_obj obj d s = s\<lparr>f_store := (f_store s)\<lparr>st_objs := (st_objs (f_store s))(obj := d)\<rparr>\<rparr>"

definition r_refresh :: "bytes \<Rightarrow> ring_crypto_read \<Rightarrow> ring_crypto_read" where
  "r_refresh d r = r\<lparr>r_input := map_option (\<lambda>i. i\<lparr>sdata := d\<rparr>) (r_input r)\<rparr>"

definition w_refresh :: "bytes \<Rightarrow> ring_crypto_write_seek \<Rightarrow> ring_crypto_write_seek" where
  "w_refresh d w = w\<lparr>ws_inner := (ws_inner w)\<lparr>w_out := map_option (\<lambda>o'. o'\<lparr>sdata := d\<rparr>) (w_out (ws_inner w))\<rparr>\<rparr>"

definition write_back :: "nat \<Rightarrow> ring_crypto_write_seek \<Rightarrow> encrypted_fs \<Rightarrow> encrypted_fs" where
  "write_back obj w s = (case w_out (ws_inner w) of None \<Rightarrow> s | Some out \<Rightarrow> put_obj obj (sdata out) s)"

definition io_result :: "io_error + 'a \<Rightarrow> fs_error + 'a" where
  "io_result r = (case r of Inl e \<Rightarrow> Inl (io_err e) | Inr a \<Rightarrow> Inr a)"

definition on_reader :: "nat \<Rightarrow> (ring_crypto_read, io_error, 'a) sem \<Rightarrow> 'a fsm" where
  "on_reader fh m = (\<lambda>s. case f_read_handles s fh of None \<Rightarrow> (Inl FsPanic, s)
     | Some ctx \<Rightarrow> (case rc_reader ctx of None \<Rightarrow> (Inl FsPanic, s)
        | Some r \<Rightarrow> (case m (r_refresh (st_objs (f_store s) (rc_obj ctx)) r) of (res, r') \<Rightarrow>
            (io_result res, s\<lparr>f_read_handles := (f_read_handles s)(fh \<mapsto> ctx\<lparr>rc_reader := Some r'\<rparr>)\<rparr>))))"

definition on_writer :: "nat \<Rightarrow> (ring_crypto_write_seek, io_error, 'a) sem \<Rightarrow> 'a fsm" where
  "on_writer fh m = (\<lambda>s. case f_write_handles s fh of None \<Rightarrow> (Inl FsPanic, s)
     | Some ctx \<Rightarrow> (case wc_writer ctx of None \<Rightarrow> (Inl FsPanic, s)
        | Some w \<Rightarrow> (case m (w_refresh (st_objs (f_store s) (wc_obj ctx)) w) of (res, w') \<Rightarrow>
            (io_result res, write_back (wc_obj ctx) w'
               (s\<lparr>f_write_handles := (f_write_handles s)(fh \<mapsto> ctx\<lparr>wc_writer := Some w'\<rparr>)\<rparr>)))))"

definition finish_writer :: "fs_env \<Rightarrow> nat \<Rightarrow> ring_crypto_write_seek \<Rightarrow> ring_crypto_write_seek fsm" where
  "finish_writer V obj w = (\<lambda>s. case ws_finish (v_aead V) (w_refresh (st_objs (f_store s) obj) w) of
       (Inl e, w') \<Rightarrow> (Inl (io_err e), write_back obj w' s)
     | (Inr out, w') \<Rightarrow> (Inr w', put_obj obj (sdata out) s))"

definition fs_create_read_seek :: "fs_env \<Rightarrow> nat \<Rightarrow> ring_crypto_read fsm" where
  "fs_create_read_seek V obj = bnd (gets (\<lambda>s. s)) (\<lambda>s.
     lift_err io_err (create_read_seek (v_crypto V) (stream_of (st_objs (f_store s) obj)) (v_cipher V) (f_key s)))"

definition fs_create_write_seek :: "fs_env \<Rightarrow> nat \<Rightarrow> ring_crypto_write_seek fsm" where
  "fs_create_write_seek V obj = bnd create_rng (\<lambda>seed. bnd (gets (\<lambda>s. s)) (\<lambda>s.
     lift_err io_err (create_write_seek (v_crypto V) seed (stream_of (st_objs (f_store s) obj)) (v_cipher V) (f_key s))))"

subsection \<open>Resetting handles\<close>

definition reset_read_handle :: "fs_env \<Rightarrow> nat \<Rightarrow> nat \<Rightarrow> unit fsm" where
  "reset_read_handle V ino handle =
     bnd (gets (\<lambda>s. f_read_handles s handle)) (\<lambda>c. case c of None \<Rightarrow> throw FsPanic
     | Some ctx \<Rightarrow>
         bnd (set_attr V ino (set_attr_of_times (rc_attr ctx))) (\<lambda>_.
         bnd (get_inode_from_storage V ino) (\<lambda>attr.
         bnd (open_content ino) (\<lambda>obj.
         bnd (fs_create_read_seek V obj) (\<lambda>reader.
         modif (f_read_handles_update (\<lambda>m. m(handle \<mapsto>
           ctx\<lparr>rc_reader := Some reader, rc_obj := obj, rc_attr := times_of_attr attr\<rparr>))))))))"

definition reset_write_handle :: "fs_env \<Rightarrow> nat \<Rightarrow> nat \<Rightarrow> bool \<Rightarrow> unit fsm" where
  "reset_write_handle V ino fh save_attr =
     bnd (gets (\<lambda>s. f_write_handles s fh)) (\<lambda>c. case c of None \<Rightarrow> ret ()
     | Some ctx \<Rightarrow> (case wc_writer ctx of None \<Rightarrow> throw FsPanic
        | Some w \<Rightarrow>
            bnd (finish_writer V (wc_obj ctx) w) (\<lambda>w'.
            bnd (modif (f_write_handles_update (\<lambda>m. m(fh \<mapsto> ctx\<lparr>wc_writer := Some w'\<rparr>)))) (\<lambda>_.
            bnd (whenM save_attr (set_attr V ino (set_attr_of_times_and_size (wc_attr ctx)))) (\<lambda>_.
            bnd (open_content ino) (\<lambda>obj.
            bnd (fs_create_write_seek V obj) (\<lambda>writer.
            bnd (modif (f_write_handles_update (\<lambda>m. m(fh \<mapsto> ctx\<lparr>wc_writer := Some writer, wc_obj := obj\<rparr>)))) (\<lambda>_.
            bnd (get_inode_from_storage V ino) (\<lambda>attr.
            modif (f_write_handles_update (\<lambda>m. m(fh \<mapsto>
              ctx\<lparr>wc_writer := Some writer, wc_obj := obj, wc_attr := times_and_size_of_attr attr\<rparr>))))))))))))"

definition reset_handles :: "fs_env \<Rightarrow> nat \<Rightarrow> nat option \<Rightarrow> bool \<Rightarrow> unit fsm" where
  "reset_handles V ino skip_write_fh save_attr =
     bnd (gets (\<lambda>s. case f_opened_read s ino of None \<Rightarrow> [] | Some fhs \<Rightarrow> fhs)) (\<lambda>fhs.
     bnd (for_each (reset_read_handle V ino) (filter (\<lambda>h. skip_write_fh \<noteq> Some h) fhs)) (\<lambda>_.
     bnd (gets (\<lambda>s. f_opened_write s ino)) (\<lambda>c. case c of None \<Rightarrow> ret ()
     | Some fh \<Rightarrow> if skip_write_fh = Some fh then ret () else reset_write_handle V ino fh save_attr)))"

subsection \<open>Open\<close>

definition next_handle :: "nat fsm" where
  "next_handle = (\<lambda>s. (Inr (f_current_handle s), s\<lparr>f_current_handle := Suc (f_current_handle s)\<rparr>))"

definition do_with_read_handle :: "fs_env \<Rightarrow> nat \<Rightarrow> nat \<Rightarrow> unit fsm" where
  "do_with_read_handle V handle ino =
     bnd (get_inode_from_storage V ino) (\<lambda>attr.
     bnd (open_content ino) (\<lambda>obj.
     bnd (fs_create_read_seek V obj) (\<lambda>reader.
     modif (\<lambda>s. s\<lparr>f_read_handles := (f_read_handles s)(handle \<mapsto>
         \<lparr>rc_ino = ino, rc_attr = times_of_attr attr, rc_reader = Some reader, rc_obj = obj\<rparr>),
       f_opened_read := (f_opened_read s)(ino \<mapsto>
         List.insert handle (case f_opened_read s ino of None \<Rightarrow> [] | Some fhs \<Rightarrow> fhs))\<rparr>))))"

definition do_with_write_handle :: "fs_env \<Rightarrow> nat \<Rightarrow> nat \<Rightarrow> unit fsm" where
  "do_with_write_handle V handle ino =
     bnd (get_attr V ino) (\<lambda>attr.
     bnd (open_content ino) (\<lambda>obj.
     bnd (fs_create_write_seek V obj) (\<lambda>writer.
     modif (\<lambda>s. s\<lparr>f_write_handles := (f_write_handles s)(handle \<mapsto>
         \<lparr>wc_ino = ino, wc_attr = times_and_size_of_attr attr, wc_writer = Some writer, wc_obj = obj\<rparr>),
       f_opened_write := (f_opened_write s)(ino \<mapsto> handle)\<rparr>))))"

text \<open>The handle for reading, if one is asked for, then the one for writing under the same number.\<close>

definition open_for_read :: "fs_env \<Rightarrow> nat \<Rightarrow> bool \<Rightarrow> nat option fsm" where
  "open_for_read V ino rd =
     (if rd then bnd next_handle (\<lambda>h. bnd (do_with_read_handle V h ino) (\<lambda>_. ret (Some h))) else ret None)"

definition open_for_write :: "fs_env \<Rightarrow> nat \<Rightarrow> bool \<Rightarrow> bool \<Rightarrow> nat option \<Rightarrow> nat option fsm" where
  "open_for_write V ino rd wr handle =
     (if wr then
        bnd (gets (\<lambda>s. f_opened_write s ino)) (\<lambda>opened.
        if opened \<noteq> None then throw AlreadyOpenForWrite
        else
          bnd (case handle of Some h \<Rightarrow> ret h | None \<Rightarrow> next_handle) (\<lambda>h.
          bnd (attempt (do_with_write_handle V h ino)) (\<lambda>res.
          bnd (whenM (isl res \<and> rd) (modif (f_read_handles_update (\<lambda>m. m(h := None))))) (\<lambda>_.
          bnd (lift res) (\<lambda>_. ret (Some h))))))
      else ret handle)"

definition fs_open :: "fs_env \<Rightarrow> nat \<Rightarrow> bool \<Rightarrow> bool \<Rightarrow> nat fsm" where
  "fs_open V ino rd wr =
     bnd (gets (\<lambda>s. s)) (\<lambda>s.
     if \<not> rd \<and> \<not> wr then throw (FsInvalidInput ''read and write cannot be false at the same time'')
     else if is_dir s ino then throw InvalidInodeType
     else
       bnd (open_for_read V ino rd) (\<lambda>handle.
       bnd (open_for_write V ino rd wr handle) (\<lambda>handle.
       case handle of None \<Rightarrow> throw FsPanic | Some h \<Rightarrow> ret h)))"

subsection \<open>Read and write\<close>

definition fs_read :: "fs_env \<Rightarrow> nat \<Rightarrow> nat \<Rightarrow> nat \<Rightarrow> nat \<Rightarrow> bytes fsm" where
  "fs_read V ino offset n handle =
     bnd (gets (\<lambda>s. s)) (\<lambda>s.
     if \<not> ino_exists s ino then throw InodeNotFound
     else if \<not> is_file s ino then throw InvalidInodeType
     else case f_read_handles s handle of None \<Rightarrow> throw InvalidFileHandle
     | Some ctx \<Rightarrow>
        if rc_ino ctx \<noteq> ino then throw InvalidFileHandle
        else if is_dir s ino then throw InvalidInodeType
        else if n = 0 then ret []
        else
          bnd (on_reader handle (ring_read_seek (v_aead V) (Start offset))) (\<lambda>_.
          bnd (on_reader handle (ring_read_seek (v_aead V) (Current 0))) (\<lambda>pos.
          if pos \<noteq> offset then ret []
          else
            bnd (on_reader handle (su_read (ring_read (v_aead V)) n)) (\<lambda>d.
            bnd system_time_now (\<lambda>now.
            bnd (modif (f_read_handles_update (\<lambda>m. m(handle := map_option (\<lambda>ctx.
                   ctx\<lparr>rc_attr := (rc_attr ctx)\<lparr>t_atime := now\<rparr>\<rparr>) (m handle))))) (\<lambda>_.
            ret d))))))"

definition fs_write :: "fs_env \<Rightarrow> nat \<Rightarrow> nat \<Rightarrow> bytes \<Rightarrow> nat \<Rightarrow> nat fsm" where
  "fs_write V ino offset buf handle =
     bnd (gets (\<lambda>s. s)) (\<lambda>s.
     if \<not> ino_exists s ino then throw InodeNotFound
     else if \<not> is_file s ino then throw InvalidInodeType
     else case f_write_handles s handle of None \<Rightarrow> throw InvalidFileHandle
     | Some ctx \<Rightarrow>
        if wc_ino ctx \<noteq> ino then throw InvalidFileHandle
        else if buf = [] then ret 0
        else
          let max_len = max_plaintext_len (v_cipher V) in
          if offset > max_len then throw (MaxFilesizeExceeded max_len)
          else
            bnd (on_writer handle (ws_seek (v_aead V) (Start offset))) (\<lambda>pos.
            if offset \<noteq> pos then ret 0
            else
              let buf' = (if offset + length buf > max_len then take (max_len - offset) buf else buf) in
              bnd (on_writer handle (ws_write (v_aead V) buf')) (\<lambda>len.
              bnd (on_writer handle (ws_seek (v_aead V) (Current 0))) (\<lambda>pos.
              bnd system_time_now (\<lambda>now.
              bnd (modif (f_write_handles_update (\<lambda>m. m(handle := map_option (\<lambda>ctx.
                     ctx\<lparr>wc_attr := (wc_attr ctx)\<lparr>t_size := max pos (t_size (wc_attr ctx)),
                       t_mtime := now, t_ctime := now, t_atime := now\<rparr>\<rparr>) (m handle))))) (\<lambda>_.
              bnd (reset_handles V ino (Some handle) True) (\<lambda>_. ret len)))))))"

definition fs_flush :: "fs_env \<Rightarrow> nat \<Rightarrow> unit fsm" where
  "fs_flush V handle =
     (if handle = 0 then ret ()
      else
        bnd (gets (\<lambda>s. (f_read_handles s handle \<noteq> None, f_write_handles s handle))) (\<lambda>(is_read, c). case c of
          Some ctx \<Rightarrow>
            bnd (on_writer handle (ws_flush (v_aead V))) (\<lambda>_.
            bnd (gets (\<lambda>s. st_contents (f_store s) (wc_ino ctx))) (\<lambda>path.
            if path = None then throw no_entry else reset_handles V (wc_ino ctx) (Some handle) True))
        | None \<Rightarrow> if is_read then ret () else throw InvalidFileHandle))"

definition release_read :: "fs_env \<Rightarrow> nat \<Rightarrow> bool fsm" where
  "release_read V handle =
     bnd (gets (\<lambda>s. f_read_handles s handle)) (\<lambda>c. case c of None \<Rightarrow> ret False
     | Some ctx \<Rightarrow>
         bnd (modif (f_read_handles_update (\<lambda>m. m(handle := None)))) (\<lambda>_.
         bnd (gets (\<lambda>s. f_opened_read s (rc_ino ctx))) (\<lambda>fhs. case fhs of None \<Rightarrow> throw FsPanic
         | Some fhs \<Rightarrow>
             let fhs' = removeAll handle fhs in
             bnd (modif (f_opened_read_update (\<lambda>m. m(rc_ino ctx := (if fhs' = [] then None else Some fhs'))))) (\<lambda>_.
             bnd (set_attr V (rc_ino ctx) (set_attr_of_times (rc_attr ctx))) (\<lambda>_. ret True)))))"

definition release_write :: "fs_env \<Rightarrow> nat \<Rightarrow> bool fsm" where
  "release_write V handle =
     bnd (gets (\<lambda>s. f_write_handles s handle)) (\<lambda>c. case c of None \<Rightarrow> ret False
     | Some ctx \<Rightarrow>
         bnd (modif (f_write_handles_update (\<lambda>m. m(handle := None)))) (\<lambda>_.
         case wc_writer ctx of None \<Rightarrow> throw FsPanic
         | Some w \<Rightarrow>
             bnd (finish_writer V (wc_obj ctx) w) (\<lambda>_.
             bnd (set_attr V (wc_ino ctx) (set_attr_of_times_and_size (wc_attr ctx))) (\<lambda>_.
             bnd (modif (f_opened_write_update (\<lambda>m. m(wc_ino ctx := None)))) (\<lambda>_.
             bnd (reset_handles V (wc_ino ctx) (Some handle) True) (\<lambda>_. ret True))))))"

definition fs_release :: "fs_env \<Rightarrow> nat \<Rightarrow> unit fsm" where
  "fs_release V handle =
     (if handle = 0 then ret ()
      else
        bnd (release_read V handle) (\<lambda>r.
        bnd (release_write V handle) (\<lambda>w.
        if r \<or> w then ret () else throw InvalidFileHandle)))"

text \<open>
  The loop of \<open>copy_file_range\<close>: every round writes \<open>buf[copied..len]\<close> at the same offset until
  \<open>copied\<close> reaches \<open>size\<close>; a slice with \<open>copied > len\<close> would panic.
\<close>

function copy_range_loop :: "fs_env \<Rightarrow> nat \<Rightarrow> nat \<Rightarrow> nat \<Rightarrow> bytes \<Rightarrow> nat \<Rightarrow> nat \<Rightarrow> unit fsm" where
  "copy_range_loop V dest_ino dest_offset sz buf dest_fh copied s =
     (if copied < sz then
        (if length buf < copied then (Inl FsPanic, s)
         else case fs_write V dest_ino dest_offset (drop copied buf) dest_fh s of
           (Inl e, s') \<Rightarrow> (Inl e, s')
         | (Inr len, s') \<Rightarrow>
             (if len = 0 then (Inl (FsOther ''Failed to copy all read bytes''), s')
              else copy_range_loop V dest_ino dest_offset sz buf dest_fh (copied + len) s'))
      else (Inr (), s))"
  by pat_completeness auto
termination
  by (relation "measure (\<lambda>(V, i, off, sz, buf, fh, copied, s). sz - copied)") auto

declare copy_range_loop.simps [simp del]

definition copy_file_range :: "fs_env \<Rightarrow> nat \<Rightarrow> nat \<Rightarrow> nat \<Rightarrow> nat \<Rightarrow> nat \<Rightarrow> nat \<Rightarrow> nat \<Rightarrow> nat fsm" where
  "copy_file_range V src_ino src_offset dest_ino dest_offset sz src_fh dest_fh =
     bnd (gets (\<lambda>s. is_dir s src_ino \<or> is_dir s dest_ino)) (\<lambda>d.
     if d then throw InvalidInodeType
     else
       bnd (fs_read V src_ino src_offset sz src_fh) (\<lambda>buf.
       if buf = [] then ret 0
       else bnd (copy_range_loop V dest_ino dest_offset sz buf dest_fh 0) (\<lambda>_. ret (length buf))))"

subsection \<open>Truncation\<close>

definition flush_and_reset_writers :: "fs_env \<Rightarrow> nat \<Rightarrow> unit fsm" where
  "flush_and_reset_writers V ino =
     bnd (gets (\<lambda>s. f_opened_write s ino)) (\<lambda>h. case h of None \<Rightarrow> ret ()
     | Some handle \<Rightarrow>
        bnd (gets (\<lambda>s. f_write_handles s handle)) (\<lambda>c. case c of None \<Rightarrow> ret ()
        | Some ctx \<Rightarrow>
           bnd (modif (f_write_handles_update (\<lambda>m. m(handle \<mapsto> ctx\<lparr>wc_writer := None\<rparr>)))) (\<lambda>_.
           case wc_writer ctx of None \<Rightarrow> throw FsPanic
           | Some w \<Rightarrow>
              bnd (finish_writer V (wc_obj ctx) w) (\<lambda>_.
              bnd (set_attr V ino (set_attr_of_times_and_size (wc_attr ctx))) (\<lambda>_.
              bnd (reset_handles V ino (Some handle) True) (\<lambda>_.
              bnd (open_content ino) (\<lambda>obj.
              bnd (fs_create_write_seek V obj) (\<lambda>writer.
              bnd (modif (f_write_handles_update (\<lambda>m. m(handle \<mapsto> ctx\<lparr>wc_writer := Some writer, wc_obj := obj\<rparr>)))) (\<lambda>_.
              bnd (get_inode_from_storage V ino) (\<lambda>attr.
              modif (f_write_handles_update (\<lambda>m. m(handle \<mapsto>
                ctx\<lparr>wc_writer := Some writer, wc_obj := obj, wc_attr := times_and_size_of_attr attr\<rparr>)))))))))))))"

text \<open>\<open>File::create\<close> on \<open>contents/<ino>\<close>: truncates the file in place, or creates it.\<close>

definition create_content_file :: "nat \<Rightarrow> unit fsm" where
  "create_content_file ino = (\<lambda>s. case st_contents (f_store s) ino of
     Some (CFile obj) \<Rightarrow> (Inr (), put_obj obj [] s)
   | Some (CDir _ _) \<Rightarrow> (Inl (FsIo (IoErr IsADirectory ''Is a directory'')), s)
   | None \<Rightarrow> (Inr (), s\<lparr>f_store := (f_store s)\<lparr>st_contents := (st_contents (f_store s))(ino \<mapsto> CFile (st_next_obj (f_store s))),
       st_objs := (st_objs (f_store s))(st_next_obj (f_store s) := []),
       st_next_obj := Suc (st_next_obj (f_store s))\<rparr>\<rparr>))"

text \<open>Committing an atomic write: the path now names a new object.\<close>

definition commit_content_file :: "nat \<Rightarrow> bytes \<Rightarrow> unit fsm" where
  "commit_content_file ino d = upd_store (\<lambda>st. st\<lparr>
     st_contents := (st_contents st)(ino \<mapsto> CFile (st_next_obj st)),
     st_objs := (st_objs st)(st_next_obj st := d), st_next_obj := Suc (st_next_obj st)\<rparr>)"

text \<open>The new bytes of a resized file: a copy of the kept part, then zeros.\<close>

definition resize_content :: "fs_env \<Rightarrow> nat \<Rightarrow> bytes \<Rightarrow> bytes \<Rightarrow> nat \<Rightarrow> nat \<Rightarrow> io_error + bytes" where
  "resize_content V seed key ct old_size sz =
     (case create_read (v_crypto V) (stream_of ct) (v_cipher V) key of Inl e \<Rightarrow> Inl e
      | Inr r \<Rightarrow> (case create_write (v_crypto V) seed (stream_of []) (v_cipher V) key of Inl e \<Rightarrow> Inl e
         | Inr w \<Rightarrow>
             (case copy_exact (ring_read (v_aead V)) (ring_write (v_aead V)) (if sz > old_size then old_size else sz) (r, w) of
                (Inl e, _) \<Rightarrow> Inl e
              | (Inr _, (_, w1)) \<Rightarrow>
                  (case result_of (bnd (whenM (sz > old_size) (fill_zeros (ring_write (v_aead V)) (sz - old_size)))
                          (\<lambda>_. ring_finish (v_aead V)) w1) of
                     Inl e \<Rightarrow> Inl e | Inr out \<Rightarrow> Inr (sdata out)))))"

definition set_len :: "fs_env \<Rightarrow> nat \<Rightarrow> nat \<Rightarrow> unit fsm" where
  "set_len V ino sz =
     bnd (get_attr V ino) (\<lambda>attr.
     if a_kind attr = Directory then throw InvalidInodeType
     else if sz = a_size attr then ret ()
     else
       bnd (flush_and_reset_writers V ino) (\<lambda>_.
       bnd (if sz = 0 then create_content_file ino
            else
              bnd (open_content ino) (\<lambda>obj.
              bnd create_rng (\<lambda>seed.
              bnd (gets (\<lambda>s. (st_objs (f_store s) obj, f_key s))) (\<lambda>(ct, key).
              bnd (lift_err io_err (resize_content V seed key ct (a_size attr) sz)) (\<lambda>ct'.
              commit_content_file ino ct'))))) (\<lambda>_.
       bnd system_time_now (\<lambda>now.
       bnd (set_attr2 V ino (with_atime now (with_ctime now (with_mtime now (with_size sz set_attr_default)))) True) (\<lambda>_.
       bnd (get_inode_from_storage V ino) (\<lambda>_.
       bnd (get_attr V ino) (\<lambda>attr.
       bnd (reset_handles V (a_ino attr) None False) (\<lambda>_.
       bnd (get_inode_from_storage V ino) (\<lambda>_.
       bnd (get_attr V ino) (\<lambda>_. ret ()))))))))))"

subsection \<open>Writing whole buffers\<close>

text \<open>
  \<open>write_all_bytes_to_fs\<close>: every round writes the rest of the buffer at the same offset.
\<close>

function write_all_bytes_loop :: "fs_env \<Rightarrow> nat \<Rightarrow> nat \<Rightarrow> bytes \<Rightarrow> nat \<Rightarrow> nat \<Rightarrow> unit fsm" where
  "write_all_bytes_loop V ino offset buf fh pos s =
     (if length buf < pos then (Inl FsPanic, s)
      else case fs_write V ino offset (drop pos buf) fh s of (Inl e, s') \<Rightarrow> (Inl e, s')
      | (Inr len, s') \<Rightarrow>
          (if pos + len = length buf then (Inr (), s')
           else if len = 0 then (Inl (FsOther ''Failed to write all bytes''), s')
           else write_all_bytes_loop V ino offset buf fh (pos + len) s'))"
  by pat_completeness auto
termination
  by (relation "measure (\<lambda>(V, i, off, buf, fh, pos, s). Suc (length buf) - pos)") auto

declare write_all_bytes_loop.simps [simp del]

definition write_all_bytes_to_fs :: "fs_env \<Rightarrow> nat \<Rightarrow> nat \<Rightarrow> bytes \<Rightarrow> nat \<Rightarrow> unit fsm" where
  "write_all_bytes_to_fs V ino offset buf fh =
     bnd (write_all_bytes_loop V ino offset buf fh 0) (\<lambda>_. fs_flush V fh)"

definition write_all_string_to_fs :: "fs_env \<Rightarrow> nat \<Rightarrow> nat \<Rightarrow> string \<Rightarrow> nat \<Rightarrow> unit fsm" where
  "write_all_string_to_fs V ino offset str fh = write_all_bytes_to_fs V ino offset (as_bytes str) fh"

end
