(* ===== verification/Fs_Dir.thy ===== *)
theory Fs_Dir
  imports Fs_File
begin

text \<open>
  Directory operations of \<open>EncryptedFs\<close> (\<open>src/encryptedfs.rs\<close>): creating and removing nodes,
  renaming, and the set-up of the root directory.
\<close>

subsection \<open>Inode numbers\<close>

text \<open>
  \<open>generate_next_inode\<close> draws until it finds a number above the root's with no inode file. The
  draws are \<open>v_rand\<close>; the fuel bounds the number of draws the model follows.
\<close>

fun find_free_inode :: "fs_env \<Rightarrow> nat \<Rightarrow> nat fsm" where
  "find_free_inode V 0 = throw OutOfFuel"
| "find_free_inode V (Suc fuel) =
     bnd create_rng (\<lambda>i.
     bnd (gets (\<lambda>s. v_rand V i \<le> ROOT_INODE \<or> ino_exists s (v_rand V i))) (\<lambda>again.
     if again then find_free_inode V fuel else ret (v_rand V i)))"

definition generate_next_inode :: "fs_env \<Rightarrow> nat fsm" where
  "generate_next_inode V = find_free_inode V (v_fuel V)"

subsection \<open>Create\<close>

text \<open>\<open>fs::create_dir\<close> of \<open>contents/<ino>\<close> with its subdirectories \<open>ls\<close> and \<open>hash\<close>.\<close>

definition create_content_dir :: "nat \<Rightarrow> unit fsm" where
  "create_content_dir ino = (\<lambda>s. case st_contents (f_store s) ino of
     None \<Rightarrow> (Inr (), s\<lparr>f_store := (f_store s)\<lparr>st_contents := (st_contents (f_store s))(ino \<mapsto> CDir [] [])\<rparr>\<rparr>)
   | Some _ \<Rightarrow> (Inl (FsIo (IoErr AlreadyExists ''File exists'')), s))"

definition touch_dir :: "fs_env \<Rightarrow> nat \<Rightarrow> unit fsm" where
  "touch_dir V ino =
     bnd system_time_now (\<lambda>now.
     set_attr V ino (with_atime now (with_ctime now (with_mtime now set_attr_default))))"

definition create :: "fs_env \<Rightarrow> nat \<Rightarrow> string \<Rightarrow> create_file_attr \<Rightarrow> bool \<Rightarrow> bool \<Rightarrow> (nat \<times> file_attr) fsm" where
  "create V parent name create_attr rd wr =
     (if name = ''.'' \<or> name = ''..'' then throw (FsInvalidInput ''name cannot be . or ..'')
      else
        bnd (gets (\<lambda>s. ino_exists s parent)) (\<lambda>ex.
        if \<not> ex then throw InodeNotFound
        else
          bnd (exists_by_name V parent name) (\<lambda>taken.
          if taken then throw FsAlreadyExists
          else
            bnd system_time_now (\<lambda>now.
            bnd (generate_next_inode V) (\<lambda>ino.
            let attr = (file_attr_of_create now create_attr)\<lparr>a_ino := ino\<rparr> in
            bnd (write_inode_to_storage V attr) (\<lambda>_.
            bnd (case a_kind attr of
                   RegularFile \<Rightarrow> create_content_file ino
                 | Directory \<Rightarrow>
                     bnd (create_content_dir ino) (\<lambda>_.
                     bnd (insert_directory_entry V ino \<lparr>de_ino = ino, de_name = ''$.'', de_kind = Directory\<rparr>) (\<lambda>_.
                     insert_directory_entry V ino \<lparr>de_ino = parent, de_name = ''$..'', de_kind = Directory\<rparr>))) (\<lambda>_.
            bnd (insert_directory_entry V parent \<lparr>de_ino = ino, de_name = name, de_kind = a_kind attr\<rparr>) (\<lambda>_.
            bnd (touch_dir V parent) (\<lambda>_.
            bnd (if a_kind attr = RegularFile \<and> (rd \<or> wr) then fs_open V ino rd wr else ret 0) (\<lambda>handle.
            ret (handle, attr)))))))))))"

subsection \<open>Remove\<close>

definition remove_ino_file :: "nat \<Rightarrow> unit fsm" where
  "remove_ino_file ino = (\<lambda>s. case st_inodes (f_store s) ino of None \<Rightarrow> (Inl no_entry, s)
     | Some _ \<Rightarrow> (Inr (), s\<lparr>f_store := (f_store s)\<lparr>st_inodes := (st_inodes (f_store s))(ino := None)\<rparr>\<rparr>))"

text \<open>\<open>fs::remove_dir_all\<close> and \<open>fs::remove_file\<close> on \<open>contents/<ino>\<close>.\<close>

definition remove_content_dir :: "nat \<Rightarrow> unit fsm" where
  "remove_content_dir ino = (\<lambda>s. case st_contents (f_store s) ino of
     Some (CDir _ _) \<Rightarrow> (Inr (), s\<lparr>f_store := (f_store s)\<lparr>st_contents := (st_contents (f_store s))(ino := None)\<rparr>\<rparr>)
   | Some (CFile _) \<Rightarrow> (Inl (FsIo (IoErr NotADirectory ''Not a directory'')), s)
   | None \<Rightarrow> (Inl no_entry, s))"

definition remove_content_file :: "nat \<Rightarrow> unit fsm" where
  "remove_content_file ino = (\<lambda>s. case st_contents (f_store s) ino of
     Some (CFile _) \<Rightarrow> (Inr (), s\<lparr>f_store := (f_store s)\<lparr>st_contents := (st_contents (f_store s))(ino := None)\<rparr>\<rparr>)
   | Some (CDir _ _) \<Rightarrow> (Inl (FsIo (IoErr IsADirectory ''Is a directory'')), s)
   | None \<Rightarrow> (Inl no_entry, s))"

text \<open>
  The lookup both removals start with, and the steps after the inode file and the content are
  gone. \<open>LruCache::demote\<close> moves an entry to the end of the eviction order and keeps it.
\<close>

definition find_for_removal :: "fs_env \<Rightarrow> nat \<Rightarrow> string \<Rightarrow> file_attr fsm" where
  "find_for_removal V parent name =
     bnd (gets (\<lambda>s. is_dir s parent)) (\<lambda>d.
     if \<not> d then throw InvalidInodeType
     else
       bnd (exists_by_name V parent name) (\<lambda>ex.
       if \<not> ex then throw (FsNotFound ''name not found'')
       else
         bnd (find_by_name V parent name) (\<lambda>a. case a of None \<Rightarrow> throw (FsNotFound ''name not found'') | Some attr \<Rightarrow> ret attr)))"

definition demote_attr :: "nat \<Rightarrow> unit fsm" where
  "demote_attr ino = ret ()"

definition unlink_entry :: "fs_env \<Rightarrow> nat \<Rightarrow> string \<Rightarrow> nat \<Rightarrow> unit fsm" where
  "unlink_entry V parent name ino =
     bnd (remove_directory_entry V parent name) (\<lambda>_.
     bnd (demote_attr ino) (\<lambda>_. touch_dir V parent))"

definition remove_dir :: "fs_env \<Rightarrow> nat \<Rightarrow> string \<Rightarrow> unit fsm" where
  "remove_dir V parent name =
     bnd (find_for_removal V parent name) (\<lambda>attr.
     if a_kind attr \<noteq> Directory then throw InvalidInodeType
     else
       bnd (fs_len (a_ino attr)) (\<lambda>n.
       if n > 0 then throw NotEmpty
       else
         bnd (remove_ino_file (a_ino attr)) (\<lambda>_.
         bnd (remove_content_dir (a_ino attr)) (\<lambda>_.
         unlink_entry V parent name (a_ino attr)))))"

definition remove_file :: "fs_env \<Rightarrow> nat \<Rightarrow> string \<Rightarrow> unit fsm" where
  "remove_file V parent name =
     bnd (find_for_removal V parent name) (\<lambda>attr.
     if a_kind attr \<noteq> RegularFile then throw InvalidInodeType
     else
       bnd (remove_ino_file (a_ino attr)) (\<lambda>_.
       bnd (remove_content_file (a_ino attr)) (\<lambda>_.
       unlink_entry V parent name (a_ino attr))))"

subsection \<open>Rename\<close>

definition rename_checks :: "fs_env \<Rightarrow> nat \<Rightarrow> string \<Rightarrow> nat \<Rightarrow> unit fsm" where
  "rename_checks V parent name new_parent =
     bnd (gets (\<lambda>s. s)) (\<lambda>s.
     if \<not> ino_exists s parent then throw InodeNotFound
     else if \<not> is_dir s parent then throw InvalidInodeType
     else if \<not> ino_exists s new_parent then throw InodeNotFound
     else if \<not> is_dir s new_parent then throw InvalidInodeType
     else bnd (exists_by_name V parent name) (\<lambda>ex. if ex then ret () else throw (FsNotFound ''name not found'')))"

text \<open>An existing target directory must be empty; an error of the lookup is ignored.\<close>

definition check_target_empty :: "fs_env \<Rightarrow> nat \<Rightarrow> string \<Rightarrow> unit fsm" where
  "check_target_empty V new_parent new_name =
     bnd (attempt (find_by_name V new_parent new_name)) (\<lambda>r. case r of
       Inr (Some new_attr) \<Rightarrow>
         (if a_kind new_attr = Directory
          then bnd (fs_len (a_ino new_attr)) (\<lambda>n. if n > 0 then throw NotEmpty else ret ())
          else ret ())
     | _ \<Rightarrow> ret ())"

definition fs_rename :: "fs_env \<Rightarrow> nat \<Rightarrow> string \<Rightarrow> nat \<Rightarrow> string \<Rightarrow> unit fsm" where
  "fs_rename V parent name new_parent new_name =
     bnd (rename_checks V parent name new_parent) (\<lambda>_.
     if parent = new_parent \<and> name = new_name then ret ()
     else
       bnd (check_target_empty V new_parent new_name) (\<lambda>_.
       bnd (find_by_name V parent name) (\<lambda>a. case a of None \<Rightarrow> throw (FsNotFound ''name not found'')
       | Some attr \<Rightarrow>
           bnd (remove_directory_entry V parent name) (\<lambda>_.
           bnd (exists_by_name V new_parent new_name) (\<lambda>ex.
           bnd (whenM ex (remove_directory_entry V new_parent new_name)) (\<lambda>_.
           bnd (insert_directory_entry V new_parent \<lparr>de_ino = a_ino attr, de_name = new_name, de_kind = a_kind attr\<rparr>) (\<lambda>_.
           bnd (whenM (a_kind attr = Directory)
                  (insert_directory_entry V (a_ino attr) \<lparr>de_ino = new_parent, de_name = ''$..'', de_kind = Directory\<rparr>)) (\<lambda>_.
           bnd system_time_now (\<lambda>now.
           bnd (set_attr V parent (with_atime now (with_ctime now (with_mtime now set_attr_default)))) (\<lambda>_.
           bnd (set_attr V new_parent (with_atime now (with_ctime now (with_mtime now set_attr_default)))) (\<lambda>_.
           set_attr V (a_ino attr) (with_atime now (with_ctime now set_attr_default)))))))))))))"

subsection \<open>The root directory\<close>

text \<open>\<open>uid\<close> and \<open>gid\<close> are those of the process.\<close>

definition ensure_root_exists :: "fs_env \<Rightarrow> 32 word \<Rightarrow> 32 word \<Rightarrow> unit fsm" where
  "ensure_root_exists V uid gid =
     bnd (gets (\<lambda>s. ino_exists s ROOT_INODE)) (\<lambda>ex.
     if ex then ret ()
     else
       bnd system_time_now (\<lambda>now.
       let attr = (file_attr_of_create now \<lparr>c_kind = Directory, c_perm = 493, c_uid = 0, c_gid = 0, c_rdev = 0, c_flags = 0\<rparr>)
             \<lparr>a_ino := ROOT_INODE, a_uid := uid, a_gid := gid\<rparr> in
       bnd (write_inode_to_storage V attr) (\<lambda>_.
       bnd (create_content_dir ROOT_INODE) (\<lambda>_.
       insert_directory_entry V ROOT_INODE \<lparr>de_ino = ROOT_INODE, de_name = ''$.'', de_kind = Directory\<rparr>))))"

text \<open>
  \<open>EncryptedFs::new\<close> on a data directory whose structure has been checked and whose key has been
  read (theory \<open>Key_Management\<close>).
\<close>

definition fs_new :: "fs_env \<Rightarrow> 32 word \<Rightarrow> 32 word \<Rightarrow> store \<Rightarrow> bytes \<Rightarrow> time \<Rightarrow> nat \<Rightarrow> fs_error + encrypted_fs" where
  "fs_new V uid gid st key now rng =
     (let s = \<lparr>f_store = st, f_key = key, f_write_handles = Map.empty, f_read_handles = Map.empty, f_current_handle = 1,
           f_opened_read = Map.empty, f_opened_write = Map.empty, f_attr_cache = Map.empty, f_name_cache = Map.empty,
           f_meta_cache = Map.empty, f_time = now, f_rng = rng\<rparr> in
      case ensure_root_exists V uid gid s of (Inl e, _) \<Rightarrow> Inl e | (Inr _, s') \<Rightarrow> Inr s')"

end
