(* ===== verification/Fs_Meta.thy ===== *)
theory Fs_Meta
  imports Fs_Dir
begin

text \<open>
  Correctness of the metadata layer: inode files and directory entries as maps. The encrypted
  files of the data directory are read through \<open>stored_attr\<close> and \<open>dir_lookup\<close>; every operation
  is described by what it does to these two maps and by what it leaves alone.
\<close>

subsection \<open>Saving and loading\<close>

definition key_ok :: "fs_env \<Rightarrow> bytes \<Rightarrow> bool" where
  "key_ok V key \<longleftrightarrow> length key = key_len (v_crypto V) (v_cipher V)"

lemma fs_env_okD:
  assumes "fs_env_ok V"
  shows "crypto_ok (v_crypto V)" "v_de_attr V (concat (v_ser_attr V a)) = Some a"
    "v_de_entry V (concat (v_ser_entry V e)) = Some e" "v_de_hash V (concat (v_ser_hash V h)) = Some h"
  using assms unfolding fs_env_ok_def by blast+

text \<open>The bytes of an encrypted file that holds \<open>d\<close>.\<close>

definition stored :: "fs_env \<Rightarrow> bytes \<Rightarrow> bytes \<Rightarrow> bytes \<Rightarrow> bool" where
  "stored V key ct d \<longleftrightarrow> read_to_end (v_crypto V) (v_cipher V) key ct = Inr d"

lemma load_stored: "stored V key ct d \<Longrightarrow> de d = Some v \<Longrightarrow> load_meta V de key ct = Inr v"
  by (simp add: stored_def load_meta_def)

lemma save_meta_ok:
  assumes V: "fs_env_ok V" "key_ok V (f_key s)"
  obtains ct where "save_meta V ds s = (Inr ct, s\<lparr>f_rng := Suc (f_rng s)\<rparr>)"
    "stored V (f_key s) ct (concat ds)"
proof -
  obtain ct where ct: "write_pieces (v_crypto V) (f_rng s) (v_cipher V) (f_key s) ds = Inr ct"
      "read_to_end (v_crypto V) (v_cipher V) (f_key s) ct = Inr (concat ds)"
    using write_pieces_ok [OF fs_env_okD(1) [OF V(1)] V(2) [unfolded key_ok_def]] by metis
  then show thesis using that
    by (simp add: save_meta_def create_rng_def serialize_encrypt_into_def lift_err_def stored_def)
qed

subsection \<open>Inodes\<close>

definition stored_attr :: "fs_env \<Rightarrow> encrypted_fs \<Rightarrow> nat \<Rightarrow> file_attr option" where
  "stored_attr V s ino = (case st_inodes (f_store s) ino of None \<Rightarrow> None
     | Some ct \<Rightarrow> (case load_meta V (v_de_attr V) (f_key s) ct of Inl _ \<Rightarrow> None | Inr a \<Rightarrow> Some a))"

text \<open>The attribute cache agrees with the storage on every inode that exists.\<close>

definition attr_cache_ok :: "fs_env \<Rightarrow> encrypted_fs \<Rightarrow> bool" where
  "attr_cache_ok V s \<longleftrightarrow> (\<forall>ino a. f_attr_cache s ino = Some a \<longrightarrow> ino_exists s ino \<longrightarrow> stored_attr V s ino = Some a)"

definition inodes_ok :: "fs_env \<Rightarrow> encrypted_fs \<Rightarrow> bool" where
  "inodes_ok V s \<longleftrightarrow> key_ok V (f_key s) \<and> attr_cache_ok V s
     \<and> (\<forall>ino. ino_exists s ino \<longrightarrow> (\<exists>a. stored_attr V s ino = Some a \<and> a_ino a = ino))"

lemma stored_attr_cong: "f_store s' = f_store s \<Longrightarrow> f_key s' = f_key s \<Longrightarrow> stored_attr V s' = stored_attr V s"
  by (auto simp: stored_attr_def fun_eq_iff cong: option.case_cong)

lemma stored_attr_upd [simp]:
  "stored_attr V (s\<lparr>f_attr_cache := c\<rparr>) = stored_attr V s" "stored_attr V (s\<lparr>f_time := t\<rparr>) = stored_attr V s"
  "stored_attr V (s\<lparr>f_rng := r\<rparr>) = stored_attr V s" "stored_attr V (s\<lparr>f_read_handles := rh\<rparr>) = stored_attr V s"
  "stored_attr V (s\<lparr>f_write_handles := wh\<rparr>) = stored_attr V s" "stored_attr V (s\<lparr>f_opened_read := o1\<rparr>) = stored_attr V s"
  "stored_attr V (s\<lparr>f_opened_write := o2\<rparr>) = stored_attr V s" "stored_attr V (s\<lparr>f_current_handle := h\<rparr>) = stored_attr V s"
  by (rule stored_attr_cong; simp)+

lemma ino_exists_upd [simp]:
  "ino_exists (s\<lparr>f_attr_cache := c\<rparr>) = ino_exists s" "ino_exists (s\<lparr>f_time := t\<rparr>) = ino_exists s"
  "ino_exists (s\<lparr>f_rng := r\<rparr>) = ino_exists s" "ino_exists (s\<lparr>f_read_handles := rh\<rparr>) = ino_exists s"
  "ino_exists (s\<lparr>f_write_handles := wh\<rparr>) = ino_exists s" "ino_exists (s\<lparr>f_opened_read := o1\<rparr>) = ino_exists s"
  "ino_exists (s\<lparr>f_opened_write := o2\<rparr>) = ino_exists s" "ino_exists (s\<lparr>f_current_handle := h\<rparr>) = ino_exists s"
  by (simp_all add: ino_exists_def fun_eq_iff)

lemma stored_attr_exists: "stored_attr V s ino = Some a \<Longrightarrow> ino_exists s ino"
  by (auto simp: stored_attr_def ino_exists_def split: option.splits)

lemma get_inode_from_storage_eq:
  "stored_attr V s ino = Some a \<Longrightarrow> get_inode_from_storage V ino s = (Inr a, s)"
  by (auto simp: stored_attr_def get_inode_from_storage_def split: option.splits sum.splits)

lemma get_inode_cached:
  assumes "inodes_ok V s" "stored_attr V s ino = Some a"
  shows "get_inode_from_cache_or_storage V ino s = (Inr a, s\<lparr>f_attr_cache := (f_attr_cache s)(ino \<mapsto> a)\<rparr>)"
proof (cases "f_attr_cache s ino")
  case None
  with get_inode_from_storage_eq [OF assms(2)] show ?thesis by (simp add: get_inode_from_cache_or_storage_def)
next
  case (Some b)
  with assms stored_attr_exists [OF assms(2)] have "b = a" by (auto simp: inodes_ok_def attr_cache_ok_def)
  with Some have "s\<lparr>f_attr_cache := (f_attr_cache s)(ino \<mapsto> a)\<rparr> = s" by (simp add: fun_upd_idem)
  with Some \<open>b = a\<close> show ?thesis by (simp add: get_inode_from_cache_or_storage_def)
qed

lemma inodes_ok_cache:
  "inodes_ok V s \<Longrightarrow> stored_attr V s ino = Some a \<Longrightarrow> inodes_ok V (s\<lparr>f_attr_cache := (f_attr_cache s)(ino \<mapsto> a)\<rparr>)"
  by (auto simp: inodes_ok_def attr_cache_ok_def)

text \<open>
  Reading and changing attributes. \<open>same_but_meta\<close> says that only inode files, the attribute
  cache, the clock and the generator differ.
\<close>

definition same_but_meta :: "encrypted_fs \<Rightarrow> encrypted_fs \<Rightarrow> bool" where
  "same_but_meta s s' \<longleftrightarrow> s' = s\<lparr>f_rng := f_rng s', f_time := f_time s', f_attr_cache := f_attr_cache s',
     f_store := (f_store s)\<lparr>st_inodes := st_inodes (f_store s')\<rparr>\<rparr>"

lemma same_but_metaD:
  assumes "same_but_meta s s'"
  shows "st_contents (f_store s') = st_contents (f_store s)" "st_objs (f_store s') = st_objs (f_store s)"
    "f_key s' = f_key s" "f_read_handles s' = f_read_handles s" "f_write_handles s' = f_write_handles s"
    "f_opened_read s' = f_opened_read s" "f_opened_write s' = f_opened_write s"
    "f_current_handle s' = f_current_handle s" "st_next_obj (f_store s') = st_next_obj (f_store s)"
    "f_name_cache s' = f_name_cache s" "f_meta_cache s' = f_meta_cache s"
proof -
  obtain r t c i where "s' = s\<lparr>f_rng := r, f_time := t, f_attr_cache := c, f_store := (f_store s)\<lparr>st_inodes := i\<rparr>\<rparr>"
    using assms unfolding same_but_meta_def by blast
  then show "st_contents (f_store s') = st_contents (f_store s)" "st_objs (f_store s') = st_objs (f_store s)"
    "f_key s' = f_key s" "f_read_handles s' = f_read_handles s" "f_write_handles s' = f_write_handles s"
    "f_opened_read s' = f_opened_read s" "f_opened_write s' = f_opened_write s"
    "f_current_handle s' = f_current_handle s" "st_next_obj (f_store s') = st_next_obj (f_store s)"
    "f_name_cache s' = f_name_cache s" "f_meta_cache s' = f_meta_cache s" by simp_all
qed

lemma same_but_meta_trans:
  assumes "same_but_meta s s'" "same_but_meta s' s''"
  shows "same_but_meta s s''"
  using same_but_metaD [OF assms(1)] same_but_metaD [OF assms(2)]
  by (simp add: same_but_meta_def encrypted_fs.equality store.equality)

lemma same_but_meta_is [simp]:
  "same_but_meta s s' \<Longrightarrow> is_dir s' = is_dir s" "same_but_meta s s' \<Longrightarrow> is_file s' = is_file s"
  by (auto simp: is_dir_def is_file_def fun_eq_iff same_but_metaD)

lemma write_inode_ok:
  assumes V: "fs_env_ok V" and inv: "inodes_ok V s"
  obtains s' where "write_inode_to_storage V a s = (Inr (), s')" "inodes_ok V s'"
    "stored_attr V s' = (stored_attr V s)(a_ino a \<mapsto> a)" "f_attr_cache s' (a_ino a) = Some a"
    "same_but_meta s s'" "f_time s' = f_time s"
    "\<forall>i. i \<noteq> a_ino a \<longrightarrow> st_inodes (f_store s') i = st_inodes (f_store s) i" "f_rng s' = Suc (f_rng s)"
    "\<forall>i. i \<noteq> a_ino a \<longrightarrow> f_attr_cache s' i = f_attr_cache s i"
proof -
  have k: "key_ok V (f_key s)" using inv by (simp add: inodes_ok_def)
  obtain ct where ct: "save_meta V (v_ser_attr V a) s = (Inr ct, s\<lparr>f_rng := Suc (f_rng s)\<rparr>)"
    "load_meta V (v_de_attr V) (f_key s) ct = Inr a"
    using save_meta_ok [OF V k, of "v_ser_attr V a"] load_stored [where de = "v_de_attr V"] fs_env_okD(2) [OF V] by metis
  let ?s = "s\<lparr>f_rng := Suc (f_rng s), f_store := (f_store s)\<lparr>st_inodes := (st_inodes (f_store s))(a_ino a \<mapsto> ct)\<rparr>,
      f_attr_cache := (f_attr_cache s)(a_ino a \<mapsto> a)\<rparr>"
  have step: "write_inode_to_storage V a s = (Inr (), ?s)"
    using ct(1) by (simp add: write_inode_to_storage_def)
  have st: "stored_attr V ?s = (stored_attr V s)(a_ino a \<mapsto> a)"
    using ct(2) by (auto simp: stored_attr_def fun_eq_iff split: option.split)
  have "inodes_ok V ?s"
    using inv unfolding inodes_ok_def attr_cache_ok_def st by (auto simp: ino_exists_def)
  with st step show thesis by (intro that [of ?s]) (simp_all add: same_but_meta_def)
qed

lemma merge_open_handles_cong:
  "f_opened_read s' = f_opened_read s \<Longrightarrow> f_read_handles s' = f_read_handles s \<Longrightarrow> f_opened_write s' = f_opened_write s
    \<Longrightarrow> f_write_handles s' = f_write_handles s \<Longrightarrow> merge_open_handles s' = merge_open_handles s"
  by (simp add: merge_open_handles_def fun_eq_iff cong: option.case_cong)

lemma get_attr_ok:
  assumes "inodes_ok V s" "stored_attr V s ino = Some a"
  obtains s' where "get_attr V ino s = (Inr (merge_open_handles s ino a), s')" "inodes_ok V s'"
    "stored_attr V s' = stored_attr V s" "same_but_meta s s'" "f_time s' = f_time s"
    "\<forall>i. i \<noteq> ino \<longrightarrow> f_attr_cache s' i = f_attr_cache s i" "f_store s' = f_store s"
proof -
  let ?s = "s\<lparr>f_attr_cache := (f_attr_cache s)(ino \<mapsto> a)\<rparr>"
  have "get_attr V ino s = (Inr (merge_open_handles s ino a), ?s)"
    using get_inode_cached [OF assms] merge_open_handles_cong [of ?s s] by (simp add: get_attr_def)
  moreover have "stored_attr V ?s = stored_attr V s" by simp
  moreover have "same_but_meta s ?s" by (simp add: same_but_meta_def)
  ultimately show thesis using that [of ?s] inodes_ok_cache [OF assms] by simp
qed

lemma merge_fold_keeps:
  assumes "\<And>fh a. a_ino (f fh a) = a_ino a" "\<And>fh a. a_kind (f fh a) = a_kind a"
  shows "a_ino (fold f fhs a) = a_ino a" "a_kind (fold f fhs a) = a_kind a"
  by (induction fhs arbitrary: a) (simp_all add: assms)

lemma merge_open_handles_keeps [simp]:
  "a_ino (merge_open_handles s ino a) = a_ino a" "a_kind (merge_open_handles s ino a) = a_kind a"
proof -
  have f: "a_ino (fold (\<lambda>fh a. case f_read_handles s fh of None \<Rightarrow> a
      | Some ctx \<Rightarrow> merge_attr a (set_attr_of_times (rc_attr ctx)) False) fhs a) = a_ino a"
    "a_kind (fold (\<lambda>fh a. case f_read_handles s fh of None \<Rightarrow> a
      | Some ctx \<Rightarrow> merge_attr a (set_attr_of_times (rc_attr ctx)) False) fhs a) = a_kind a" for fhs a
    by (rule merge_fold_keeps; simp split: option.split)+
  show "a_ino (merge_open_handles s ino a) = a_ino a" "a_kind (merge_open_handles s ino a) = a_kind a"
    by (simp_all add: merge_open_handles_def Let_def f split: option.split)
qed

lemma set_attr2_ok:
  assumes V: "fs_env_ok V" and inv: "inodes_ok V s" and a: "stored_attr V s ino = Some a"
  defines "a' \<equiv> \<lambda>sa ov. (merge_attr (merge_open_handles s ino a) sa ov)\<lparr>a_ctime := f_time s, a_atime := f_time s\<rparr>"
  obtains s' where "set_attr2 V ino sa ov s = (Inr (), s')" "inodes_ok V s'"
    "stored_attr V s' = (stored_attr V s)(ino \<mapsto> a' sa ov)" "same_but_meta s s'" "f_time s' = Suc (f_time s)"
    "ino_exists s' = ino_exists s" "\<forall>i. i \<noteq> ino \<longrightarrow> f_attr_cache s' i = f_attr_cache s i"
proof -
  have ino: "a_ino a = ino" using inv a stored_attr_exists [OF a] by (auto simp: inodes_ok_def)
  obtain s1 where s1: "get_attr V ino s = (Inr (merge_open_handles s ino a), s1)" "inodes_ok V s1"
    "stored_attr V s1 = stored_attr V s" "same_but_meta s s1" "f_time s1 = f_time s"
    "\<forall>i. i \<noteq> ino \<longrightarrow> f_attr_cache s1 i = f_attr_cache s i"
    by (rule get_attr_ok [OF inv a]) (rule that; assumption)
  let ?s1 = "s1\<lparr>f_time := Suc (f_time s1)\<rparr>"
  have inv1: "inodes_ok V ?s1" using s1(2) by (simp add: inodes_ok_def attr_cache_ok_def)
  have st1: "stored_attr V ?s1 = stored_attr V s" using s1(3) by simp
  have aino: "a_ino (a' sa ov) = ino" using ino by (simp add: a'_def)
  obtain s' where s': "write_inode_to_storage V (a' sa ov) ?s1 = (Inr (), s')" "inodes_ok V s'"
    "stored_attr V s' = (stored_attr V s)(ino \<mapsto> a' sa ov)"
    "same_but_meta ?s1 s'" "f_time s' = f_time ?s1" "\<forall>i. i \<noteq> ino \<longrightarrow> f_attr_cache s' i = f_attr_cache ?s1 i"
    by (rule write_inode_ok [OF V inv1, of "a' sa ov", unfolded st1 aino]) (rule that; assumption)
  have "set_attr2 V ino sa ov s = (Inr (), s')"
    using s1(1,5) s'(1) by (simp add: set_attr2_def system_time_now_def a'_def)
  moreover have "f_time s' = Suc (f_time s)" using s1(5) s'(5) by simp
  moreover have "same_but_meta s1 ?s1" by (simp add: same_but_meta_def)
  then have "same_but_meta s s'" using s1(4) s'(4) same_but_meta_trans by blast
  moreover have "ino_exists s' = ino_exists s"
  proof
    fix i
    show "ino_exists s' i = ino_exists s i"
    proof (cases "i = ino")
      case True
      then show ?thesis using s'(3) stored_attr_exists [of V s' ino] stored_attr_exists [OF a] by auto
    next
      case False
      have "ino_exists s'' i \<longleftrightarrow> stored_attr V s'' i \<noteq> None" if "inodes_ok V s''" for s''
        using that stored_attr_exists [of V s'' i] by (auto simp: inodes_ok_def)
      from this [OF s'(2)] this [OF inv] s'(3) False show ?thesis by simp
    qed
  qed
  moreover have "\<forall>i. i \<noteq> ino \<longrightarrow> f_attr_cache s' i = f_attr_cache s i" using s1(6) s'(6) by simp
  ultimately show thesis using that s'(2,3) by blast
qed

end
