(* ===== verification/Fs_Entries.thy ===== *)
theory Fs_Entries
  imports Fs_Meta
begin

text \<open>
  Directories as maps from names to entries. The contract of such a map is a locale; the lemmas
  the directory operations need (replacing and moving an entry) are proved in it, and it is
  interpreted on the \<open>hash\<close> directories of the data directory.
\<close>

subsection \<open>The contract\<close>

locale dir_map =
  fixes look :: "'s \<Rightarrow> 'd \<Rightarrow> 'n \<Rightarrow> 'v option"
    and ins :: "'d \<Rightarrow> 'n \<Rightarrow> 'v \<Rightarrow> 's \<Rightarrow> 's"
    and del :: "'d \<Rightarrow> 'n \<Rightarrow> 's \<Rightarrow> 's"
    and dir :: "'s \<Rightarrow> 'd \<Rightarrow> bool"
  assumes look_ins: "dir s d \<Longrightarrow> look (ins d n v s) e m = (if e = d \<and> m = n then Some v else look s e m)"
    and look_del: "look (del d n s) e m = (if e = d \<and> m = n then None else look s e m)"
    and dir_ins: "dir (ins d n v s) = dir s"
    and dir_del: "dir (del d n s) = dir s"
begin

text \<open>Moving an entry: the source goes, the target is replaced, nothing else changes.\<close>

lemma move:
  assumes "dir s d'"
  shows "look (ins d' n' v (del d' n' (del d n s))) e m =
     (if e = d' \<and> m = n' then Some v else if e = d \<and> m = n then None else look s e m)"
  using assms by (simp add: look_ins look_del dir_del)

lemma ins_ins:
  assumes "dir s d"
  shows "look (ins d n v (ins d n w s)) e m = look (ins d n v s) e m"
  using assms by (simp add: look_ins dir_ins)

lemma del_ins:
  assumes "dir s d" "look s d n = None"
  shows "look (del d n (ins d n v s)) e m = look s e m"
  using assms by (simp add: look_ins look_del)

end

subsection \<open>The hash directories\<close>

definition hash_of :: "store \<Rightarrow> nat \<Rightarrow> string \<Rightarrow> bytes option" where
  "hash_of st dir hn = (case st_contents st dir of Some (CDir l h) \<Rightarrow> map_of h hn | _ \<Rightarrow> None)"

definition ls_of :: "store \<Rightarrow> nat \<Rightarrow> string \<Rightarrow> bytes option" where
  "ls_of st dir n = (case st_contents st dir of Some (CDir l h) \<Rightarrow> map_of l n | _ \<Rightarrow> None)"

definition st_is_dir :: "store \<Rightarrow> nat \<Rightarrow> bool" where
  "st_is_dir st dir \<longleftrightarrow> (case st_contents st dir of Some (CDir _ _) \<Rightarrow> True | _ \<Rightarrow> False)"

definition st_put_hash :: "nat \<Rightarrow> string \<Rightarrow> bytes \<Rightarrow> store \<Rightarrow> store" where
  "st_put_hash dir hn ct st = (case st_contents st dir of
     Some (CDir l h) \<Rightarrow> st\<lparr>st_contents := (st_contents st)(dir \<mapsto> CDir l (AList.update hn ct h))\<rparr> | _ \<Rightarrow> st)"

definition st_del_hash :: "nat \<Rightarrow> string \<Rightarrow> store \<Rightarrow> store" where
  "st_del_hash dir hn st = (case st_contents st dir of
     Some (CDir l h) \<Rightarrow> st\<lparr>st_contents := (st_contents st)(dir \<mapsto> CDir l (AList.delete hn h))\<rparr> | _ \<Rightarrow> st)"

definition st_put_ls :: "nat \<Rightarrow> string \<Rightarrow> bytes \<Rightarrow> store \<Rightarrow> store" where
  "st_put_ls dir n ct st = (case st_contents st dir of
     Some (CDir l h) \<Rightarrow> st\<lparr>st_contents := (st_contents st)(dir \<mapsto> CDir (AList.update n ct l) h)\<rparr> | _ \<Rightarrow> st)"

definition st_del_ls :: "nat \<Rightarrow> string \<Rightarrow> store \<Rightarrow> store" where
  "st_del_ls dir n st = (case st_contents st dir of
     Some (CDir l h) \<Rightarrow> st\<lparr>st_contents := (st_contents st)(dir \<mapsto> CDir (AList.delete n l) h)\<rparr> | _ \<Rightarrow> st)"

lemma content_cases:
  fixes c :: "content option"
  obtains "c = None" | obj where "c = Some (CFile obj)" | l h where "c = Some (CDir l h)"
  by (metis content.exhaust option.exhaust)

lemma hash_of_put:
  "hash_of (st_put_hash d hn ct st) e m = (if st_is_dir st d \<and> e = d \<and> m = hn then Some ct else hash_of st e m)"
  by (cases "st_contents st d" rule: content_cases)
     (auto simp: hash_of_def st_put_hash_def st_is_dir_def update_conv')

lemma hash_of_del:
  "hash_of (st_del_hash d hn st) e m = (if e = d \<and> m = hn then None else hash_of st e m)"
  by (cases "st_contents st d" rule: content_cases)
     (auto simp: hash_of_def st_del_hash_def delete_conv')

lemma ls_of_put:
  "ls_of (st_put_ls d n ct st) e m = (if st_is_dir st d \<and> e = d \<and> m = n then Some ct else ls_of st e m)"
  by (cases "st_contents st d" rule: content_cases)
     (auto simp: ls_of_def st_put_ls_def st_is_dir_def update_conv')

lemma ls_of_del:
  "ls_of (st_del_ls d n st) e m = (if e = d \<and> m = n then None else ls_of st e m)"
  by (cases "st_contents st d" rule: content_cases)
     (auto simp: ls_of_def st_del_ls_def delete_conv')

lemma st_is_dir_replace:
  "st_contents st d = Some (CDir l h) \<Longrightarrow>
     st_is_dir (st\<lparr>st_contents := (st_contents st)(d \<mapsto> CDir l' h')\<rparr>) = st_is_dir st"
  by (simp add: st_is_dir_def fun_eq_iff)

lemma st_is_dir_upd [simp]:
  "st_is_dir (st_put_hash d n ct st) = st_is_dir st" "st_is_dir (st_del_hash d n st) = st_is_dir st"
  "st_is_dir (st_put_ls d n ct st) = st_is_dir st" "st_is_dir (st_del_ls d n st) = st_is_dir st"
  by (cases "st_contents st d" rule: content_cases;
      simp add: st_put_hash_def st_del_hash_def st_put_ls_def st_del_ls_def st_is_dir_replace)+

interpretation hash_map: dir_map hash_of st_put_hash st_del_hash st_is_dir
  by unfold_locales (auto simp: hash_of_put hash_of_del)

interpretation ls_map: dir_map ls_of st_put_ls st_del_ls st_is_dir
  by unfold_locales (auto simp: ls_of_put ls_of_del)

lemma hash_ls_frame [simp]:
  "hash_of (st_put_ls d n ct st) = hash_of st" "hash_of (st_del_ls d n st) = hash_of st"
  "ls_of (st_put_hash d n ct st) = ls_of st" "ls_of (st_del_hash d n st) = ls_of st"
  by (auto simp: hash_of_def ls_of_def st_put_ls_def st_del_ls_def st_put_hash_def st_del_hash_def fun_eq_iff
      split: option.split content.split)

lemma st_upd_frame [simp]:
  "st_inodes (st_put_ls d n ct st) = st_inodes st" "st_inodes (st_del_ls d n st) = st_inodes st"
  "st_inodes (st_put_hash d n ct st) = st_inodes st" "st_inodes (st_del_hash d n st) = st_inodes st"
  "st_objs (st_put_ls d n ct st) = st_objs st" "st_objs (st_del_ls d n st) = st_objs st"
  "st_objs (st_put_hash d n ct st) = st_objs st" "st_objs (st_del_hash d n st) = st_objs st"
  "st_next_obj (st_put_ls d n ct st) = st_next_obj st" "st_next_obj (st_del_ls d n st) = st_next_obj st"
  "st_next_obj (st_put_hash d n ct st) = st_next_obj st" "st_next_obj (st_del_hash d n st) = st_next_obj st"
  by (simp_all add: st_put_ls_def st_del_ls_def st_put_hash_def st_del_hash_def split: option.split content.split)

lemma st_upd_files:
  "\<not> st_is_dir st i \<Longrightarrow> st_contents (st_put_ls d n ct st) i = st_contents st i"
  "\<not> st_is_dir st i \<Longrightarrow> st_contents (st_del_ls d n st) i = st_contents st i"
  "\<not> st_is_dir st i \<Longrightarrow> st_contents (st_put_hash d n ct st) i = st_contents st i"
  "\<not> st_is_dir st i \<Longrightarrow> st_contents (st_del_hash d n st) i = st_contents st i"
  by (auto simp: st_put_ls_def st_del_ls_def st_put_hash_def st_del_hash_def st_is_dir_def split: option.split content.split)

subsection \<open>Entries\<close>

definition dir_lookup :: "fs_env \<Rightarrow> encrypted_fs \<Rightarrow> nat \<Rightarrow> string \<Rightarrow> (nat \<times> file_type \<times> string) option" where
  "dir_lookup V s dir hn = (case hash_of (f_store s) dir hn of None \<Rightarrow> None
     | Some ct \<Rightarrow> (case load_meta V (v_de_hash V) (f_key s) ct of Inl _ \<Rightarrow> None | Inr v \<Rightarrow> Some v))"

text \<open>
  An entry is found under the digest of its name; two names with the same digest are the same entry.
  A complete entry: the hash file names an existing ls file, and both say the same.\<close>

definition has_entry :: "fs_env \<Rightarrow> encrypted_fs \<Rightarrow> nat \<Rightarrow> string \<Rightarrow> nat \<Rightarrow> file_type \<Rightarrow> bool" where
  "has_entry V s dir hn ino kind \<longleftrightarrow> (\<exists>enc lct. dir_lookup V s dir hn = Some (ino, kind, enc)
     \<and> ls_of (f_store s) dir enc = Some lct \<and> load_meta V (v_de_entry V) (f_key s) lct = Inr (ino, kind))"

lemma put_ls_eq: "st_is_dir (f_store s) dir \<Longrightarrow> put_ls dir n ct s = (Inr (), s\<lparr>f_store := st_put_ls dir n ct (f_store s)\<rparr>)"
  by (auto simp: put_ls_def st_put_ls_def st_is_dir_def split: option.splits content.splits)

lemma put_hash_eq: "st_is_dir (f_store s) dir \<Longrightarrow> put_hash dir n ct s = (Inr (), s\<lparr>f_store := st_put_hash dir n ct (f_store s)\<rparr>)"
  by (auto simp: put_hash_def st_put_hash_def st_is_dir_def split: option.splits content.splits)

lemma is_dir_store: "is_dir s dir = st_is_dir (f_store s) dir"
  by (simp add: is_dir_def st_is_dir_def)

text \<open>Any name can be encrypted.\<close>

lemma encrypt_file_name_total:
  assumes "crypto_ok K" "length key = key_len K c"
  obtains e where "encrypt_file_name K seed name c key = Inr e"
proof -
  obtain ct where "write_pieces K seed c key [as_bytes (normalize_name name)] = Inr ct"
    using write_pieces_ok [OF assms] by blast
  then have "\<exists>e. encrypt_file_name K seed name c key = Inr e" by (simp add: encrypt_file_name_def encrypt_def)
  with that show thesis by blast
qed

lemma insert_directory_entry_ok:
  assumes V: "fs_env_ok V" "key_ok V (f_key s)" and dir: "is_dir s dir"
  obtains enc lct hct where
    "insert_directory_entry V dir e s = (Inr (), s\<lparr>f_rng := f_rng s + 3, f_store :=
       st_put_hash dir (hash_file_name (v_crypto V) (de_name e)) hct (st_put_ls dir enc lct (f_store s))\<rparr>)"
    "load_meta V (v_de_entry V) (f_key s) lct = Inr (de_ino e, de_kind e)"
    "load_meta V (v_de_hash V) (f_key s) hct = Inr (de_ino e, de_kind e, enc)"
    "encrypt_file_name (v_crypto V) (f_rng s) (de_name e) (v_cipher V) (f_key s) = Inr enc"
proof -
  note K = fs_env_okD(1) [OF V(1)] and k = V(2) [unfolded key_ok_def]
  obtain enc where enc: "encrypt_file_name (v_crypto V) (f_rng s) (de_name e) (v_cipher V) (f_key s) = Inr enc"
    by (rule encrypt_file_name_total [OF K k])
  let ?s1 = "s\<lparr>f_rng := Suc (f_rng s)\<rparr>"
  have k1: "key_ok V (f_key ?s1)" using V(2) by simp
  obtain lct where l: "save_meta V (v_ser_entry V (de_ino e, de_kind e)) ?s1 = (Inr lct, ?s1\<lparr>f_rng := Suc (f_rng ?s1)\<rparr>)"
    and l': "stored V (f_key ?s1) lct (concat (v_ser_entry V (de_ino e, de_kind e)))"
    by (rule save_meta_ok [OF V(1) k1])
  have l2: "load_meta V (v_de_entry V) (f_key s) lct = Inr (de_ino e, de_kind e)"
    using load_stored [OF l', of "v_de_entry V"] fs_env_okD(3) [OF V(1)] by simp
  let ?s2 = "s\<lparr>f_rng := Suc (Suc (f_rng s)), f_store := st_put_ls dir enc lct (f_store s)\<rparr>"
  have k2: "key_ok V (f_key ?s2)" using V(2) by simp
  obtain hct where h: "save_meta V (v_ser_hash V (de_ino e, de_kind e, enc)) ?s2 = (Inr hct, ?s2\<lparr>f_rng := Suc (f_rng ?s2)\<rparr>)"
    and h': "stored V (f_key ?s2) hct (concat (v_ser_hash V (de_ino e, de_kind e, enc)))"
    by (rule save_meta_ok [OF V(1) k2])
  have h2: "load_meta V (v_de_hash V) (f_key s) hct = Inr (de_ino e, de_kind e, enc)"
    using load_stored [OF h', of "v_de_hash V"] fs_env_okD(4) [OF V(1)] by simp
  have "insert_directory_entry V dir e s = (Inr (), s\<lparr>f_rng := f_rng s + 3, f_store :=
       st_put_hash dir (hash_file_name (v_crypto V) (de_name e)) hct (st_put_ls dir enc lct (f_store s))\<rparr>)"
    using enc l h dir ls_map.dir_ins [of dir enc lct "f_store s"]
    by (simp add: insert_directory_entry_def create_rng_def lift_err_def is_dir_store put_ls_eq put_hash_eq numeral_3_eq_3)
  with that enc l2 h2 show thesis by blast
qed

text \<open>What an insertion does to the entries, and what it keeps.\<close>

lemma dir_lookup_put:
  assumes "st_is_dir (f_store s) dir"
    and "load_meta V (v_de_hash V) (f_key s) hct = Inr v" "f_key s' = f_key s"
    and "f_store s' = st_put_hash dir n hct (st_put_ls dir enc lct (f_store s))"
  shows "dir_lookup V s' d m = (if d = dir \<and> m = n then Some v else dir_lookup V s d m)"
  using hash_map.look_ins [of "st_put_ls dir enc lct (f_store s)" dir n hct d m] assms
  by (simp add: dir_lookup_def ls_map.dir_ins cong: option.case_cong)

lemma insert_entry_has:
  fixes e :: directory_entry
  assumes V: "fs_env_ok V" "key_ok V (f_key s)" and dir: "is_dir s dir"
  defines "hn \<equiv> hash_file_name (v_crypto V) (de_name e)"
  obtains s' where "insert_directory_entry V dir e s = (Inr (), s')" "has_entry V s' dir hn (de_ino e) (de_kind e)"
    "\<forall>d m. (d, m) \<noteq> (dir, hn) \<longrightarrow> dir_lookup V s' d m = dir_lookup V s d m"
    "st_inodes (f_store s') = st_inodes (f_store s)" "st_objs (f_store s') = st_objs (f_store s)"
    "f_key s' = f_key s" "f_attr_cache s' = f_attr_cache s" "st_is_dir (f_store s') = st_is_dir (f_store s)"
    "f_time s' = f_time s" "f_rng s' = f_rng s + 3"
    "s' = s\<lparr>f_rng := f_rng s + 3, f_store := (f_store s)\<lparr>st_contents := st_contents (f_store s')\<rparr>\<rparr>"
    "\<forall>i. \<not> st_is_dir (f_store s) i \<longrightarrow> st_contents (f_store s') i = st_contents (f_store s) i"
    "\<forall>i. i \<noteq> dir \<longrightarrow> st_contents (f_store s') i = st_contents (f_store s) i"
    "\<forall>d m. (d, m) \<noteq> (dir, hn) \<longrightarrow> hash_of (f_store s') d m = hash_of (f_store s) d m"
proof -
  obtain enc lct hct where ins:
    "insert_directory_entry V dir e s = (Inr (), s\<lparr>f_rng := f_rng s + 3, f_store :=
       st_put_hash dir (hash_file_name (v_crypto V) (de_name e)) hct (st_put_ls dir enc lct (f_store s))\<rparr>)"
    "load_meta V (v_de_entry V) (f_key s) lct = Inr (de_ino e, de_kind e)"
    "load_meta V (v_de_hash V) (f_key s) hct = Inr (de_ino e, de_kind e, enc)"
    using insert_directory_entry_ok [OF V(1,2) dir] by metis
  let ?st = "st_put_hash dir hn hct (st_put_ls dir enc lct (f_store s))"
  let ?s = "s\<lparr>f_rng := f_rng s + 3, f_store := ?st\<rparr>"
  have d: "st_is_dir (f_store s) dir" using dir by (simp add: is_dir_store)
  note look = dir_lookup_put [OF d ins(3), where n = hn and s' = ?s and enc = enc and lct = lct]
  have "ls_of ?st dir enc = Some lct" using ls_map.look_ins [OF d, where n = enc and m = enc and v = lct and e = dir] by simp
  with look ins(2) have "has_entry V ?s dir hn (de_ino e) (de_kind e)" by (simp add: has_entry_def)
  moreover have "st_is_dir ?st = st_is_dir (f_store s)" by (simp add: hash_map.dir_ins ls_map.dir_ins)
  moreover have "?st = (f_store s)\<lparr>st_contents := st_contents ?st\<rparr>"
    by (simp add: store.equality)
  moreover have "\<forall>i. i \<noteq> dir \<longrightarrow> st_contents ?st i = st_contents (f_store s) i"
    by (simp add: st_put_hash_def st_put_ls_def split: option.split content.split)
  moreover have "\<forall>i. \<not> st_is_dir (f_store s) i \<longrightarrow> st_contents ?st i = st_contents (f_store s) i"
    by (simp add: st_upd_files ls_map.dir_ins)
  moreover have "\<forall>d m. (d, m) \<noteq> (dir, hn) \<longrightarrow> hash_of ?st d m = hash_of (f_store s) d m"
    using hash_map.look_ins [of "st_put_ls dir enc lct (f_store s)" dir hn hct] d by (auto simp: ls_map.dir_ins)
  ultimately show thesis using that [of ?s] ins(1) look by (simp add: hn_def)
qed

lemma dir_lookup_cong:
  "st_contents (f_store s') = st_contents (f_store s) \<Longrightarrow> f_key s' = f_key s \<Longrightarrow> dir_lookup V s' = dir_lookup V s"
  by (simp add: dir_lookup_def hash_of_def fun_eq_iff cong: option.case_cong)

lemma has_entry_cong:
  "st_contents (f_store s') = st_contents (f_store s) \<Longrightarrow> f_key s' = f_key s \<Longrightarrow> has_entry V s' = has_entry V s"
  by (simp add: has_entry_def dir_lookup_cong [of s' s] ls_of_def fun_eq_iff cong: option.case_cong)

lemma inodes_ok_cong:
  assumes "st_inodes (f_store s') = st_inodes (f_store s)" "f_key s' = f_key s" "f_attr_cache s' = f_attr_cache s"
  shows "inodes_ok V s' = inodes_ok V s" "stored_attr V s' = stored_attr V s" "ino_exists s' = ino_exists s"
proof -
  show st: "stored_attr V s' = stored_attr V s"
    using assms by (simp add: stored_attr_def fun_eq_iff cong: option.case_cong)
  show ex: "ino_exists s' = ino_exists s" using assms by (simp add: ino_exists_def fun_eq_iff)
  show "inodes_ok V s' = inodes_ok V s" using assms by (simp add: inodes_ok_def attr_cache_ok_def st ex)
qed

text \<open>Looking names up.\<close>

lemma exists_by_name_eq:
  assumes "ino_exists s dir" "is_dir s dir"
  shows "exists_by_name V dir name s = (Inr (hash_of (f_store s) dir (hash_file_name (v_crypto V) name) \<noteq> None), s)"
  using assms by (auto simp: exists_by_name_def hash_of_def is_dir_def split: option.splits content.splits)

lemma dir_lookup_hash: "dir_lookup V s dir hn = Some v \<Longrightarrow> hash_of (f_store s) dir hn \<noteq> None"
  by (auto simp: dir_lookup_def split: option.splits)

lemma find_by_name_ok:
  assumes "inodes_ok V s" "ino_exists s dir" "is_dir s dir" "dir_lookup V s dir (hash_file_name (v_crypto V) name) = Some (ino, k, enc)"
    and "stored_attr V s ino = Some a"
  shows "find_by_name V dir name s = (Inr (Some a), s\<lparr>f_attr_cache := (f_attr_cache s)(ino \<mapsto> a)\<rparr>)"
  using assms get_inode_cached [OF assms(1,5)]
  by (auto simp: find_by_name_def dir_lookup_def hash_of_def is_dir_def split: option.splits content.splits sum.splits)

lemma find_by_name_none:
  assumes "ino_exists s dir" "is_dir s dir" "hash_of (f_store s) dir (hash_file_name (v_crypto V) name) = None"
  shows "find_by_name V dir name s = (Inr None, s)"
  using assms by (auto simp: find_by_name_def hash_of_def is_dir_def split: option.splits content.splits)

subsection \<open>Removing an entry\<close>

lemma remove_directory_entry_ok:
  fixes name :: string and V :: fs_env
  defines "hn \<equiv> hash_file_name (v_crypto V) name"
  assumes ent: "has_entry V s dir hn ino k"
  obtains s' enc where "remove_directory_entry V dir name s = (Inr (), s')"
    "s' = s\<lparr>f_store := st_del_ls dir enc (st_del_hash dir hn (f_store s))\<rparr>"
    "dir_lookup V s dir hn = Some (ino, k, enc)"
proof -
  obtain enc lct where e: "dir_lookup V s dir hn = Some (ino, k, enc)" "ls_of (f_store s) dir enc = Some lct"
    using ent by (auto simp: has_entry_def)
  obtain l h where c: "st_contents (f_store s) dir = Some (CDir l h)"
    using e(2) by (cases "st_contents (f_store s) dir" rule: content_cases) (auto simp: ls_of_def)
  obtain ct where ct: "map_of h hn = Some ct"
      "load_meta V (v_de_hash V) (f_key s) ct = Inr (ino, k, enc)"
    using e(1) c by (auto simp: dir_lookup_def hash_of_def split: option.splits sum.splits)
  have "map_of l enc = Some lct" using e(2) c by (simp add: ls_of_def)
  then have "remove_directory_entry V dir name s = (Inr (), s\<lparr>f_store :=
      st_del_ls dir enc (st_del_hash dir hn (f_store s))\<rparr>)"
    using c ct by (simp add: remove_directory_entry_def Let_def st_del_ls_def st_del_hash_def hn_def)
  with that e(1) show thesis by blast
qed

lemma dir_lookup_del:
  assumes "f_store s' = st_del_ls dir enc (st_del_hash dir n (f_store s))" "f_key s' = f_key s"
  shows "dir_lookup V s' d m = (if d = dir \<and> m = n then None else dir_lookup V s d m)"
  using hash_map.look_del [of dir n "f_store s" d m] assms
  by (simp add: dir_lookup_def cong: option.case_cong)

subsection \<open>Fresh inode numbers\<close>

definition fresh_ino :: "encrypted_fs \<Rightarrow> nat \<Rightarrow> bool" where
  "fresh_ino s ino \<longleftrightarrow> ROOT_INODE < ino \<and> \<not> ino_exists s ino"

lemma find_free_inode_ok:
  assumes "\<exists>k < fuel. fresh_ino s (v_rand V (f_rng s + k))"
  obtains k where "find_free_inode V fuel s = (Inr (v_rand V (f_rng s + k)), s\<lparr>f_rng := f_rng s + k + 1\<rparr>)"
    "fresh_ino s (v_rand V (f_rng s + k))"
  using assms
proof (induction fuel arbitrary: s thesis)
  case (Suc fuel)
  show ?case
  proof (cases "fresh_ino s (v_rand V (f_rng s))")
    case True
    then have n: "\<not> (v_rand V (f_rng s) \<le> ROOT_INODE \<or> ino_exists s (v_rand V (f_rng s)))" by (simp add: fresh_ino_def)
    have "find_free_inode V (Suc fuel) s = (Inr (v_rand V (f_rng s + 0)), s\<lparr>f_rng := f_rng s + 0 + 1\<rparr>)"
      by (simp add: create_rng_def gets_def bnd_def n)
    with True Suc.prems(1) [of 0] show thesis by simp
  next
    case False
    let ?s = "s\<lparr>f_rng := Suc (f_rng s)\<rparr>"
    have step: "find_free_inode V (Suc fuel) s = find_free_inode V fuel ?s"
      using False by (simp add: create_rng_def fresh_ino_def gets_def bnd_def linorder_not_less [symmetric])
    from Suc.prems(2) obtain k where k: "k < Suc fuel" "fresh_ino s (v_rand V (f_rng s + k))" by blast
    with False obtain j where "k = Suc j" by (cases k) auto
    with k have "\<exists>k < fuel. fresh_ino ?s (v_rand V (f_rng ?s + k))" by (auto simp: fresh_ino_def)
    then obtain i where i: "find_free_inode V fuel ?s = (Inr (v_rand V (f_rng ?s + i)), ?s\<lparr>f_rng := f_rng ?s + i + 1\<rparr>)"
      "fresh_ino ?s (v_rand V (f_rng ?s + i))" using Suc.IH [of ?s] by blast
    then show thesis using Suc.prems(1) [of "Suc i"] step by (simp add: fresh_ino_def)
  qed
qed simp

end
