(* ===== verification/Fs_Invariant.thy ===== *)
theory Fs_Invariant
  imports Fs_Entries
begin

text \<open>
  Invariants of the whole file system, on every path of every operation, errors included.

  What an invariant has to satisfy to survive the operations is stated once as a locale: it may
  depend on the inode files, the key, the attribute cache and the handle tables, and has to survive
  the few ways these change. The locale proves it for the operations on the storage. It is
  interpreted for the consistency of the attribute cache and for the handle tables.
\<close>

subsection \<open>The contract\<close>

definition handle_view where
  "handle_view s = (f_write_handles s, f_read_handles s, f_opened_read s, f_opened_write s, f_current_handle s)"

definition same_core :: "encrypted_fs \<Rightarrow> encrypted_fs \<Rightarrow> bool" where
  "same_core s s' \<longleftrightarrow> st_inodes (f_store s') = st_inodes (f_store s) \<and> f_key s' = f_key s
     \<and> f_attr_cache s' = f_attr_cache s \<and> handle_view s' = handle_view s"

lemma same_coreI [simp]:
  "same_core s (s\<lparr>f_rng := n\<rparr>)" "same_core s (s\<lparr>f_time := n\<rparr>)" "same_core s (s\<lparr>f_name_cache := c\<rparr>)"
  "same_core s (s\<lparr>f_meta_cache := mc\<rparr>)" "same_core s (s\<lparr>f_store := (f_store s)\<lparr>st_contents := sc\<rparr>\<rparr>)"
  "same_core s (s\<lparr>f_store := (f_store s)\<lparr>st_objs := so\<rparr>\<rparr>)"
  "same_core s (s\<lparr>f_store := (f_store s)\<lparr>st_contents := sc, st_objs := so, st_next_obj := sn\<rparr>\<rparr>)"
  by (simp_all add: same_core_def handle_view_def)

locale fs_inv =
  fixes V :: fs_env and I :: "encrypted_fs \<Rightarrow> bool"
  assumes inv_frame: "I s \<Longrightarrow> same_core s s' \<Longrightarrow> I s'"
    and inv_load: "I s \<Longrightarrow> get_inode_from_storage V ino s = (Inr a, s) \<Longrightarrow> I (s\<lparr>f_attr_cache := (f_attr_cache s)(ino \<mapsto> a)\<rparr>)"
    and inv_write: "pres I (write_inode_to_storage V a)"
    and inv_remove: "I s \<Longrightarrow> I (s\<lparr>f_store := (f_store s)\<lparr>st_inodes := (st_inodes (f_store s))(ino := None)\<rparr>\<rparr>)"
begin

lemma pres_frame: "(\<And>s. same_core s (state_of (m s))) \<Longrightarrow> pres I m"
  by (blast intro: presI inv_frame)

lemma pres_clock [pres_rules]: "pres I system_time_now" "pres I create_rng"
  by (rule pres_frame; simp add: system_time_now_def create_rng_def)+

lemma pres_lift_err [pres_rules]: "pres I (lift_err h r)"
  by (simp add: lift_err_def pres_rules)

lemma pres_save_meta [pres_rules]: "pres I (save_meta V ds)"
  unfolding save_meta_def by (intro pres_rules)

lemma pres_get_inode [pres_rules]: "pres I (get_inode_from_storage V ino)"
  by (rule presI) (simp add: get_inode_from_storage_def split: option.split)

lemma pres_get_inode_cached [pres_rules]: "pres I (get_inode_from_cache_or_storage V ino)"
proof (rule presI)
  fix s assume I: "I s"
  obtain r where r: "get_inode_from_storage V ino s = (r, s)" by (cases "st_inodes (f_store s) ino") (auto simp: get_inode_from_storage_def)
  show "I (state_of (get_inode_from_cache_or_storage V ino s))"
  proof (cases "f_attr_cache s ino")
    case None
    have upd: "f_attr_cache_update (\<lambda>m. m(ino \<mapsto> a)) s = s\<lparr>f_attr_cache := (f_attr_cache s)(ino \<mapsto> a)\<rparr>" for a
      by (cases s) simp
    from None r I inv_load [of s ino] show ?thesis by (cases r) (simp_all add: get_inode_from_cache_or_storage_def upd)
  next
    case (Some a)
    with I show ?thesis by (simp add: get_inode_from_cache_or_storage_def)
  qed
qed

lemma pres_get_attr [pres_rules]: "pres I (get_attr V ino)"
  unfolding get_attr_def by (intro pres_rules)

lemma pres_set_attr2 [pres_rules]: "pres I (set_attr2 V ino sa ov)"
  unfolding set_attr2_def by (intro pres_rules inv_write)

lemma pres_set_attr [pres_rules]: "pres I (set_attr V ino sa)"
  unfolding set_attr_def by (rule pres_set_attr2)

lemma pres_put [pres_rules]: "pres I (put_ls d n ct)" "pres I (put_hash d n ct)"
  by (rule pres_frame; simp add: put_ls_def put_hash_def same_core_def handle_view_def split: option.split content.split)+

lemma pres_insert_entry [pres_rules]: "pres I (insert_directory_entry V d e)"
  unfolding insert_directory_entry_def by (intro pres_rules)

lemma pres_remove_entry [pres_rules]: "pres I (remove_directory_entry V d n)"
  by (rule pres_frame) (simp add: remove_directory_entry_def Let_def same_core_def handle_view_def
      split: option.split content.split sum.split prod.split)

lemma pres_exists_by_name [pres_rules]: "pres I (exists_by_name V d n)"
  by (rule presI) (simp add: exists_by_name_def split: option.split content.split)

lemma pres_find_by_name [pres_rules]: "pres I (find_by_name V d n)"
proof (rule presI)
  fix s assume "I s"
  then have "I (state_of (bnd (get_inode_from_cache_or_storage V ino) (\<lambda>attr. ret (Some attr)) s))" for ino
    using pres_bnd [OF pres_get_inode_cached, where f = "\<lambda>attr. ret (Some attr)"] pres_ret by (simp add: pres_def)
  with \<open>I s\<close> show "I (state_of (find_by_name V d n s))"
    by (auto simp: find_by_name_def split: option.split content.split sum.split)
qed

lemma pres_fs_len [pres_rules]: "pres I (fs_len ino)"
  by (rule presI) (simp add: fs_len_def split: option.split content.split)

lemma pres_caches [pres_rules]:
  "pres I (modif (f_name_cache_update nc))" "pres I (modif (f_meta_cache_update mc))"
  by (rule pres_frame; simp add: same_core_def handle_view_def)+

lemma pres_create_directory_entry [pres_rules]: "pres I (create_directory_entry V d e)"
  unfolding create_directory_entry_def by (intro pres_rules)

lemma pres_create_directory_entry_plus [pres_rules]: "pres I (create_directory_entry_plus V d e)"
  unfolding create_directory_entry_plus_def by (intro pres_rules)

lemma pres_collect [pres_rules]: "(\<And>e. pres I (f e)) \<Longrightarrow> pres I (collect_entries f es)"
  by (induction es) (simp_all add: pres_ret pres_bnd pres_attempt)

lemma pres_content_case [pres_rules]:
  "(\<And>l h. pres I (f l h)) \<Longrightarrow> pres I g \<Longrightarrow> pres I (case c of Some (CDir l h) \<Rightarrow> f l h | _ \<Rightarrow> g)"
  by (simp split: option.split content.split)

lemma pres_read_dir [pres_rules]: "pres I (read_dir V ino)" "pres I (read_dir_plus V ino)"
  unfolding read_dir_def read_dir_plus_def read_dir_with_def by (intro pres_rules)+

lemma pres_open_content [pres_rules]: "pres I (open_content ino)"
  by (rule presI) (simp add: open_content_def split: option.split content.split)

lemma pres_create_rw [pres_rules]: "pres I (fs_create_read_seek V obj)" "pres I (fs_create_write_seek V obj)"
  unfolding fs_create_read_seek_def fs_create_write_seek_def by (intro pres_rules)+

lemma same_core_put_obj [simp]: "same_core s (put_obj obj d s)" "same_core s (write_back obj w s)"
  by (simp_all add: put_obj_def write_back_def same_core_def handle_view_def split: option.split)

lemma pres_finish_writer [pres_rules]: "pres I (finish_writer V obj w)"
  by (rule pres_frame) (simp add: finish_writer_def split: prod.split sum.split)

lemma pres_content_files [pres_rules]:
  "pres I (create_content_file ino)" "pres I (commit_content_file ino d)" "pres I (create_content_dir ino)"
  "pres I (remove_content_dir ino)" "pres I (remove_content_file ino)"
  by (rule pres_frame; simp add: create_content_file_def commit_content_file_def create_content_dir_def
      remove_content_dir_def remove_content_file_def put_obj_def same_core_def handle_view_def split: option.split content.split)+

lemma pres_remove_ino [pres_rules]: "pres I (remove_ino_file ino)"
  by (rule presI) (simp add: remove_ino_file_def inv_remove split: option.split)

lemma pres_find_free [pres_rules]: "pres I (find_free_inode V fuel)"
  by (induction fuel) (simp_all only: find_free_inode.simps, (intro pres_rules | assumption)+)

lemma pres_generate [pres_rules]: "pres I (generate_next_inode V)"
  unfolding generate_next_inode_def by (rule pres_find_free)

lemma pres_touch_dir [pres_rules]: "pres I (touch_dir V ino)"
  unfolding touch_dir_def by (intro pres_rules)

lemma pres_find_for_removal [pres_rules]: "pres I (find_for_removal V d n)"
  unfolding find_for_removal_def by (intro pres_rules)

lemma pres_unlink_entry [pres_rules]: "pres I (unlink_entry V d n ino)"
  unfolding unlink_entry_def demote_attr_def by (intro pres_rules)

lemma pres_removals [pres_rules]: "pres I (remove_dir V d n)" "pres I (remove_file V d n)"
  unfolding remove_dir_def remove_file_def by (intro pres_rules)+

lemma pres_rename [pres_rules]: "pres I (fs_rename V d n d' n')"
  unfolding fs_rename_def rename_checks_def check_target_empty_def by (intro pres_rules)

lemma pres_ensure_root [pres_rules]: "pres I (ensure_root_exists V uid gid)"
  unfolding ensure_root_exists_def by (intro pres_rules inv_write)

end

subsection \<open>The attribute cache\<close>

text \<open>Inode files decode, carry their own number, and the cache agrees with them.\<close>

lemma removed_inode:
  fixes V :: fs_env and s :: encrypted_fs
  defines "s' \<equiv> \<lambda>ino. s\<lparr>f_store := (f_store s)\<lparr>st_inodes := (st_inodes (f_store s))(ino := None)\<rparr>\<rparr>"
  shows "stored_attr V (s' ino) = (stored_attr V s)(ino := None)" "ino_exists (s' ino) i = (i \<noteq> ino \<and> ino_exists s i)"
  by (simp_all add: s'_def stored_attr_def ino_exists_def fun_eq_iff cong: option.case_cong)

interpretation inodes: fs_inv V "\<lambda>s. fs_env_ok V \<and> inodes_ok V s" for V
proof
  fix s s' :: encrypted_fs
  assume "fs_env_ok V \<and> inodes_ok V s" "same_core s s'"
  then show "fs_env_ok V \<and> inodes_ok V s'" using inodes_ok_cong(1) [of s' s] by (simp add: same_core_def)
next
  fix s :: encrypted_fs and ino a
  assume I: "fs_env_ok V \<and> inodes_ok V s" and "get_inode_from_storage V ino s = (Inr a, s)"
  then have "stored_attr V s ino = Some a" by (auto simp: get_inode_from_storage_def stored_attr_def split: option.splits)
  with I show "fs_env_ok V \<and> inodes_ok V (s\<lparr>f_attr_cache := (f_attr_cache s)(ino \<mapsto> a)\<rparr>)" by (simp add: inodes_ok_cache)
next
  fix a
  show "pres (\<lambda>s. fs_env_ok V \<and> inodes_ok V s) (write_inode_to_storage V a)"
  proof (rule presI)
    fix s assume I: "fs_env_ok V \<and> inodes_ok V s"
    obtain s' where "write_inode_to_storage V a s = (Inr (), s')" "inodes_ok V s'"
      by (rule write_inode_ok [of V s a]) (use I in simp_all)
    with I show "fs_env_ok V \<and> inodes_ok V (state_of (write_inode_to_storage V a s))" by simp
  qed
next
  fix s :: encrypted_fs and ino
  assume "fs_env_ok V \<and> inodes_ok V s"
  then show "fs_env_ok V \<and> inodes_ok V (s\<lparr>f_store := (f_store s)\<lparr>st_inodes := (st_inodes (f_store s))(ino := None)\<rparr>\<rparr>)"
    using removed_inode(1) [of V s ino] removed_inode(2) [of s ino] by (simp add: inodes_ok_def attr_cache_ok_def)
qed

subsection \<open>The handle tables\<close>

text \<open>
  An open write handle is the one registered for its inode, an open read handle is registered, and
  handle numbers are positive and below the next one. \<open>W\<close> and \<open>R\<close> are write and read handles known
  to be open.
\<close>

definition handles_ok :: "encrypted_fs \<Rightarrow> bool" where
  "handles_ok s \<longleftrightarrow> 0 < f_current_handle s
     \<and> (\<forall>h c. f_write_handles s h = Some c \<longrightarrow> f_opened_write s (wc_ino c) = Some h \<and> 0 < h \<and> h < f_current_handle s)
     \<and> (\<forall>h c. f_read_handles s h = Some c \<longrightarrow>
          (\<exists>l. f_opened_read s (rc_ino c) = Some l \<and> h \<in> set l) \<and> 0 < h \<and> h < f_current_handle s)"

definition hinv :: "(nat \<times> nat) set \<Rightarrow> (nat \<times> nat) set \<Rightarrow> encrypted_fs \<Rightarrow> bool" where
  "hinv W R s \<longleftrightarrow> handles_ok s
     \<and> (\<forall>h i. (h, i) \<in> W \<longrightarrow> (\<exists>c. f_write_handles s h = Some c \<and> wc_ino c = i))
     \<and> (\<forall>h i. (h, i) \<in> R \<longrightarrow> (\<exists>c. f_read_handles s h = Some c \<and> rc_ino c = i))"

lemma hinv_empty: "hinv {} {} = handles_ok"
  by (simp add: hinv_def fun_eq_iff)

text \<open>Whatever only depends on the handle tables survives the operations on the storage.\<close>

lemma write_inode_view: "handle_view (state_of (write_inode_to_storage V a s)) = handle_view s"
  by (auto simp: write_inode_to_storage_def save_meta_def create_rng_def lift_err_def bnd_def handle_view_def split: sum.split)

lemma view_inv:
  assumes P: "\<And>s s'. handle_view s = handle_view s' \<Longrightarrow> P s = P s'"
  shows "fs_inv V P"
proof
  fix a show "pres P (write_inode_to_storage V a)" using P [OF write_inode_view] by (auto intro: presI)
next
  fix s s' :: encrypted_fs
  assume "P s" "same_core s s'"
  then show "P s'" using P [of s s'] by (simp add: same_core_def)
next
  fix s :: encrypted_fs and ino a
  assume "P s"
  then show "P (s\<lparr>f_attr_cache := (f_attr_cache s)(ino \<mapsto> a)\<rparr>)"
    "P (s\<lparr>f_store := (f_store s)\<lparr>st_inodes := (st_inodes (f_store s))(ino := None)\<rparr>\<rparr>)"
    using P [of s "s\<lparr>f_attr_cache := (f_attr_cache s)(ino \<mapsto> a)\<rparr>"]
      P [of s "s\<lparr>f_store := (f_store s)\<lparr>st_inodes := (st_inodes (f_store s))(ino := None)\<rparr>\<rparr>"] by (simp_all add: handle_view_def)
qed

interpretation handles: fs_inv V "hinv W R" for V W R
  by (rule view_inv) (simp add: hinv_def handles_ok_def handle_view_def)

text \<open>Both together; \<open>W\<close> and \<open>R\<close> grow when an operation has looked a handle up.\<close>

definition jinv :: "fs_env \<Rightarrow> (nat \<times> nat) set \<Rightarrow> (nat \<times> nat) set \<Rightarrow> encrypted_fs \<Rightarrow> bool" where
  "jinv V W R s \<longleftrightarrow> (fs_env_ok V \<and> inodes_ok V s) \<and> hinv W R s"

interpretation core: fs_inv V "jinv V W R" for V W R
proof
  fix s s' :: encrypted_fs
  assume "jinv V W R s" "same_core s s'"
  then show "jinv V W R s'" using inodes.inv_frame handles.inv_frame unfolding jinv_def by blast
next
  fix s :: encrypted_fs and ino a
  assume "jinv V W R s" "get_inode_from_storage V ino s = (Inr a, s)"
  then show "jinv V W R (s\<lparr>f_attr_cache := (f_attr_cache s)(ino \<mapsto> a)\<rparr>)"
    using inodes.inv_load handles.inv_load unfolding jinv_def by blast
next
  fix a
  show "pres (jinv V W R) (write_inode_to_storage V a)"
    using inodes.inv_write [of V a] handles.inv_write [of W R V a] unfolding jinv_def pres_def by blast
next
  fix s :: encrypted_fs and ino
  assume "jinv V W R s"
  then show "jinv V W R (s\<lparr>f_store := (f_store s)\<lparr>st_inodes := (st_inodes (f_store s))(ino := None)\<rparr>\<rparr>)"
    using inodes.inv_remove handles.inv_remove unfolding jinv_def by blast
qed

lemma jinv_tables:
  assumes "jinv V W R s" "f_store s' = f_store s" "f_key s' = f_key s" "f_attr_cache s' = f_attr_cache s" "hinv W' R' s'"
  shows "jinv V W' R' s'"
  using assms inodes_ok_cong(1) [of s' s V] by (simp add: jinv_def)

lemma jinv_mono: "jinv V W R s \<Longrightarrow> W' \<subseteq> W \<Longrightarrow> R' \<subseteq> R \<Longrightarrow> jinv V W' R' s"
  unfolding jinv_def hinv_def by blast

lemma pres_weaken: "pres (jinv V W R) m \<Longrightarrow> jinv V W R s \<Longrightarrow> W' \<subseteq> W \<Longrightarrow> R' \<subseteq> R \<Longrightarrow> jinv V W' R' (state_of (m s))"
  using jinv_mono unfolding pres_def by blast

text \<open>Looking a handle up and going on.\<close>

lemma pres_lookup_write:
  assumes "pres (jinv V W R) m" "\<And>c. pres (jinv V (insert (h, wc_ino c) W) R) (f c)"
  shows "pres (jinv V W R) (bnd (gets (\<lambda>s. f_write_handles s h)) (\<lambda>x. case x of None \<Rightarrow> m | Some c \<Rightarrow> f c))"
proof (rule pres_bnd_gets)
  fix s assume I: "jinv V W R s"
  show "jinv V W R (state_of ((case f_write_handles s h of None \<Rightarrow> m | Some c \<Rightarrow> f c) s))"
  proof (cases "f_write_handles s h")
    case None
    with assms(1) I show ?thesis by (simp add: pres_def)
  next
    case (Some c)
    with I have "jinv V (insert (h, wc_ino c) W) R s" by (simp add: jinv_def hinv_def)
    with Some pres_weaken [OF assms(2)] show ?thesis by (simp add: subset_insertI)
  qed
qed

lemma pres_lookup_read:
  assumes "pres (jinv V W R) m" "\<And>c. pres (jinv V W (insert (h, rc_ino c) R)) (f c)"
  shows "pres (jinv V W R) (bnd (gets (\<lambda>s. f_read_handles s h)) (\<lambda>x. case x of None \<Rightarrow> m | Some c \<Rightarrow> f c))"
proof (rule pres_bnd_gets)
  fix s assume I: "jinv V W R s"
  show "jinv V W R (state_of ((case f_read_handles s h of None \<Rightarrow> m | Some c \<Rightarrow> f c) s))"
  proof (cases "f_read_handles s h")
    case None
    with assms(1) I show ?thesis by (simp add: pres_def)
  next
    case (Some c)
    with I have "jinv V W (insert (h, rc_ino c) R) s" by (simp add: jinv_def hinv_def)
    with Some pres_weaken [OF assms(2)] show ?thesis by (simp add: subset_insertI)
  qed
qed

text \<open>Replacing the context of a handle that is open.\<close>

lemma hinv_set_write:
  assumes "hinv W R s" "(h, wc_ino c) \<in> W"
  shows "hinv W R (s\<lparr>f_write_handles := (f_write_handles s)(h \<mapsto> c)\<rparr>)"
proof -
  obtain c0 where c0: "f_write_handles s h = Some c0" "wc_ino c0 = wc_ino c" using assms unfolding hinv_def by fastforce
  with assms(1) have "f_opened_write s (wc_ino c) = Some h" "0 < h" "h < f_current_handle s"
    unfolding hinv_def handles_ok_def by metis+
  with assms(1) have "handles_ok (s\<lparr>f_write_handles := (f_write_handles s)(h \<mapsto> c)\<rparr>)" by (simp add: hinv_def handles_ok_def)
  moreover have "\<exists>c'. ((f_write_handles s)(h \<mapsto> c)) h' = Some c' \<and> wc_ino c' = i" if "(h', i) \<in> W" for h' i
    using assms(1) that c0 by (cases "h' = h") (fastforce simp: hinv_def)+
  ultimately show ?thesis using assms(1) by (simp add: hinv_def)
qed

lemma hinv_set_read:
  assumes "hinv W R s" "(h, rc_ino c) \<in> R"
  shows "hinv W R (s\<lparr>f_read_handles := (f_read_handles s)(h \<mapsto> c)\<rparr>)"
proof -
  obtain c0 where c0: "f_read_handles s h = Some c0" "rc_ino c0 = rc_ino c" using assms unfolding hinv_def by fastforce
  with assms(1) have "\<exists>l. f_opened_read s (rc_ino c) = Some l \<and> h \<in> set l" "0 < h" "h < f_current_handle s"
    unfolding hinv_def handles_ok_def by metis+
  with assms(1) have "handles_ok (s\<lparr>f_read_handles := (f_read_handles s)(h \<mapsto> c)\<rparr>)" by (simp add: hinv_def handles_ok_def)
  moreover have "\<exists>c'. ((f_read_handles s)(h \<mapsto> c)) h' = Some c' \<and> rc_ino c' = i" if "(h', i) \<in> R" for h' i
    using assms(1) that c0 by (cases "h' = h") (fastforce simp: hinv_def)+
  ultimately show ?thesis using assms(1) by (simp add: hinv_def)
qed

lemma upd_write_handles: "f_write_handles_update g s = s\<lparr>f_write_handles := g (f_write_handles s)\<rparr>"
  and upd_read_handles: "f_read_handles_update k s = s\<lparr>f_read_handles := k (f_read_handles s)\<rparr>"
  and upd_opened_write: "f_opened_write_update pw s = s\<lparr>f_opened_write := pw (f_opened_write s)\<rparr>"
  and upd_opened_read: "f_opened_read_update po s = s\<lparr>f_opened_read := po (f_opened_read s)\<rparr>"
  by (cases s; simp)+

lemma pres_set_write:
  "(h, wc_ino c) \<in> W \<Longrightarrow> pres (jinv V W R) (modif (f_write_handles_update (\<lambda>m. m(h \<mapsto> c))))"
proof (rule pres_modif)
  fix s assume c: "(h, wc_ino c) \<in> W" and I: "jinv V W R s"
  then have "hinv W R (s\<lparr>f_write_handles := (f_write_handles s)(h \<mapsto> c)\<rparr>)" by (intro hinv_set_write) (simp_all add: jinv_def)
  then show "jinv V W R (f_write_handles_update (\<lambda>m. m(h \<mapsto> c)) s)" using jinv_tables [OF I] by (simp add: upd_write_handles [of "\<lambda>m. m(h \<mapsto> c)"])
qed

lemma pres_set_read:
  "(h, rc_ino c) \<in> R \<Longrightarrow> pres (jinv V W R) (modif (f_read_handles_update (\<lambda>m. m(h \<mapsto> c))))"
proof (rule pres_modif)
  fix s assume c: "(h, rc_ino c) \<in> R" and I: "jinv V W R s"
  then have "hinv W R (s\<lparr>f_read_handles := (f_read_handles s)(h \<mapsto> c)\<rparr>)" by (intro hinv_set_read) (simp_all add: jinv_def)
  then show "jinv V W R (f_read_handles_update (\<lambda>m. m(h \<mapsto> c)) s)" using jinv_tables [OF I] by (simp add: upd_read_handles [of "\<lambda>m. m(h \<mapsto> c)"])
qed

lemma jinv_put_read:
  assumes I: "jinv V W R s" and c: "f_read_handles s h = Some c0" "rc_ino c = rc_ino c0"
  shows "jinv V W R (s\<lparr>f_read_handles := (f_read_handles s)(h \<mapsto> c)\<rparr>)"
proof -
  have "hinv W (insert (h, rc_ino c) R) s" using I c by (simp add: jinv_def hinv_def)
  then have "hinv W (insert (h, rc_ino c) R) (s\<lparr>f_read_handles := (f_read_handles s)(h \<mapsto> c)\<rparr>)" by (rule hinv_set_read) simp
  then have "hinv W R (s\<lparr>f_read_handles := (f_read_handles s)(h \<mapsto> c)\<rparr>)" by (simp add: hinv_def)
  then show ?thesis using jinv_tables [OF I] by simp
qed

lemma jinv_put_write:
  assumes I: "jinv V W R s" and c: "f_write_handles s h = Some c0" "wc_ino c = wc_ino c0"
  shows "jinv V W R (s\<lparr>f_write_handles := (f_write_handles s)(h \<mapsto> c)\<rparr>)"
proof -
  have "hinv (insert (h, wc_ino c) W) R s" using I c by (simp add: jinv_def hinv_def)
  then have "hinv (insert (h, wc_ino c) W) R (s\<lparr>f_write_handles := (f_write_handles s)(h \<mapsto> c)\<rparr>)" by (rule hinv_set_write) simp
  then have "hinv W R (s\<lparr>f_write_handles := (f_write_handles s)(h \<mapsto> c)\<rparr>)" by (simp add: hinv_def)
  then show ?thesis using jinv_tables [OF I] by simp
qed

subsection \<open>Operations on handles\<close>

lemma pres_on_reader [pres_rules]: "pres (jinv V W R) (on_reader fh m)"
proof (rule presI)
  fix s assume "jinv V W R s"
  then show "jinv V W R (state_of (on_reader fh m s))"
    by (auto simp: on_reader_def split: option.split prod.split intro!: jinv_put_read)
qed

lemma pres_on_writer [pres_rules]: "pres (jinv V W R) (on_writer fh m)"
proof (rule presI)
  fix s assume "jinv V W R s"
  then show "jinv V W R (state_of (on_writer fh m s))"
    by (auto simp: on_writer_def split: option.split prod.split intro!: jinv_put_write
        intro: core.inv_frame [OF _ core.same_core_put_obj(2)])
qed

lemma pres_touch_read [pres_rules]:
  assumes "\<And>c. rc_ino (g c) = rc_ino c"
  shows "pres (jinv V W R) (modif (f_read_handles_update (\<lambda>m. m(h := map_option g (m h)))))"
proof (rule pres_modif)
  fix s assume I: "jinv V W R s"
  then show "jinv V W R (f_read_handles_update (\<lambda>m. m(h := map_option g (m h))) s)"
    using jinv_put_read [OF I, of h _ "g _"] assms
    by (cases "f_read_handles s h") (simp_all add: upd_read_handles [of "\<lambda>m. m(h := map_option g (m h))"] fun_upd_idem)
qed

lemma pres_touch_write [pres_rules]:
  assumes "\<And>c. wc_ino (g c) = wc_ino c"
  shows "pres (jinv V W R) (modif (f_write_handles_update (\<lambda>m. m(h := map_option g (m h)))))"
proof (rule pres_modif)
  fix s assume I: "jinv V W R s"
  then show "jinv V W R (f_write_handles_update (\<lambda>m. m(h := map_option g (m h))) s)"
    using jinv_put_write [OF I, of h _ "g _"] assms
    by (cases "f_write_handles s h") (simp_all add: upd_write_handles [of "\<lambda>m. m(h := map_option g (m h))"] fun_upd_idem)
qed

lemma pres_reset_read_handle [pres_rules]: "pres (jinv V W R) (reset_read_handle V ino h)"
  unfolding reset_read_handle_def
  by (intro pres_lookup_read pres_throw pres_bnd pres_rules pres_set_read) simp_all

lemma pres_reset_write_handle [pres_rules]: "pres (jinv V W R) (reset_write_handle V ino fh save)"
  unfolding reset_write_handle_def
  by (intro pres_lookup_write pres_ret pres_option pres_throw pres_bnd pres_rules pres_set_write) simp_all

lemma pres_reset_handles [pres_rules]: "pres (jinv V W R) (reset_handles V ino skip save)"
  unfolding reset_handles_def by (intro pres_rules)

text \<open>Short sequences may carry any further fact about the tables.\<close>

lemma view_ext:
  assumes "fs_inv V I"
  shows "fs_inv V (\<lambda>s. I s \<and> P (handle_view s))"
proof -
  have p: "fs_inv V (\<lambda>s. P (handle_view s))" by (rule view_inv) simp
  show ?thesis
  proof
    fix a show "pres (\<lambda>s. I s \<and> P (handle_view s)) (write_inode_to_storage V a)"
      using fs_inv.inv_write [OF assms, of a] fs_inv.inv_write [OF p, of a] unfolding pres_def by blast
  qed (use fs_inv.inv_frame [OF assms] fs_inv.inv_frame [OF p] fs_inv.inv_load [OF assms] fs_inv.inv_load [OF p]
      fs_inv.inv_remove [OF assms] fs_inv.inv_remove [OF p] in blast)+
qed

interpretation ext: fs_inv V "\<lambda>s. jinv V W R s \<and> P (handle_view s)" for V W R P
  by (rule view_ext) (rule core.fs_inv_axioms)

text \<open>A step that keeps \<open>J\<close>, in an argument that ends with \<open>K\<close>.\<close>

lemma after_bnd:
  assumes "J s" "pres J m" "\<And>s'. J s' \<Longrightarrow> K s'" "\<And>a s'. J s' \<Longrightarrow> K (state_of (f a s'))"
  shows "K (state_of (bnd m f s))"
proof -
  obtain r s' where m: "m s = (r, s')" by (cases "m s")
  have "J s'" by (rule presD [OF assms(2) m assms(1)])
  with m assms(3,4) show ?thesis by (cases r) (simp_all add: bnd_def)
qed

definition issued :: "nat \<Rightarrow> _ \<Rightarrow> bool" where
  "issued h v \<longleftrightarrow> (case v of (wh, rh, opr, opw, cur) \<Rightarrow> 0 < h \<and> h < cur)"

definition no_writer :: "nat \<Rightarrow> _ \<Rightarrow> bool" where
  "no_writer ino v \<longleftrightarrow> (case v of (wh, rh, opr, opw, cur) \<Rightarrow> opw ino = None)"

lemma pres_next_handle [pres_rules]: "pres (jinv V W R) next_handle"
proof (rule presI)
  fix s assume I: "jinv V W R s"
  then have "hinv W R (s\<lparr>f_current_handle := Suc (f_current_handle s)\<rparr>)"
    unfolding jinv_def hinv_def handles_ok_def by (auto intro: less_SucI)
  then show "jinv V W R (state_of (next_handle s))" using jinv_tables [OF I] by (simp add: next_handle_def)
qed

lemma next_handle_issued:
  assumes "jinv V W R s" "next_handle s = (Inr h, s')"
  shows "jinv V W R s'" "issued h (handle_view s')" "no_writer ino (handle_view s) \<Longrightarrow> no_writer ino (handle_view s')"
proof -
  show "jinv V W R s'" using presD [OF pres_next_handle assms(2,1)] .
  show "issued h (handle_view s')" "no_writer ino (handle_view s) \<Longrightarrow> no_writer ino (handle_view s')"
    using assms by (auto simp: next_handle_def issued_def no_writer_def handle_view_def jinv_def hinv_def handles_ok_def)
qed

text \<open>Registering a new handle.\<close>

lemma hinv_add_read:
  assumes I: "hinv W R s" and h: "0 < h" "h < f_current_handle s" and R: "\<forall>i. (h, i) \<notin> R"
  shows "hinv W R (s\<lparr>f_read_handles := (f_read_handles s)(h \<mapsto> \<lparr>rc_ino = ino, rc_attr = a, rc_reader = r, rc_obj = obj\<rparr>),
    f_opened_read := (f_opened_read s)(ino \<mapsto> List.insert h (case f_opened_read s ino of None \<Rightarrow> [] | Some l \<Rightarrow> l))\<rparr>)"
proof -
  have "handles_ok (s\<lparr>f_read_handles := (f_read_handles s)(h \<mapsto> \<lparr>rc_ino = ino, rc_attr = a, rc_reader = r, rc_obj = obj\<rparr>),
    f_opened_read := (f_opened_read s)(ino \<mapsto> List.insert h (case f_opened_read s ino of None \<Rightarrow> [] | Some l \<Rightarrow> l))\<rparr>)"
    using I h unfolding hinv_def handles_ok_def by (auto split: option.split) metis
  with I R show ?thesis by (auto simp: hinv_def)
qed

lemma hinv_add_write:
  assumes I: "hinv W R s" and h: "0 < h" "h < f_current_handle s" and n: "f_opened_write s ino = None" and W: "\<forall>i. (h, i) \<notin> W"
  shows "hinv W R (s\<lparr>f_write_handles := (f_write_handles s)(h \<mapsto> \<lparr>wc_ino = ino, wc_attr = a, wc_writer = w, wc_obj = obj\<rparr>),
    f_opened_write := (f_opened_write s)(ino \<mapsto> h)\<rparr>)"
proof -
  have "handles_ok (s\<lparr>f_write_handles := (f_write_handles s)(h \<mapsto> \<lparr>wc_ino = ino, wc_attr = a, wc_writer = w, wc_obj = obj\<rparr>),
    f_opened_write := (f_opened_write s)(ino \<mapsto> h)\<rparr>)"
    using I h n by (auto simp: hinv_def handles_ok_def)
  with I W show ?thesis by (auto simp: hinv_def)
qed

lemma do_with_read_handle_inv:
  assumes "jinv V W R s" "issued h (handle_view s)" "\<forall>i. (h, i) \<notin> R"
  shows "jinv V W R (state_of (do_with_read_handle V h ino s))"
proof -
  let ?J = "\<lambda>s. jinv V W R s \<and> issued h (handle_view s)"
  have "jinv V W R (s'\<lparr>f_read_handles := (f_read_handles s')(h \<mapsto> \<lparr>rc_ino = ino, rc_attr = a, rc_reader = r, rc_obj = obj\<rparr>),
        f_opened_read := (f_opened_read s')(ino \<mapsto> List.insert h (case f_opened_read s' ino of None \<Rightarrow> [] | Some l \<Rightarrow> l))\<rparr>)"
    if "?J s'" for s' a r obj
  proof -
    have "hinv W R (s'\<lparr>f_read_handles := (f_read_handles s')(h \<mapsto> \<lparr>rc_ino = ino, rc_attr = a, rc_reader = r, rc_obj = obj\<rparr>),
        f_opened_read := (f_opened_read s')(ino \<mapsto> List.insert h (case f_opened_read s' ino of None \<Rightarrow> [] | Some l \<Rightarrow> l))\<rparr>)"
      using that assms(3) by (intro hinv_add_read) (simp_all add: issued_def handle_view_def jinv_def)
    then show ?thesis using jinv_tables [of V W R s'] that by simp
  qed
  then show ?thesis unfolding do_with_read_handle_def
    by (intro after_bnd [where J = ?J and K = "jinv V W R"] ext.pres_get_inode ext.pres_open_content ext.pres_create_rw) (use assms in simp_all)
qed

lemma do_with_write_handle_inv:
  assumes "jinv V W R s" "issued h (handle_view s)" "no_writer ino (handle_view s)" "\<forall>i. (h, i) \<notin> W"
  shows "jinv V W R (state_of (do_with_write_handle V h ino s))"
proof -
  let ?J = "\<lambda>s. jinv V W R s \<and> (\<lambda>v. issued h v \<and> no_writer ino v) (handle_view s)"
  have "jinv V W R (s'\<lparr>f_write_handles := (f_write_handles s')(h \<mapsto> \<lparr>wc_ino = ino, wc_attr = a, wc_writer = w, wc_obj = obj\<rparr>),
        f_opened_write := (f_opened_write s')(ino \<mapsto> h)\<rparr>)"
    if "?J s'" for s' a w obj
  proof -
    have "hinv W R (s'\<lparr>f_write_handles := (f_write_handles s')(h \<mapsto> \<lparr>wc_ino = ino, wc_attr = a, wc_writer = w, wc_obj = obj\<rparr>),
        f_opened_write := (f_opened_write s')(ino \<mapsto> h)\<rparr>)"
      using that assms(4) by (intro hinv_add_write) (simp_all add: issued_def no_writer_def handle_view_def jinv_def)
    then show ?thesis using jinv_tables [of V W R s'] that by simp
  qed
  then show ?thesis unfolding do_with_write_handle_def
    by (intro after_bnd [where J = ?J and K = "jinv V W R"] ext.pres_get_attr ext.pres_open_content ext.pres_create_rw) (use assms in simp_all)
qed

interpretation cur: fs_inv V "\<lambda>s. n < f_current_handle s" for V n
  by (rule view_inv) (simp add: handle_view_def)

lemma open_for_read_inv:
  assumes "jinv V {} {} s" "open_for_read V ino rd s = (r, s')"
  shows "jinv V {} {} s'" "r = Inr (Some h) \<Longrightarrow> issued h (handle_view s')"
proof -
  let ?h = "f_current_handle s" and ?s = "s\<lparr>f_current_handle := Suc (f_current_handle s)\<rparr>"
  have n: "next_handle s = (Inr ?h, ?s)" by (simp add: next_handle_def)
  have cur: "pres (\<lambda>s. ?h < f_current_handle s) (do_with_read_handle V ?h ino)"
    unfolding do_with_read_handle_def by (intro pres_rules pres_modif) simp_all
  obtain r1 s1 where d: "do_with_read_handle V ?h ino ?s = (r1, s1)" by (cases "do_with_read_handle V ?h ino ?s")
  have j1: "jinv V {} {} s1"
    using do_with_read_handle_inv [OF next_handle_issued(1,2) [OF assms(1) n], of ino] d by simp
  have "?h < f_current_handle s1" using presD [OF cur d] by simp
  moreover have "0 < ?h" using assms(1) by (simp add: jinv_def hinv_def handles_ok_def)
  ultimately have "issued ?h (handle_view s1)" by (simp add: issued_def handle_view_def)
  with j1 d n assms show "jinv V {} {} s'" "r = Inr (Some h) \<Longrightarrow> issued h (handle_view s')"
    by (cases rd; cases r1; auto simp: open_for_read_def bnd_def)+
qed

lemma jinv_drop_read: "jinv V {} {} s \<Longrightarrow> jinv V {} {} (s\<lparr>f_read_handles := (f_read_handles s)(h := None)\<rparr>)"
  by (rule jinv_tables [of V "{}" "{}" s]) (auto simp: jinv_def hinv_def handles_ok_def)

lemma pres_drop_read: "pres (jinv V {} {}) (modif (f_read_handles_update (\<lambda>m. m(h := None))))"
  by (rule pres_modif) (use jinv_drop_read in \<open>simp add: upd_read_handles [of "\<lambda>m. m(h := None)"]\<close>)

lemma open_for_write_inv:
  assumes I: "jinv V {} {} s" and h: "\<And>h. handle = Some h \<Longrightarrow> issued h (handle_view s)"
  shows "jinv V {} {} (state_of (open_for_write V ino rd wr handle s))"
proof (cases "wr \<and> f_opened_write s ino = None")
  case True
  then have n: "no_writer ino (handle_view s)" by (simp add: no_writer_def handle_view_def)
  obtain h' s1 where s1: "(case handle of Some h \<Rightarrow> ret h | None \<Rightarrow> next_handle) s = (Inr h', s1)"
    by (cases handle) (auto simp: next_handle_def)
  have "jinv V {} {} s1 \<and> issued h' (handle_view s1) \<and> no_writer ino (handle_view s1)"
    using I h n s1 next_handle_issued [OF I] by (cases handle) auto
  then have j: "jinv V {} {} (state_of (do_with_write_handle V h' ino s1))" using do_with_write_handle_inv by simp
  have "pres (jinv V {} {}) (bnd (whenM (isl res \<and> rd) (modif (f_read_handles_update (\<lambda>m. m(h' := None))))) (\<lambda>_.
          bnd (lift res) (\<lambda>_. ret (Some h'))))" for res :: "fs_error + unit"
    by (intro pres_rules pres_drop_read)
  then have "jinv V {} {} (state_of (bnd (attempt (do_with_write_handle V h' ino)) (\<lambda>res.
      bnd (whenM (isl res \<and> rd) (modif (f_read_handles_update (\<lambda>m. m(h' := None))))) (\<lambda>_.
      bnd (lift res) (\<lambda>_. ret (Some h')))) s1))"
    using j by (cases "do_with_write_handle V h' ino s1") (simp add: pres_def)
  with True s1 show ?thesis by (simp add: open_for_write_def)
next
  case False
  with I show ?thesis by (auto simp: open_for_write_def)
qed

lemma pres_fs_open [pres_rules]: "pres (jinv V {} {}) (fs_open V ino rd wr)"
proof (rule presI)
  fix s assume I: "jinv V {} {} s"
  obtain r1 s1 where 1: "open_for_read V ino rd s = (r1, s1)" by (cases "open_for_read V ino rd s")
  note j1 = open_for_read_inv [OF I 1]
  have "jinv V {} {} (state_of (bnd (open_for_write V ino rd wr handle) (\<lambda>handle. case handle of None \<Rightarrow> throw FsPanic | Some h \<Rightarrow> ret h) s1))"
    if "r1 = Inr handle" for handle
    using open_for_write_inv [OF j1(1), of handle ino rd wr] j1(2) that
    by (cases "open_for_write V ino rd wr handle s1") (auto simp: bnd_def split: sum.split option.split)
  with I j1(1) 1 show "jinv V {} {} (state_of (fs_open V ino rd wr s))"
    by (cases r1) (auto simp: fs_open_def)
qed

end
