(* ===== verification/Sample_FS.thy ===== *)
theory Sample_FS
  imports Fs_Meta
begin

text \<open>
  A concrete instance of the parameters of the file system: numbers in base 128, strings with a
  length prefix. It satisfies \<open>fs_env_ok\<close>, and witnesses use it.
\<close>

subsection \<open>Numbers\<close>

function put_nat :: "nat \<Rightarrow> bytes" where
  "put_nat n = (if n < 128 then [word_of_nat n] else word_of_nat (128 + n mod 128) # put_nat (n div 128))"
  by pat_completeness auto
termination by (relation "measure id") auto

declare put_nat.simps [simp del]

fun get_nat :: "bytes \<Rightarrow> (nat \<times> bytes) option" where
  "get_nat [] = None"
| "get_nat (b # r) = (if unat b < 128 then Some (unat b, r)
     else case get_nat r of None \<Rightarrow> None | Some (n, r') \<Rightarrow> Some (n * 128 + (unat b - 128), r'))"

lemma unat_byte: "n < 256 \<Longrightarrow> unat (word_of_nat n :: byte) = n"
  by (simp add: unsigned_of_nat take_bit_eq_mod)

lemma get_put_nat: "get_nat (put_nat n @ r) = Some (n, r)"
proof (induction n rule: put_nat.induct)
  case (1 n)
  show ?case
  proof (cases "n < 128")
    case True
    then show ?thesis by (simp add: put_nat.simps [of n] unat_byte)
  next
    case False
    have "unat (word_of_nat (128 + n mod 128) :: byte) = 128 + n mod 128" by (rule unat_byte) simp
    with False 1 show ?thesis by (simp add: put_nat.simps [of n])
  qed
qed

fun get_nats :: "nat \<Rightarrow> bytes \<Rightarrow> (nat list \<times> bytes) option" where
  "get_nats 0 r = Some ([], r)"
| "get_nats (Suc k) r = (case get_nat r of None \<Rightarrow> None
     | Some (n, r') \<Rightarrow> (case get_nats k r' of None \<Rightarrow> None | Some (ns, r'') \<Rightarrow> Some (n # ns, r'')))"

lemma get_put_nats: "get_nats (length ns) (concat (map put_nat ns) @ r) = Some (ns, r)"
  by (induction ns) (simp_all add: get_put_nat)

subsection \<open>The values of the file system\<close>

definition nat_of_kind :: "file_type \<Rightarrow> nat" where
  "nat_of_kind k = (case k of Directory \<Rightarrow> 0 | RegularFile \<Rightarrow> 1)"

definition kind_of_nat :: "nat \<Rightarrow> file_type" where
  "kind_of_nat n = (if n = 0 then Directory else RegularFile)"

lemma kind_of_nat_of_kind [simp]: "kind_of_nat (nat_of_kind k) = k"
  by (cases k) (simp_all add: kind_of_nat_def nat_of_kind_def)

definition attr_nats :: "file_attr \<Rightarrow> nat list" where
  "attr_nats a = [a_ino a, a_size a, a_blocks a, a_atime a, a_mtime a, a_ctime a, a_crtime a, nat_of_kind (a_kind a),
     unat (a_perm a), unat (a_nlink a), unat (a_uid a), unat (a_gid a), unat (a_rdev a), unat (a_blksize a), unat (a_flags a)]"

definition attr_of_nats :: "nat list \<Rightarrow> file_attr" where
  "attr_of_nats n = \<lparr>a_ino = n ! 0, a_size = n ! 1, a_blocks = n ! 2, a_atime = n ! 3, a_mtime = n ! 4, a_ctime = n ! 5,
     a_crtime = n ! 6, a_kind = kind_of_nat (n ! 7), a_perm = word_of_nat (n ! 8), a_nlink = word_of_nat (n ! 9),
     a_uid = word_of_nat (n ! 10), a_gid = word_of_nat (n ! 11), a_rdev = word_of_nat (n ! 12),
     a_blksize = word_of_nat (n ! 13), a_flags = word_of_nat (n ! 14)\<rparr>"

lemma attr_of_nats_inverse: "attr_of_nats (attr_nats a) = a"
  by (simp add: attr_of_nats_def attr_nats_def)

definition put_nats :: "nat list \<Rightarrow> bytes list" where
  "put_nats ns = map put_nat ns"

definition sample_de_attr :: "bytes \<Rightarrow> file_attr option" where
  "sample_de_attr d = map_option (\<lambda>(ns, r). attr_of_nats ns) (get_nats 15 d)"

definition sample_de_entry :: "bytes \<Rightarrow> (nat \<times> file_type) option" where
  "sample_de_entry d = map_option (\<lambda>(ns, r). (ns ! 0, kind_of_nat (ns ! 1))) (get_nats 2 d)"

definition sample_ser_hash :: "nat \<times> file_type \<times> string \<Rightarrow> bytes list" where
  "sample_ser_hash v = (case v of (ino, k, name) \<Rightarrow> put_nats [ino, nat_of_kind k] @ [as_bytes name])"

definition sample_de_hash :: "bytes \<Rightarrow> (nat \<times> file_type \<times> string) option" where
  "sample_de_hash d = map_option (\<lambda>(ns, r). (ns ! 0, kind_of_nat (ns ! 1), string_of_bytes r)) (get_nats 2 d)"

definition sample_fs :: fs_env where
  "sample_fs = \<lparr>v_crypto = sample_crypto, v_cipher = Aes256Gcm, v_ser_attr = put_nats \<circ> attr_nats, v_de_attr = sample_de_attr,
     v_ser_entry = (\<lambda>(ino, k). put_nats [ino, nat_of_kind k]), v_de_entry = sample_de_entry,
     v_ser_hash = sample_ser_hash, v_de_hash = sample_de_hash, v_rand = (\<lambda>i. i + 2), v_fuel = 10\<rparr>"

lemma get_put_nats': "length ns = k \<Longrightarrow> get_nats k (concat (put_nats ns) @ r) = Some (ns, r)"
  using get_put_nats [of ns r] by (simp add: put_nats_def)

lemma sample_de_attr_ser: "sample_de_attr (concat (put_nats (attr_nats a))) = Some a"
proof -
  have "get_nats 15 (concat (put_nats (attr_nats a)) @ []) = Some (attr_nats a, [])"
    by (rule get_put_nats') (simp add: attr_nats_def)
  then show ?thesis by (simp add: sample_de_attr_def attr_of_nats_inverse)
qed

lemma sample_fs_ok: "fs_env_ok sample_fs"
proof -
  have "sample_de_entry (concat (put_nats [i, nat_of_kind k])) = Some (i, k)" for i k
    using get_put_nats' [of "[i, nat_of_kind k]" 2 "[]"] by (simp add: sample_de_entry_def)
  moreover have "sample_de_hash (concat (sample_ser_hash (i, k, n))) = Some (i, k, n)" for i k n
    using get_put_nats' [of "[i, nat_of_kind k]" 2 "as_bytes n"]
    by (simp add: sample_de_hash_def sample_ser_hash_def)
  ultimately show ?thesis
    using sample_crypto_ok by (auto simp: fs_env_ok_def sample_fs_def sample_de_attr_ser)
qed

lemma sample_fs_sel [simp]:
  "v_crypto sample_fs = sample_crypto" "v_cipher sample_fs = Aes256Gcm" "v_rand sample_fs = (\<lambda>i. i + 2)" "v_fuel sample_fs = 10"
  by (simp_all add: sample_fs_def)

lemma key_ok_sample [simp]: "key_ok sample_fs sample_key"
  by (simp add: key_ok_def key_len_def)

text \<open>An empty data directory, opened for the first time.\<close>

definition empty_store :: store where
  "empty_store = \<lparr>st_inodes = Map.empty, st_contents = Map.empty, st_objs = (\<lambda>_. []), st_next_obj = 0\<rparr>"

definition sample_root :: encrypted_fs where
  "sample_root = (case fs_new sample_fs 0 0 empty_store sample_key 1000 0 of Inr s \<Rightarrow> s)"

end
