(* ===== verification/Fs_Steps.thy ===== *)
theory Fs_Steps
  imports Fs_Invariant Sample_FS
begin

text \<open>
  The file system as a state machine: a step is one operation, with any arguments and any outcome,
  or the loss of cache entries. Every reachable state keeps the attribute cache consistent with the
  storage and the handle tables consistent with each other.
\<close>

subsection \<open>Release\<close>

lemma handles_okD:
  assumes "handles_ok s"
  shows "f_write_handles s h = Some c \<Longrightarrow> f_opened_write s (wc_ino c) = Some h"
    "f_write_handles s h = Some c \<Longrightarrow> 0 < h \<and> h < f_current_handle s"
    "f_read_handles s h = Some d \<Longrightarrow> \<exists>l. f_opened_read s (rc_ino d) = Some l \<and> h \<in> set l"
    "f_read_handles s h = Some d \<Longrightarrow> 0 < h \<and> h < f_current_handle s" "0 < f_current_handle s"
  using assms unfolding handles_ok_def by blast+

lemma jinv_handles: "jinv V W R s \<Longrightarrow> handles_ok s"
  by (simp add: jinv_def hinv_def)

lemma jinv_release_read:
  assumes I: "jinv V {} {} s" and c: "f_read_handles s handle = Some ctx" and l: "f_opened_read s (rc_ino ctx) = Some fhs"
  shows "jinv V {} {} (s\<lparr>f_read_handles := (f_read_handles s)(handle := None), f_opened_read :=
    (f_opened_read s)(rc_ino ctx := (if removeAll handle fhs = [] then None else Some (removeAll handle fhs)))\<rparr>)" (is "jinv V {} {} ?s")
proof (rule jinv_tables [OF I])
  have ok: "handles_ok s" using I by (simp add: jinv_def hinv_def)
  have "\<exists>l. f_opened_read ?s (rc_ino c) = Some l \<and> h \<in> set l" if "f_read_handles ?s h = Some c" for h c
  proof -
    from that have h: "h \<noteq> handle" "f_read_handles s h = Some c" by (auto split: if_splits)
    with handles_okD(3) [OF ok] obtain l' where "f_opened_read s (rc_ino c) = Some l'" "h \<in> set l'" by blast
    with h l show ?thesis by (cases "rc_ino c = rc_ino ctx") (auto simp: removeAll_filter_not_eq filter_empty_conv)
  qed
  moreover have "0 < h \<and> h < f_current_handle ?s" if "f_read_handles ?s h = Some c" for h c
    using that handles_okD(4) [OF ok] by (auto split: if_splits)
  ultimately show "hinv {} {} ?s" using ok by (simp add: hinv_def handles_ok_def)
qed simp_all

lemma pres_release_read [pres_rules]: "pres (jinv V {} {}) (release_read V handle)"
proof (rule presI)
  fix s assume I: "jinv V {} {} s"
  show "jinv V {} {} (state_of (release_read V handle s))"
  proof (cases "f_read_handles s handle")
    case None
    with I show ?thesis by (simp add: release_read_def)
  next
    case (Some ctx)
    then obtain fhs where l: "f_opened_read s (rc_ino ctx) = Some fhs"
      using handles_okD(3) [OF jinv_handles [OF I]] by blast
    let ?s = "s\<lparr>f_read_handles := (f_read_handles s)(handle := None), f_opened_read :=
      (f_opened_read s)(rc_ino ctx := (if removeAll handle fhs = [] then None else Some (removeAll handle fhs)))\<rparr>"
    have "pres (jinv V {} {}) (bnd (set_attr V (rc_ino ctx) (set_attr_of_times (rc_attr ctx))) (\<lambda>_. ret True))"
      by (intro pres_rules)
    with jinv_release_read [OF I Some l] have
      "jinv V {} {} (state_of (bnd (set_attr V (rc_ino ctx) (set_attr_of_times (rc_attr ctx))) (\<lambda>_. ret True) ?s))"
      by (simp only: pres_def)
    then show ?thesis using Some l
      by (simp add: release_read_def Let_def upd_read_handles [of "\<lambda>m. m(handle := None)"]
          upd_opened_read [of "\<lambda>m. m(rc_ino ctx := _)"])
  qed
qed

text \<open>No write handle is open on an inode.\<close>

definition not_written :: "nat \<Rightarrow> _ \<Rightarrow> bool" where
  "not_written ino v \<longleftrightarrow> (case v of (wh, rh, opr, opw, cur) \<Rightarrow> \<forall>h (c :: write_ctx). wh h = Some c \<longrightarrow> wc_ino c \<noteq> ino)"

lemma jinv_drop_write:
  assumes I: "jinv V {} {} s" and c: "f_write_handles s handle = Some ctx"
  shows "jinv V {} {} (s\<lparr>f_write_handles := (f_write_handles s)(handle := None)\<rparr>)"
    "not_written (wc_ino ctx) (handle_view (s\<lparr>f_write_handles := (f_write_handles s)(handle := None)\<rparr>))"
proof -
  show "jinv V {} {} (s\<lparr>f_write_handles := (f_write_handles s)(handle := None)\<rparr>)"
    by (rule jinv_tables [OF I]) (use I in \<open>auto simp: jinv_def hinv_def handles_ok_def\<close>)
  have "h = handle" if "f_write_handles s h = Some d" "wc_ino d = wc_ino ctx" for h d
    using that handles_okD(1) [OF jinv_handles [OF I], of h d] handles_okD(1) [OF jinv_handles [OF I] c] by simp
  then show "not_written (wc_ino ctx) (handle_view (s\<lparr>f_write_handles := (f_write_handles s)(handle := None)\<rparr>))"
    by (auto simp: not_written_def handle_view_def)
qed

lemma jinv_unregister_write:
  assumes I: "jinv V {} {} s" and n: "not_written ino (handle_view s)"
  shows "jinv V {} {} (s\<lparr>f_opened_write := (f_opened_write s)(ino := None)\<rparr>)"
  by (rule jinv_tables [OF I]) (use I n in \<open>auto simp: not_written_def handle_view_def jinv_def hinv_def handles_ok_def\<close>)

lemma pres_release_write [pres_rules]: "pres (jinv V {} {}) (release_write V handle)"
proof (rule presI)
  fix s assume I: "jinv V {} {} s"
  show "jinv V {} {} (state_of (release_write V handle s))"
  proof (cases "f_write_handles s handle")
    case None
    with I show ?thesis by (simp add: release_write_def)
  next
    case (Some ctx)
    let ?s = "s\<lparr>f_write_handles := (f_write_handles s)(handle := None)\<rparr>"
    let ?J = "\<lambda>s. jinv V {} {} s \<and> not_written (wc_ino ctx) (handle_view s)"
    have J: "?J ?s" using jinv_drop_write [OF I Some] by simp
    note upd = upd_write_handles [of "\<lambda>m. m(handle := None)"]
    have tail: "jinv V {} {} (state_of (bnd (modif (f_opened_write_update (\<lambda>m. m(wc_ino ctx := None)))) (\<lambda>_.
        bnd (reset_handles V (wc_ino ctx) (Some handle) True) (\<lambda>_. ret True)) s'))" if "?J s'" for s'
    proof -
      have "jinv V {} {} (s'\<lparr>f_opened_write := (f_opened_write s')(wc_ino ctx := None)\<rparr>)"
        using that jinv_unregister_write by simp
      moreover have "pres (jinv V {} {}) (bnd (reset_handles V (wc_ino ctx) (Some handle) True) (\<lambda>_. ret True))"
        by (intro pres_rules)
      ultimately show ?thesis by (simp add: pres_def upd_opened_write [of "\<lambda>m. m(wc_ino ctx := None)"])
    qed
    show ?thesis
    proof (cases "wc_writer ctx")
      case None
      with Some J show ?thesis by (simp add: release_write_def upd)
    next
      case w: (Some w)
      have "jinv V {} {} (state_of (bnd (finish_writer V (wc_obj ctx) w) (\<lambda>_.
             bnd (set_attr V (wc_ino ctx) (set_attr_of_times_and_size (wc_attr ctx))) (\<lambda>_.
             bnd (modif (f_opened_write_update (\<lambda>m. m(wc_ino ctx := None)))) (\<lambda>_.
             bnd (reset_handles V (wc_ino ctx) (Some handle) True) (\<lambda>_. ret True)))) ?s))"
        by (intro after_bnd [where J = ?J and K = "jinv V {} {}"] ext.pres_finish_writer ext.pres_set_attr tail) (use J in simp_all)
      with Some w show ?thesis by (simp add: release_write_def upd)
    qed
  qed
qed

lemma pres_fs_release [pres_rules]: "pres (jinv V {} {}) (fs_release V handle)"
  unfolding fs_release_def by (intro pres_rules)

subsection \<open>Read and write\<close>

lemma pres_fs_read [pres_rules]: "pres (jinv V {} {}) (fs_read V ino offset n handle)"
  unfolding fs_read_def by (intro pres_rules) simp_all

lemma pres_fs_write [pres_rules]: "pres (jinv V {} {}) (fs_write V ino offset buf handle)"
  unfolding fs_write_def by (intro pres_rules) simp_all

lemma pres_fs_flush [pres_rules]: "pres (jinv V {} {}) (fs_flush V handle)"
  unfolding fs_flush_def by (intro pres_rules)


lemma pres_copy_range_loop [pres_rules]: "pres (jinv V {} {}) (copy_range_loop V i off sz buf fh copied)"
proof (rule presI)
  fix s assume "jinv V {} {} s"
  then show "jinv V {} {} (state_of (copy_range_loop V i off sz buf fh copied s))"
  proof (induction V i off sz buf fh copied s rule: copy_range_loop.induct)
    case (1 V i off sz buf fh copied s)
    obtain r s' where w: "fs_write V i off (drop copied buf) fh s = (r, s')" by (cases "fs_write V i off (drop copied buf) fh s")
    have "jinv V {} {} s'" by (rule presD [OF pres_fs_write w "1.prems"])
    with "1.IH" [OF _ _ w [symmetric]] "1.prems" w show ?case
      by (subst copy_range_loop.simps) (auto split: sum.split)
  qed
qed

lemma pres_copy_file_range [pres_rules]: "pres (jinv V {} {}) (copy_file_range V i off i' off' sz fh fh')"
  unfolding copy_file_range_def by (intro pres_rules)

lemma pres_write_all_bytes_loop [pres_rules]: "pres (jinv V {} {}) (write_all_bytes_loop V i off buf fh pos)"
proof (rule presI)
  fix s assume "jinv V {} {} s"
  then show "jinv V {} {} (state_of (write_all_bytes_loop V i off buf fh pos s))"
  proof (induction V i off buf fh pos s rule: write_all_bytes_loop.induct)
    case (1 V i off buf fh pos s)
    obtain r s' where w: "fs_write V i off (drop pos buf) fh s = (r, s')" by (cases "fs_write V i off (drop pos buf) fh s")
    have "jinv V {} {} s'" by (rule presD [OF pres_fs_write w "1.prems"])
    with "1.IH" [OF _ w [symmetric]] "1.prems" w show ?case
      by (subst write_all_bytes_loop.simps) (auto split: sum.split)
  qed
qed

lemma pres_write_all_bytes [pres_rules]: "pres (jinv V {} {}) (write_all_bytes_to_fs V i off buf fh)"
  unfolding write_all_bytes_to_fs_def by (intro pres_rules)

subsection \<open>Truncation and creation\<close>

lemma pres_flush_and_reset_writers [pres_rules]: "pres (jinv V W R) (flush_and_reset_writers V ino)"
  unfolding flush_and_reset_writers_def
  by (intro pres_bnd [OF pres_gets] pres_option pres_lookup_write pres_ret pres_throw)
     (intro pres_bnd pres_rules pres_set_write; simp)

lemma pres_set_len [pres_rules]: "pres (jinv V {} {}) (set_len V ino sz)"
  unfolding set_len_def by (intro pres_rules)

lemma pres_kind [pres_rules]:
  "pres I m \<Longrightarrow> pres I n \<Longrightarrow> pres I (case k of Directory \<Rightarrow> m | RegularFile \<Rightarrow> n)"
  by (cases k) simp_all

lemma pres_create [pres_rules]: "pres (jinv V {} {}) (create V parent name attr rd wr)"
  unfolding create_def by (intro pres_rules core.inv_write)


subsection \<open>The state machine\<close>

text \<open>
  One step: an operation of the interface with any arguments, whether it succeeds or fails, or
  entries leaving the caches.
\<close>

inductive fs_step :: "fs_env \<Rightarrow> encrypted_fs \<Rightarrow> encrypted_fs \<Rightarrow> bool" for V where
  step_create: "create V parent name attr rd wr s = (r1, s') \<Longrightarrow> fs_step V s s'"
| step_find_by_name: "find_by_name V parent name s = (r2, s') \<Longrightarrow> fs_step V s s'"
| step_remove_dir: "remove_dir V parent name s = (r3, s') \<Longrightarrow> fs_step V s s'"
| step_remove_file: "remove_file V parent name s = (r4, s') \<Longrightarrow> fs_step V s s'"
| step_read_dir: "read_dir V ino s = (r5, s') \<Longrightarrow> fs_step V s s'"
| step_read_dir_plus: "read_dir_plus V ino s = (r6, s') \<Longrightarrow> fs_step V s s'"
| step_get_attr: "get_attr V ino s = (r7, s') \<Longrightarrow> fs_step V s s'"
| step_set_attr: "set_attr V ino sa s = (r8, s') \<Longrightarrow> fs_step V s s'"
| step_read: "fs_read V ino offset n handle s = (r9, s') \<Longrightarrow> fs_step V s s'"
| step_write: "fs_write V ino offset buf handle s = (r10, s') \<Longrightarrow> fs_step V s s'"
| step_flush: "fs_flush V handle s = (r11, s') \<Longrightarrow> fs_step V s s'"
| step_release: "fs_release V handle s = (r12, s') \<Longrightarrow> fs_step V s s'"
| step_copy_file_range: "copy_file_range V ino offset ino' offset' n handle handle' s = (r13, s') \<Longrightarrow> fs_step V s s'"
| step_open: "fs_open V ino rd wr s = (r14, s') \<Longrightarrow> fs_step V s s'"
| step_set_len: "set_len V ino n s = (r15, s') \<Longrightarrow> fs_step V s s'"
| step_rename: "fs_rename V parent name parent' name' s = (r16, s') \<Longrightarrow> fs_step V s s'"
| step_evict: "fs_step V s (evict A N M s)"

inductive_cases fs_stepE: "fs_step V s s'"

lemma jinv_evict: "jinv V {} {} s \<Longrightarrow> jinv V {} {} (evict A N M s)"
proof -
  assume I: "jinv V {} {} s"
  have "inodes_ok V (s\<lparr>f_attr_cache := f_attr_cache s |` A\<rparr>)"
    using I by (auto simp: jinv_def inodes_ok_def attr_cache_ok_def restrict_map_def split: if_splits)
  moreover have "hinv {} {} (s\<lparr>f_attr_cache := f_attr_cache s |` A\<rparr>)" using I by (simp add: jinv_def hinv_def handles_ok_def)
  ultimately have "jinv V {} {} (s\<lparr>f_attr_cache := f_attr_cache s |` A\<rparr>)" using I by (simp add: jinv_def)
  then show ?thesis by (rule core.inv_frame) (simp add: evict_def same_core_def handle_view_def)
qed

lemma jinv_step:
  assumes "fs_step V s s'" "jinv V {} {} s"
  shows "jinv V {} {} s'"
  using assms
  by (elim fs_stepE)
     (fast intro: jinv_evict elim: presD [OF pres_create] presD [OF core.pres_find_by_name] presD [OF core.pres_removals(1)]
       presD [OF core.pres_removals(2)] presD [OF core.pres_read_dir(1)] presD [OF core.pres_read_dir(2)]
       presD [OF core.pres_get_attr] presD [OF core.pres_set_attr] presD [OF pres_fs_read] presD [OF pres_fs_write]
       presD [OF pres_fs_flush] presD [OF pres_fs_release] presD [OF pres_copy_file_range] presD [OF pres_fs_open]
       presD [OF pres_set_len] presD [OF core.pres_rename])+

lemma jinv_steps: "(fs_step V)\<^sup>*\<^sup>* s s' \<Longrightarrow> jinv V {} {} s \<Longrightarrow> jinv V {} {} s'"
  by (induction rule: rtranclp_induct) (blast intro: jinv_step)+

text \<open>The inode files of a data directory that was written with this key.\<close>

definition inode_files_ok :: "fs_env \<Rightarrow> bytes \<Rightarrow> store \<Rightarrow> bool" where
  "inode_files_ok V key st \<longleftrightarrow> (\<forall>ino ct. st_inodes st ino = Some ct \<longrightarrow>
     (\<exists>a. load_meta V (v_de_attr V) key ct = Inr a \<and> a_ino a = ino))"

lemma fs_new_jinv:
  assumes "fs_env_ok V" "key_ok V key" "inode_files_ok V key st" "fs_new V uid gid st key now rng = Inr s"
  shows "jinv V {} {} s"
proof -
  let ?s = "\<lparr>f_store = st, f_key = key, f_write_handles = Map.empty, f_read_handles = Map.empty, f_current_handle = 1,
           f_opened_read = Map.empty, f_opened_write = Map.empty, f_attr_cache = Map.empty, f_name_cache = Map.empty,
           f_meta_cache = Map.empty, f_time = now, f_rng = rng\<rparr>"
  have "inodes_ok V ?s"
    using assms(2,3) by (fastforce simp: inodes_ok_def attr_cache_ok_def ino_exists_def stored_attr_def inode_files_ok_def split: sum.split)
  then have "jinv V {} {} ?s" using assms(1) by (simp add: jinv_def hinv_def handles_ok_def)
  moreover have "ensure_root_exists V uid gid ?s = (Inr (), s)"
    using assms(4) by (auto simp: fs_new_def Let_def split: prod.splits sum.splits)
  ultimately show ?thesis using presD [OF core.pres_ensure_root] by blast
qed


text \<open>The first start on an empty storage makes the root directory with an entry for itself.\<close>

lemma fs_new_first:
  assumes V: "fs_env_ok V" "key_ok V key" and st: "st_inodes st = Map.empty" "st_contents st = Map.empty"
  obtains s where "fs_new V uid gid st key now rng = Inr s" "jinv V {} {} s" "is_dir s ROOT_INODE" "ino_exists s ROOT_INODE"
    "has_entry V s ROOT_INODE (hash_file_name (v_crypto V) ''$.'') ROOT_INODE Directory"
    "\<forall>i. ino_exists s i \<longrightarrow> i = ROOT_INODE" "st_objs (f_store s) = st_objs st"
    "\<forall>hn. hn \<noteq> hash_file_name (v_crypto V) ''$.'' \<longrightarrow> hash_of (f_store s) ROOT_INODE hn = None"
    "\<forall>i. i \<noteq> ROOT_INODE \<longrightarrow> st_contents (f_store s) i = None"
proof -
  let ?s = "\<lparr>f_store = st, f_key = key, f_write_handles = Map.empty, f_read_handles = Map.empty, f_current_handle = 1,
           f_opened_read = Map.empty, f_opened_write = Map.empty, f_attr_cache = Map.empty, f_name_cache = Map.empty,
           f_meta_cache = Map.empty, f_time = now, f_rng = rng\<rparr>"
  let ?s1 = "?s\<lparr>f_time := Suc now\<rparr>"
  let ?a = "(file_attr_of_create now \<lparr>c_kind = Directory, c_perm = 493, c_uid = 0, c_gid = 0, c_rdev = 0, c_flags = 0\<rparr>)
             \<lparr>a_ino := ROOT_INODE, a_uid := uid, a_gid := gid\<rparr>"
  have aino: "a_ino ?a = ROOT_INODE" by simp
  have i1: "inodes_ok V ?s1" using V(2) st(1) by (simp add: inodes_ok_def attr_cache_ok_def ino_exists_def)
  obtain s2 where s2: "write_inode_to_storage V ?a ?s1 = (Inr (), s2)" "inodes_ok V s2" "same_but_meta ?s1 s2"
      "stored_attr V s2 = (stored_attr V ?s1)(ROOT_INODE \<mapsto> ?a)"
      "\<forall>i. i \<noteq> ROOT_INODE \<longrightarrow> st_inodes (f_store s2) i = st_inodes (f_store ?s1) i"
    by (rule write_inode_ok [OF V(1) i1, of ?a, unfolded aino]) (rule that; assumption)
  have ex2: "ino_exists s2 ROOT_INODE" using s2(4) stored_attr_exists [of V s2 ROOT_INODE] by simp
  let ?s3 = "s2\<lparr>f_store := (f_store s2)\<lparr>st_contents := [ROOT_INODE \<mapsto> CDir [] []]\<rparr>\<rparr>"
  have c2: "st_contents (f_store s2) = Map.empty" using same_but_metaD(1) [OF s2(3)] st(2) by simp
  have k3: "key_ok V (f_key ?s3)" using s2(2) by (simp add: inodes_ok_def)
  have d3: "is_dir ?s3 ROOT_INODE" by (simp add: is_dir_def)
  let ?e = "\<lparr>de_ino = ROOT_INODE, de_name = ''$.'', de_kind = Directory\<rparr>"
  obtain s4 where s4: "insert_directory_entry V ROOT_INODE ?e ?s3 = (Inr (), s4)"
    "has_entry V s4 ROOT_INODE (hash_file_name (v_crypto V) ''$.'') ROOT_INODE Directory"
    "st_is_dir (f_store s4) = st_is_dir (f_store ?s3)" "st_inodes (f_store s4) = st_inodes (f_store ?s3)"
    "st_objs (f_store s4) = st_objs (f_store ?s3)"
    "\<forall>i. i \<noteq> ROOT_INODE \<longrightarrow> st_contents (f_store s4) i = st_contents (f_store ?s3) i"
    "\<forall>d m. (d, m) \<noteq> (ROOT_INODE, hash_file_name (v_crypto V) ''$.'') \<longrightarrow> hash_of (f_store s4) d m = hash_of (f_store ?s3) d m"
    by (rule insert_entry_has [OF V(1) k3 d3, of ?e, unfolded directory_entry.select_convs]) (rule that; assumption)
  have new: "fs_new V uid gid st key now rng = Inr s4"
    using s2(1) s4(1) st c2 by (simp add: fs_new_def ensure_root_exists_def ino_exists_def system_time_now_def create_content_dir_def)
  show thesis
  proof (rule that [OF new])
    show "jinv V {} {} s4" using fs_new_jinv [OF V _ new] st(1) by (simp add: inode_files_ok_def)
    show "is_dir s4 ROOT_INODE" using s4(3) d3 by (simp add: is_dir_store)
    show "ino_exists s4 ROOT_INODE" using ex2 s4(4) by (simp add: ino_exists_def)
    show "has_entry V s4 ROOT_INODE (hash_file_name (v_crypto V) ''$.'') ROOT_INODE Directory" by (rule s4(2))
    show "\<forall>i. ino_exists s4 i \<longrightarrow> i = ROOT_INODE" using s2(5) s4(4) st(1) by (auto simp: ino_exists_def)
    show "st_objs (f_store s4) = st_objs st" using s4(5) same_but_metaD(2) [OF s2(3)] by simp
    show "\<forall>hn. hn \<noteq> hash_file_name (v_crypto V) ''$.'' \<longrightarrow> hash_of (f_store s4) ROOT_INODE hn = None"
      using s4(7) by (simp add: hash_of_def)
    show "\<forall>i. i \<noteq> ROOT_INODE \<longrightarrow> st_contents (f_store s4) i = None" using s4(6) by simp
  qed
qed


subsection \<open>Handle numbers\<close>

text \<open>The next handle number never decreases, and the key never changes.\<close>

definition keeps :: "nat \<Rightarrow> bytes \<Rightarrow> encrypted_fs \<Rightarrow> bool" where
  "keeps n k s \<longleftrightarrow> n < f_current_handle s \<and> f_key s = k"

lemma write_inode_key: "f_key (state_of (write_inode_to_storage V a s)) = f_key s"
  by (auto simp: write_inode_to_storage_def save_meta_def create_rng_def lift_err_def bnd_def split: sum.split)

interpretation keep: fs_inv V "keeps n k" for V n k
proof
  fix a show "pres (keeps n k) (write_inode_to_storage V a)"
    using write_inode_view [of V a] write_inode_key [of V a] by (intro presI) (simp add: keeps_def handle_view_def)
qed (simp_all add: keeps_def same_core_def handle_view_def)

lemma keeps_handles [pres_rules]:
  "pres (keeps n key) (modif (f_read_handles_update k))" "pres (keeps n key) (modif (f_write_handles_update g))"
  "pres (keeps n key) (modif (f_opened_read_update po))" "pres (keeps n key) (modif (f_opened_write_update pw))"
  by (rule pres_modif; simp add: keeps_def)+

lemma keeps_on [pres_rules]:
  "pres (keeps n key) (on_reader fh m1)" "pres (keeps n key) (on_writer fh m2)"
  "pres (keeps n key) next_handle"
  by (rule presI; simp add: keeps_def on_reader_def on_writer_def next_handle_def write_back_def put_obj_def split: option.split prod.split)+

lemma keeps_resets [pres_rules]: "pres (keeps n key) (reset_handles V ino skip save)"
  unfolding reset_handles_def reset_read_handle_def reset_write_handle_def by (intro pres_rules)

lemma keeps_do_with [pres_rules]:
  "pres (keeps n key) (do_with_read_handle V h ino)" "pres (keeps n key) (do_with_write_handle V h ino)"
  unfolding do_with_read_handle_def do_with_write_handle_def by (intro pres_rules pres_modif; simp add: keeps_def)+

lemma keeps_open [pres_rules]:
  "pres (keeps n key) (open_for_write V ino rd wr handle)" "pres (keeps n key) (fs_open V ino rd wr)"
  unfolding fs_open_def open_for_read_def open_for_write_def by (intro pres_rules)+

lemma keeps_write [pres_rules]: "pres (keeps n key) (fs_write V ino offset buf handle)"
  unfolding fs_write_def by (intro pres_rules)

lemma keeps_copy_range_loop [pres_rules]: "pres (keeps n key) (copy_range_loop V i off sz buf fh copied)"
proof (rule presI)
  fix s :: encrypted_fs
  assume "keeps n key s"
  then show "keeps n key (state_of (copy_range_loop V i off sz buf fh copied s))"
  proof (induction V i off sz buf fh copied s rule: copy_range_loop.induct)
    case (1 V i off sz buf fh copied s)
    obtain r s' where w: "fs_write V i off (drop copied buf) fh s = (r, s')" by (cases "fs_write V i off (drop copied buf) fh s")
    have "keeps n key s'" by (rule presD [OF keeps_write w "1.prems"])
    with "1.IH" [OF _ _ w [symmetric]] "1.prems" w show ?case
      by (subst copy_range_loop.simps) (auto split: sum.split)
  qed
qed

lemma keeps_files [pres_rules]:
  "pres (keeps n key) (fs_read V ino offset len handle)" "pres (keeps n key) (fs_flush V handle)"
  "pres (keeps n key) (fs_release V handle)" "pres (keeps n key) (copy_file_range V i off i' off' sz fh fh')"
  "pres (keeps n key) (set_len V ino sz)" "pres (keeps n key) (create V parent name attr rd wr)"
  unfolding fs_read_def fs_flush_def fs_release_def release_read_def release_write_def copy_file_range_def set_len_def
    flush_and_reset_writers_def create_def
  by (intro pres_rules keep.inv_write)+

lemma keeps_step: "fs_step V s s' \<Longrightarrow> keeps n key s \<Longrightarrow> keeps n key s'"
  by (erule fs_stepE)
     (fast intro: presD [OF keep.pres_find_by_name] presD [OF keep.pres_removals(1)]
       presD [OF keep.pres_removals(2)] presD [OF keep.pres_read_dir(1)] presD [OF keep.pres_read_dir(2)]
       presD [OF keep.pres_get_attr] presD [OF keep.pres_set_attr] presD [OF keeps_files(1)] presD [OF keeps_write]
       presD [OF keeps_files(2)] presD [OF keeps_files(3)] presD [OF keeps_files(4)] presD [OF keeps_open(2)]
       presD [OF keeps_files(5)] presD [OF keeps_files(6)] presD [OF keep.pres_rename] | simp add: evict_def keeps_def)+

lemma keeps_steps: "(fs_step V)\<^sup>*\<^sup>* s s' \<Longrightarrow> keeps n key s \<Longrightarrow> keeps n key s'"
  by (induction rule: rtranclp_induct) (blast intro: keeps_step)+

lemma cur_steps: "(fs_step V)\<^sup>*\<^sup>* s s' \<Longrightarrow> n < f_current_handle s \<Longrightarrow> n < f_current_handle s'"
  using keeps_steps [of V s s' n "f_key s"] by (simp add: keeps_def)

lemma key_steps: "(fs_step V)\<^sup>*\<^sup>* s s' \<Longrightarrow> 0 < f_current_handle s \<Longrightarrow> f_key s' = f_key s"
  using keeps_steps [of V s s' 0 "f_key s"] by (simp add: keeps_def)

text \<open>A successful open returns the next number.\<close>

lemma bnd_eq_Inr: "bnd m f s = (Inr b, s'') \<longleftrightarrow> (\<exists>a s'. m s = (Inr a, s') \<and> f a s' = (Inr b, s''))"
  by (auto simp: bnd_def split: prod.splits sum.splits)

lemma open_number:
  assumes "fs_open V ino rd wr s = (Inr h, s')"
  shows "h = f_current_handle s" "h < f_current_handle s'"
proof -
  let ?s = "s\<lparr>f_current_handle := Suc (f_current_handle s)\<rparr>"
  obtain o1 s1 where r: "open_for_read V ino rd s = (Inr o1, s1)" and w: "open_for_write V ino rd wr o1 s1 = (Inr (Some h), s')"
    and rw: "rd \<or> wr"
    using assms by (auto simp: fs_open_def bnd_eq_Inr split: if_splits option.splits)
  have "h = f_current_handle s \<and> h < f_current_handle s'"
  proof (cases rd)
    case True
    with r obtain u where d: "do_with_read_handle V (f_current_handle s) ino ?s = (Inr u, s1)" and o1: "o1 = Some (f_current_handle s)"
      by (auto simp: open_for_read_def next_handle_def bnd_eq_Inr)
    have "f_current_handle s < f_current_handle s1" using presD [OF keeps_do_with(1) d, of "f_current_handle s" "f_key s"] by (simp add: keeps_def)
    then have "f_current_handle s < f_current_handle s'" using presD [OF keeps_open(1) w, of "f_current_handle s" "f_key s1"] by (simp add: keeps_def)
    with w o1 show ?thesis by (auto simp: open_for_write_def bnd_eq_Inr split: if_splits)
  next
    case False
    with r rw have "s1 = s" "o1 = None" wr by (auto simp: open_for_read_def)
    with w have "h = f_current_handle s \<and> (\<exists>u. do_with_write_handle V (f_current_handle s) ino ?s = (u, s'))"
      using False by (auto simp: open_for_write_def next_handle_def bnd_eq_Inr attempt_def split: if_splits prod.splits)
    then show ?thesis using presD [OF keeps_do_with(2), of V _ ino _ _ s' "f_current_handle s" "f_key s"] by (fastforce simp: keeps_def)
  qed
  then show "h = f_current_handle s" "h < f_current_handle s'" by simp_all
qed

end
