(* ===== verification/Fs_Create.thy ===== *)
theory Fs_Create
  imports Fs_Steps
begin

text \<open>
  What creating a node does, on a consistent file system: the lemmas follow the steps of \<open>create\<close>,
  each with what it adds and what it leaves alone.
\<close>

subsection \<open>Steps\<close>

text \<open>The content of inodes that do not exist is gone too.\<close>

definition no_orphans :: "encrypted_fs \<Rightarrow> bool" where
  "no_orphans s \<longleftrightarrow> (\<forall>i. \<not> ino_exists s i \<longrightarrow> st_contents (f_store s) i = None)"

text \<open>\<open>only_contents s s'\<close>: only directory contents and the generator differ.\<close>

definition only_contents :: "encrypted_fs \<Rightarrow> encrypted_fs \<Rightarrow> bool" where
  "only_contents s s' \<longleftrightarrow> st_inodes (f_store s') = st_inodes (f_store s) \<and> f_key s' = f_key s \<and> f_attr_cache s' = f_attr_cache s
     \<and> handle_view s' = handle_view s \<and> f_time s' = f_time s"

lemma only_contents_trans: "only_contents s s' \<Longrightarrow> only_contents s' s'' \<Longrightarrow> only_contents s s''"
  by (simp add: only_contents_def)

lemma only_contentsD:
  assumes "only_contents s s'"
  shows "inodes_ok V s' = inodes_ok V s" "stored_attr V s' = stored_attr V s" "ino_exists s' = ino_exists s"
    "handle_view s' = handle_view s" "f_time s' = f_time s" "f_key s' = f_key s"
  using assms inodes_ok_cong [of s' s] by (auto simp: only_contents_def)

lemma insert_entry_frame:
  assumes V: "fs_env_ok V" "inodes_ok V s" and dir: "is_dir s dir"
  obtains s' enc where "insert_directory_entry V dir \<lparr>de_ino = i, de_name = name, de_kind = k\<rparr> s = (Inr (), s')" "only_contents s s'"
    "dir_lookup V s' dir (hash_file_name (v_crypto V) name) = Some (i, k, enc)"
    "\<forall>d m. (d, m) \<noteq> (dir, hash_file_name (v_crypto V) name) \<longrightarrow> dir_lookup V s' d m = dir_lookup V s d m"
    "is_dir s' = is_dir s" "st_objs (f_store s') = st_objs (f_store s)"
    "\<forall>i. \<not> is_dir s i \<longrightarrow> st_contents (f_store s') i = st_contents (f_store s) i"
    "\<forall>i. i \<noteq> dir \<longrightarrow> st_contents (f_store s') i = st_contents (f_store s) i"
    "has_entry V s' dir (hash_file_name (v_crypto V) name) i k"
    "\<forall>d m. (d, m) \<noteq> (dir, hash_file_name (v_crypto V) name) \<longrightarrow> hash_of (f_store s') d m = hash_of (f_store s) d m"
proof -
  have k: "key_ok V (f_key s)" using V(2) by (simp add: inodes_ok_def)
  obtain s' where s': "insert_directory_entry V dir \<lparr>de_ino = i, de_name = name, de_kind = k\<rparr> s = (Inr (), s')"
    "has_entry V s' dir (hash_file_name (v_crypto V) name) i k"
    "\<forall>d m. (d, m) \<noteq> (dir, hash_file_name (v_crypto V) name) \<longrightarrow> dir_lookup V s' d m = dir_lookup V s d m"
    "st_is_dir (f_store s') = st_is_dir (f_store s)"
    "s' = s\<lparr>f_rng := f_rng s + 3, f_store := (f_store s)\<lparr>st_contents := st_contents (f_store s')\<rparr>\<rparr>"
    "\<forall>i. \<not> st_is_dir (f_store s) i \<longrightarrow> st_contents (f_store s') i = st_contents (f_store s) i"
    "\<forall>i. i \<noteq> dir \<longrightarrow> st_contents (f_store s') i = st_contents (f_store s) i"
    "\<forall>d m. (d, m) \<noteq> (dir, hash_file_name (v_crypto V) name) \<longrightarrow> hash_of (f_store s') d m = hash_of (f_store s) d m"
    by (rule insert_entry_has [OF V(1) k dir, of "\<lparr>de_ino = i, de_name = name, de_kind = k\<rparr>", unfolded directory_entry.select_convs])
       (rule that; assumption)
  obtain r c where f: "s' = s\<lparr>f_rng := r, f_store := (f_store s)\<lparr>st_contents := c\<rparr>\<rparr>" using s'(5) by blast
  then have "only_contents s s'" "st_objs (f_store s') = st_objs (f_store s)" by (simp_all add: only_contents_def handle_view_def)
  moreover have "is_dir s' = is_dir s" using s'(4) by (simp add: is_dir_store fun_eq_iff)
  moreover obtain enc where "dir_lookup V s' dir (hash_file_name (v_crypto V) name) = Some (i, k, enc)"
    using s'(2) by (auto simp: has_entry_def)
  ultimately show thesis using that s'(1,2,3,6,7,8) by (simp add: is_dir_store)
qed

definition new_content :: "fs_env \<Rightarrow> nat \<Rightarrow> nat \<Rightarrow> file_type \<Rightarrow> encrypted_fs \<Rightarrow> bool" where
  "new_content V parent ino k s \<longleftrightarrow> (case k of
     RegularFile \<Rightarrow> (\<exists>obj. st_contents (f_store s) ino = Some (CFile obj) \<and> st_objs (f_store s) obj = [])
   | Directory \<Rightarrow> is_dir s ino \<and> (\<exists>e. dir_lookup V s ino ''$.'' = Some (ino, Directory, e))
       \<and> (\<exists>e. dir_lookup V s ino ''$..'' = Some (parent, Directory, e))
       \<and> (\<exists>l h. st_contents (f_store s) ino = Some (CDir l h) \<and> length l = 2))"

lemma new_file_content:
  assumes "st_contents (f_store s) ino = None"
  obtains s' where "create_content_file ino s = (Inr (), s')" "only_contents s s'" "new_content V parent ino RegularFile s'"
    "\<forall>d. d \<noteq> ino \<longrightarrow> st_contents (f_store s') d = st_contents (f_store s) d"
  using assms that by (simp add: create_content_file_def only_contents_def handle_view_def new_content_def)

lemma dir_lookup_contents:
  "st_contents (f_store s') d = st_contents (f_store s) d \<Longrightarrow> f_key s' = f_key s \<Longrightarrow> dir_lookup V s' d = dir_lookup V s d"
  by (simp add: dir_lookup_def hash_of_def fun_eq_iff cong: option.case_cong)

text \<open>The directory's own entries are listed under their plain names.\<close>

lemma insert_own_entry:
  assumes "name = ''$.'' \<or> name = ''$..''" "st_contents (f_store s) dir = Some (CDir l h)"
    and "insert_directory_entry V dir \<lparr>de_ino = i, de_name = name, de_kind = k\<rparr> s = (Inr (), s')"
  shows "\<exists>ct h'. st_contents (f_store s') dir = Some (CDir (AList.update name ct l) h')"
proof -
  have enc: "encrypt_file_name K seed name c key = Inr name" for K seed c key using assms(1) by (simp add: encrypt_file_name_def)
  have keep: "f_store (state_of (save_meta V d t)) = f_store t" for d t
    by (simp add: save_meta_def create_rng_def lift_err_def bnd_def split: sum.split)
  let ?s1 = "s\<lparr>f_rng := Suc (f_rng s)\<rparr>"
  obtain r1 s2 where m1: "save_meta V (v_ser_entry V (i, k)) ?s1 = (r1, s2)" by fastforce
  have c2: "st_contents (f_store s2) dir = Some (CDir l h)" using keep [of "v_ser_entry V (i, k)" ?s1] m1 assms(2) by simp
  show ?thesis
  proof (cases r1)
    case (Inl e)
    with m1 enc assms(3) show ?thesis
      by (auto simp: insert_directory_entry_def create_rng_def lift_err_def attempt_def bnd_def split: prod.splits sum.splits)
  next
    case (Inr ct)
    let ?s3 = "s2\<lparr>f_store := (f_store s2)\<lparr>st_contents := (st_contents (f_store s2))(dir \<mapsto> CDir (AList.update name ct l) h)\<rparr>\<rparr>"
    obtain r2 s4 where m2: "save_meta V (v_ser_hash V (i, k, name)) ?s3 = (r2, s4)" by fastforce
    have c4: "st_contents (f_store s4) dir = Some (CDir (AList.update name ct l) h)" using keep [of "v_ser_hash V (i, k, name)" ?s3] m2 by simp
    have "bnd (save_meta V (v_ser_entry V (i, k))) (put_ls dir name) ?s1 = (Inr (), ?s3)" using m1 Inr c2 by (simp add: put_ls_def)
    then have ls: "attempt (bnd (save_meta V (v_ser_entry V (i, k))) (put_ls dir name)) ?s1 = (Inr (Inr ()) :: fs_error + (fs_error + unit), ?s3)"
      by (simp add: attempt_def)
    have run: "bnd (bnd (save_meta V (v_ser_hash V (i, k, name))) (put_hash dir (hash_file_name (v_crypto V) name))) (\<lambda>_. lift (Inr ())) ?s3 = (Inr (), s')"
      using assms(3) ls enc by (simp add: insert_directory_entry_def create_rng_def lift_err_def)
    show ?thesis
    proof (cases r2)
      case Inl
      with m2 run show ?thesis by (simp add: bnd_def)
    next
      case (Inr ct2)
      with m2 run c4 show ?thesis by (auto simp: put_hash_def)
    qed
  qed
qed

lemma new_dir_content:
  assumes V: "fs_env_ok V" "inodes_ok V s" and c: "st_contents (f_store s) ino = None"
  obtains s' where "bnd (create_content_dir ino) (\<lambda>_.
       bnd (insert_directory_entry V ino \<lparr>de_ino = ino, de_name = ''$.'', de_kind = Directory\<rparr>) (\<lambda>_.
       insert_directory_entry V ino \<lparr>de_ino = parent, de_name = ''$..'', de_kind = Directory\<rparr>)) s = (Inr (), s')"
    "only_contents s s'" "new_content V parent ino Directory s'"
    "\<forall>d. d \<noteq> ino \<longrightarrow> dir_lookup V s' d = dir_lookup V s d" "\<forall>d. d \<noteq> ino \<longrightarrow> is_dir s' d = is_dir s d"
    "\<forall>d. d \<noteq> ino \<longrightarrow> hash_of (f_store s') d = hash_of (f_store s) d"
proof -
  have h: "hash_file_name (v_crypto V) ''$.'' = ''$.''" "hash_file_name (v_crypto V) ''$..'' = ''$..''"
    by (simp_all add: hash_file_name_def)
  let ?s1 = "s\<lparr>f_store := (f_store s)\<lparr>st_contents := (st_contents (f_store s))(ino \<mapsto> CDir [] [])\<rparr>\<rparr>"
  have o1: "only_contents s ?s1" by (simp add: only_contents_def handle_view_def)
  have d1: "is_dir ?s1 ino" by (simp add: is_dir_def)
  have V1: "inodes_ok V ?s1" using V(2) only_contentsD(1) [OF o1] by simp
  obtain s2 e1 where s2: "insert_directory_entry V ino \<lparr>de_ino = ino, de_name = ''$.'', de_kind = Directory\<rparr> ?s1 = (Inr (), s2)"
    "only_contents ?s1 s2" "dir_lookup V s2 ino ''$.'' = Some (ino, Directory, e1)"
    "\<forall>d m. (d, m) \<noteq> (ino, ''$.'') \<longrightarrow> dir_lookup V s2 d m = dir_lookup V ?s1 d m" "is_dir s2 = is_dir ?s1"
    "\<forall>d m. (d, m) \<noteq> (ino, ''$.'') \<longrightarrow> hash_of (f_store s2) d m = hash_of (f_store ?s1) d m"
    by (rule insert_entry_frame [OF V(1) V1 d1, unfolded h, where name = "''$.''" and i = ino and k = Directory, unfolded h])
       (rule that; assumption)
  have V2: "inodes_ok V s2" using V1 only_contentsD(1) [OF s2(2)] by simp
  have d2: "is_dir s2 ino" using s2(5) d1 by simp
  obtain s3 e2 where s3: "insert_directory_entry V ino \<lparr>de_ino = parent, de_name = ''$..'', de_kind = Directory\<rparr> s2 = (Inr (), s3)"
    "only_contents s2 s3" "dir_lookup V s3 ino ''$..'' = Some (parent, Directory, e2)"
    "\<forall>d m. (d, m) \<noteq> (ino, ''$..'') \<longrightarrow> dir_lookup V s3 d m = dir_lookup V s2 d m" "is_dir s3 = is_dir s2"
    "\<forall>d m. (d, m) \<noteq> (ino, ''$..'') \<longrightarrow> hash_of (f_store s3) d m = hash_of (f_store s2) d m"
    by (rule insert_entry_frame [OF V(1) V2 d2, unfolded h, where name = "''$..''" and i = parent and k = Directory, unfolded h])
       (rule that; assumption)
  show thesis
  proof (rule that)
    show "bnd (create_content_dir ino) (\<lambda>_.
       bnd (insert_directory_entry V ino \<lparr>de_ino = ino, de_name = ''$.'', de_kind = Directory\<rparr>) (\<lambda>_.
       insert_directory_entry V ino \<lparr>de_ino = parent, de_name = ''$..'', de_kind = Directory\<rparr>)) s = (Inr (), s3)"
      using c s2(1) s3(1) by (simp add: create_content_dir_def)
    show "only_contents s s3" using o1 s2(2) s3(2) only_contents_trans by blast
    have "dir_lookup V s3 ino ''$.'' = Some (ino, Directory, e1)" using s2(3) s3(4) by simp
    moreover obtain ct1 ct2 h2 h3 where "st_contents (f_store s2) ino = Some (CDir (AList.update ''$.'' ct1 []) h2)"
      "st_contents (f_store s3) ino = Some (CDir (AList.update ''$..'' ct2 (AList.update ''$.'' ct1 [])) h3)"
      using insert_own_entry [OF _ _ s2(1), of "[]" "[]"] insert_own_entry [OF _ _ s3(1)] by fastforce
    ultimately show "new_content V parent ino Directory s3" using s3(3,5) d2 by (simp add: new_content_def)
    show "\<forall>d. d \<noteq> ino \<longrightarrow> is_dir s3 d = is_dir s d" using s2(5) s3(5) by (simp add: is_dir_def)
    show "\<forall>d. d \<noteq> ino \<longrightarrow> hash_of (f_store s3) d = hash_of (f_store s) d"
      using s2(6) s3(6) by (auto simp: fun_eq_iff hash_of_def [of "_\<lparr>st_contents := _\<rparr>"] hash_of_def [of "f_store s"])
    have "dir_lookup V s3 d m = dir_lookup V s d m" if "d \<noteq> ino" for d m
      using that s2(4) s3(4) dir_lookup_contents [of ?s1 d s V] by simp
    then show "\<forall>d. d \<noteq> ino \<longrightarrow> dir_lookup V s3 d = dir_lookup V s d" by (simp add: fun_eq_iff)
  qed
qed


lemma new_node_content:
  assumes V: "fs_env_ok V" "inodes_ok V s" and c: "st_contents (f_store s) ino = None"
  obtains s' where "(case k of RegularFile \<Rightarrow> create_content_file ino
       | Directory \<Rightarrow> bnd (create_content_dir ino) (\<lambda>_.
           bnd (insert_directory_entry V ino \<lparr>de_ino = ino, de_name = ''$.'', de_kind = Directory\<rparr>) (\<lambda>_.
           insert_directory_entry V ino \<lparr>de_ino = parent, de_name = ''$..'', de_kind = Directory\<rparr>))) s = (Inr (), s')"
    "only_contents s s'" "new_content V parent ino k s'"
    "\<forall>d. d \<noteq> ino \<longrightarrow> dir_lookup V s' d = dir_lookup V s d" "\<forall>d. d \<noteq> ino \<longrightarrow> is_dir s' d = is_dir s d"
    "\<forall>d. d \<noteq> ino \<longrightarrow> hash_of (f_store s') d = hash_of (f_store s) d"
proof (cases k)
  case Directory
  show thesis by (rule new_dir_content [OF assms, of parent]) (rule that; simp add: Directory)
next
  case RegularFile
  obtain s' where s': "create_content_file ino s = (Inr (), s')" "only_contents s s'" "new_content V parent ino RegularFile s'"
    "\<forall>d. d \<noteq> ino \<longrightarrow> st_contents (f_store s') d = st_contents (f_store s) d"
    using new_file_content [OF c] by blast
  have "\<forall>d. d \<noteq> ino \<longrightarrow> dir_lookup V s' d = dir_lookup V s d"
    using s'(4) dir_lookup_contents [OF _ only_contentsD(6) [OF s'(2)]] by blast
  moreover have "\<forall>d. d \<noteq> ino \<longrightarrow> is_dir s' d = is_dir s d" using s'(4) by (simp add: is_dir_def)
  moreover have "\<forall>d. d \<noteq> ino \<longrightarrow> hash_of (f_store s') d = hash_of (f_store s) d"
    using s'(4) by (simp add: hash_of_def fun_eq_iff cong: option.case_cong)
  ultimately show thesis using that [of s'] s'(1-3) RegularFile by simp
qed

lemma touch_dir_ok:
  assumes V: "fs_env_ok V" "inodes_ok V s" and p: "stored_attr V s dir = Some a"
  obtains s' where "touch_dir V dir s = (Inr (), s')" "inodes_ok V s'" "same_but_meta s s'" "ino_exists s' = ino_exists s"
    "\<forall>i. i \<noteq> dir \<longrightarrow> stored_attr V s' i = stored_attr V s i" "\<forall>i. i \<noteq> dir \<longrightarrow> f_attr_cache s' i = f_attr_cache s i"
proof -
  let ?s = "s\<lparr>f_time := Suc (f_time s)\<rparr>"
  have i: "inodes_ok V ?s" "stored_attr V ?s dir = Some a" using V(2) p by (simp_all add: inodes_ok_def attr_cache_ok_def)
  define sa where "sa = with_atime (f_time s) (with_ctime (f_time s) (with_mtime (f_time s) set_attr_default))"
  obtain s' where s': "set_attr2 V dir sa False ?s = (Inr (), s')" "inodes_ok V s'" "same_but_meta ?s s'" "ino_exists s' = ino_exists ?s"
    "stored_attr V s' = (stored_attr V ?s)(dir \<mapsto> (merge_attr (merge_open_handles ?s dir a) sa False)\<lparr>a_ctime := f_time ?s, a_atime := f_time ?s\<rparr>)"
    "\<forall>i. i \<noteq> dir \<longrightarrow> f_attr_cache s' i = f_attr_cache ?s i"
    by (rule set_attr2_ok [OF V(1) i]) (rule that; assumption)
  have "same_but_meta s ?s" by (simp add: same_but_meta_def)
  with s'(3) have "same_but_meta s s'" using same_but_meta_trans by blast
  with that s' show thesis by (simp add: touch_dir_def system_time_now_def set_attr_def sa_def)
qed

lemma handle_view_meta: "same_but_meta s s' \<Longrightarrow> handle_view s' = handle_view s"
  by (simp add: handle_view_def same_but_metaD)

lemma new_content_cong:
  "st_contents (f_store s') = st_contents (f_store s) \<Longrightarrow> st_objs (f_store s') = st_objs (f_store s) \<Longrightarrow> f_key s' = f_key s
    \<Longrightarrow> new_content V p i k s' = new_content V p i k s"
  using dir_lookup_cong [of s' s V] by (simp add: new_content_def is_dir_def split: file_type.split)

lemma new_content_insert:
  assumes "new_content V p ino k s" "d \<noteq> ino" "\<forall>d' m. (d', m) \<noteq> (d, n) \<longrightarrow> dir_lookup V s' d' m = dir_lookup V s d' m" "is_dir s' = is_dir s"
    "st_objs (f_store s') = st_objs (f_store s)" "\<forall>i. \<not> is_dir s i \<longrightarrow> st_contents (f_store s') i = st_contents (f_store s) i"
    "\<forall>i. i \<noteq> d \<longrightarrow> st_contents (f_store s') i = st_contents (f_store s) i"
  shows "new_content V p ino k s'"
proof (cases k)
  case Directory
  with assms show ?thesis by (simp add: new_content_def)
next
  case RegularFile
  then obtain obj where o: "st_contents (f_store s) ino = Some (CFile obj)" "st_objs (f_store s) obj = []"
    using assms(1) by (auto simp: new_content_def)
  then have "\<not> is_dir s ino" by (simp add: is_dir_def)
  with o assms(5,6) RegularFile show ?thesis by (simp add: new_content_def)
qed

subsection \<open>Create\<close>

lemma create_ok:
  assumes V: "fs_env_ok V" "inodes_ok V s" and p: "ino_exists s parent" "is_dir s parent"
    and name: "name \<noteq> ''.''" "name \<noteq> ''..''" "hash_of (f_store s) parent (hash_file_name (v_crypto V) name) = None"
    and fresh: "no_orphans s" "\<exists>k < v_fuel V. fresh_ino s (v_rand V (f_rng s + k))"
  obtains ino s' enc where
    "create V parent name ca False False s = (Inr (0, (file_attr_of_create (f_time s) ca)\<lparr>a_ino := ino\<rparr>), s')"
    "fresh_ino s ino" "inodes_ok V s'" "handle_view s' = handle_view s" "is_dir s' parent" "ino_exists s' = (ino_exists s)(ino := True)"
    "stored_attr V s' ino = Some ((file_attr_of_create (f_time s) ca)\<lparr>a_ino := ino\<rparr>)"
    "dir_lookup V s' parent (hash_file_name (v_crypto V) name) = Some (ino, c_kind ca, enc)"
    "\<forall>d m. d \<noteq> ino \<longrightarrow> (d, m) \<noteq> (parent, hash_file_name (v_crypto V) name) \<longrightarrow> dir_lookup V s' d m = dir_lookup V s d m"
    "new_content V parent ino (c_kind ca) s'" "has_entry V s' parent (hash_file_name (v_crypto V) name) ino (c_kind ca)"
    "\<forall>m. m \<noteq> hash_file_name (v_crypto V) name \<longrightarrow> hash_of (f_store s') parent m = hash_of (f_store s) parent m"
proof -
  let ?s1 = "s\<lparr>f_time := Suc (f_time s)\<rparr>"
  have "\<exists>k < v_fuel V. fresh_ino ?s1 (v_rand V (f_rng ?s1 + k))" using fresh(2) by (simp add: fresh_ino_def)
  then obtain k where k: "generate_next_inode V ?s1 = (Inr (v_rand V (f_rng s + k)), ?s1\<lparr>f_rng := f_rng s + k + 1\<rparr>)"
    "fresh_ino s (v_rand V (f_rng s + k))"
    using find_free_inode_ok [of "v_fuel V" ?s1 V] by (auto simp: generate_next_inode_def fresh_ino_def)
  define ino where "ino = v_rand V (f_rng s + k)"
  define s2 where "s2 = ?s1\<lparr>f_rng := f_rng s + k + 1\<rparr>"
  have gen: "generate_next_inode V ?s1 = (Inr ino, s2)" using k(1) by (simp add: ino_def s2_def)
  define a where "a = (file_attr_of_create (f_time s) ca)\<lparr>a_ino := ino\<rparr>"
  have a: "a_ino a = ino" "a_kind a = c_kind ca" by (simp_all add: a_def file_attr_of_create_def)
  have ne: "parent \<noteq> ino" "\<not> ino_exists s ino" using k(2) p(1) by (auto simp: fresh_ino_def ino_def)
  have i2: "inodes_ok V s2" "stored_attr V s2 = stored_attr V s" using V(2) by (simp_all add: s2_def inodes_ok_def attr_cache_ok_def)
  have m2: "same_but_meta s s2" by (simp add: s2_def same_but_meta_def)
  obtain s3 where s3: "write_inode_to_storage V a s2 = (Inr (), s3)" "inodes_ok V s3" "stored_attr V s3 = (stored_attr V s)(ino \<mapsto> a)"
    "same_but_meta s2 s3" by (rule write_inode_ok [OF V(1) i2(1), of a, unfolded i2(2) a]) (rule that; assumption)
  note m3 = same_but_meta_trans [OF m2 s3(4)]
  have c3: "st_contents (f_store s3) ino = None" using ne(2) fresh(1) same_but_metaD(1) [OF m3] by (simp add: no_orphans_def)
  obtain s4 where s4: "(case c_kind ca of RegularFile \<Rightarrow> create_content_file ino
       | Directory \<Rightarrow> bnd (create_content_dir ino) (\<lambda>_.
           bnd (insert_directory_entry V ino \<lparr>de_ino = ino, de_name = ''$.'', de_kind = Directory\<rparr>) (\<lambda>_.
           insert_directory_entry V ino \<lparr>de_ino = parent, de_name = ''$..'', de_kind = Directory\<rparr>))) s3 = (Inr (), s4)"
    "only_contents s3 s4" "new_content V parent ino (c_kind ca) s4"
    "\<forall>d. d \<noteq> ino \<longrightarrow> dir_lookup V s4 d = dir_lookup V s3 d" "\<forall>d. d \<noteq> ino \<longrightarrow> is_dir s4 d = is_dir s3 d"
    "\<forall>d. d \<noteq> ino \<longrightarrow> hash_of (f_store s4) d = hash_of (f_store s3) d"
    by (rule new_node_content [OF V(1) s3(2) c3, where k = "c_kind ca" and parent = parent]) (rule that; assumption)
  have i4: "inodes_ok V s4" using s3(2) only_contentsD(1) [OF s4(2)] by simp
  have d4: "is_dir s4 parent" using s4(5) ne(1) p(2) same_but_meta_is(1) [OF m3] by simp
  obtain s5 enc where s5: "insert_directory_entry V parent \<lparr>de_ino = ino, de_name = name, de_kind = c_kind ca\<rparr> s4 = (Inr (), s5)"
    "only_contents s4 s5" "dir_lookup V s5 parent (hash_file_name (v_crypto V) name) = Some (ino, c_kind ca, enc)"
    "\<forall>d m. (d, m) \<noteq> (parent, hash_file_name (v_crypto V) name) \<longrightarrow> dir_lookup V s5 d m = dir_lookup V s4 d m"
    "is_dir s5 = is_dir s4" "st_objs (f_store s5) = st_objs (f_store s4)"
    "\<forall>i. \<not> is_dir s4 i \<longrightarrow> st_contents (f_store s5) i = st_contents (f_store s4) i"
    "\<forall>i. i \<noteq> parent \<longrightarrow> st_contents (f_store s5) i = st_contents (f_store s4) i"
    "has_entry V s5 parent (hash_file_name (v_crypto V) name) ino (c_kind ca)"
    "\<forall>d m. (d, m) \<noteq> (parent, hash_file_name (v_crypto V) name) \<longrightarrow> hash_of (f_store s5) d m = hash_of (f_store s4) d m"
    by (rule insert_entry_frame [OF V(1) i4 d4]) (rule that; assumption)
  have n5: "new_content V parent ino (c_kind ca) s5" by (rule new_content_insert [OF s4(3) ne(1) s5(4-8)])
  have i5: "inodes_ok V s5" using i4 only_contentsD(1) [OF s5(2)] by simp
  have st5: "stored_attr V s5 = (stored_attr V s)(ino \<mapsto> a)" using s3(3) only_contentsD(2) [OF s4(2)] only_contentsD(2) [OF s5(2)] by simp
  obtain pa where pa: "stored_attr V s parent = Some pa" using V(2) p(1) by (auto simp: inodes_ok_def)
  then have p5: "stored_attr V s5 parent = Some pa" using st5 ne(1) by simp
  obtain s6 where s6: "touch_dir V parent s5 = (Inr (), s6)" "inodes_ok V s6" "same_but_meta s5 s6" "ino_exists s6 = ino_exists s5"
    "\<forall>i. i \<noteq> parent \<longrightarrow> stored_attr V s6 i = stored_attr V s5 i" by (rule touch_dir_ok [OF V(1) i5 p5]) (rule that; assumption)
  show thesis
  proof (rule that [of ino s6 enc, folded a_def])
    have "exists_by_name V parent name s = (Inr False, s)" using exists_by_name_eq [OF p] name(3) by simp
    moreover have kind: "a_kind (file_attr_of_create (f_time s) ca) = c_kind ca" by (simp add: file_attr_of_create_def)
    ultimately show "create V parent name ca False False s = (Inr (0, a), s6)"
      using name(1,2) p(1) gen s3(1) [unfolded a_def] s4(1) s5(1) s6(1) kind
      by (simp add: create_def system_time_now_def Let_def a_def)
    show "fresh_ino s ino" using k(2) by (simp add: ino_def)
    show "inodes_ok V s6" by (rule s6(2))
    show "handle_view s6 = handle_view s"
      using handle_view_meta [OF s6(3)] only_contentsD(4) [OF s5(2)] only_contentsD(4) [OF s4(2)] handle_view_meta [OF m3] by simp
    show "is_dir s6 parent" using d4 s5(5) same_but_meta_is(1) [OF s6(3)] by simp
    have ex: "ino_exists t i \<longleftrightarrow> stored_attr V t i \<noteq> None" if "inodes_ok V t" for t i
      using that stored_attr_exists [of V t i] by (auto simp: inodes_ok_def)
    show "ino_exists s6 = (ino_exists s)(ino := True)"
      using ex [OF i5] ex [OF V(2)] st5 s6(4) by (auto simp: fun_eq_iff)
    show "stored_attr V s6 ino = Some a" using s6(5) st5 ne(1) by simp
    have look: "dir_lookup V s6 = dir_lookup V s5" using dir_lookup_cong same_but_metaD(1,3) [OF s6(3)] by blast
    then show "dir_lookup V s6 parent (hash_file_name (v_crypto V) name) = Some (ino, c_kind ca, enc)" using s5(3) by simp
    have "dir_lookup V s3 = dir_lookup V s" using dir_lookup_cong same_but_metaD(1,3) [OF m3] by blast
    with look s5(4) s4(4) show "\<forall>d m. d \<noteq> ino \<longrightarrow> (d, m) \<noteq> (parent, hash_file_name (v_crypto V) name) \<longrightarrow> dir_lookup V s6 d m = dir_lookup V s d m"
      by simp
    have h: "hash_of (f_store s6) = hash_of (f_store s5)" "hash_of (f_store s3) = hash_of (f_store s)"
      using same_but_metaD(1) [OF s6(3)] same_but_metaD(1) [OF m3] by (simp_all add: hash_of_def fun_eq_iff)
    then show "\<forall>m. m \<noteq> hash_file_name (v_crypto V) name \<longrightarrow> hash_of (f_store s6) parent m = hash_of (f_store s) parent m"
      using s5(10) s4(6) ne(1) by simp
    show "has_entry V s6 parent (hash_file_name (v_crypto V) name) ino (c_kind ca)"
      using s5(9) has_entry_cong [OF same_but_metaD(1,3) [OF s6(3)]] by simp
    show "new_content V parent ino (c_kind ca) s6" using n5 new_content_cong same_but_metaD(1,2,3) [OF s6(3)] by blast
  qed
qed

end
