(* ===== verification/Fs_Handles.thy ===== *)
theory Fs_Handles
  imports Fs_Create Crypto_Stream
begin

text \<open>
  What an open handle stands for. A read handle stands for the plaintext of the content it reads and
  a position (\<open>reader_at\<close>); a write handle for the plaintext it would leave behind and a position
  (\<open>writer_at\<close>). A file may have one writer and several readers (\<open>shared\<close>). The operations on the
  handles are steps between such descriptions.
\<close>

subsection \<open>Descriptions\<close>

definition reader_at :: "fs_env \<Rightarrow> encrypted_fs \<Rightarrow> nat \<Rightarrow> nat \<Rightarrow> bytes \<Rightarrow> nat \<Rightarrow> bool" where
  "reader_at V s r ino pt p \<longleftrightarrow> (\<exists>ctx rd. f_read_handles s r = Some ctx \<and> rc_ino ctx = ino \<and> rc_reader ctx = Some rd
     \<and> st_contents (f_store s) ino = Some (CFile (rc_obj ctx)) \<and> r_good (v_aead V) (st_objs (f_store s) (rc_obj ctx)) pt rd \<and> r_pos rd = p
     \<and> enc_file (v_aead V) (f_key s) (st_objs (f_store s) (rc_obj ctx)) pt)"

definition writer_at :: "fs_env \<Rightarrow> encrypted_fs \<Rightarrow> nat \<Rightarrow> nat \<Rightarrow> bytes \<Rightarrow> nat \<Rightarrow> nat \<Rightarrow> bool" where
  "writer_at V s h ino pt p sz \<longleftrightarrow> (\<exists>ctx w. f_write_handles s h = Some ctx \<and> wc_ino ctx = ino \<and> wc_writer ctx = Some w
     \<and> t_size (wc_attr ctx) = sz \<and> ws_rel (v_aead V) (f_key s) w pt p
     \<and> w_refresh (st_objs (f_store s) (wc_obj ctx)) w = w \<and> st_contents (f_store s) ino = Some (CFile (wc_obj ctx)))"

definition readers_of :: "encrypted_fs \<Rightarrow> nat \<Rightarrow> nat list" where
  "readers_of s ino = (case f_opened_read s ino of None \<Rightarrow> [] | Some l \<Rightarrow> l)"

definition shared :: "fs_env \<Rightarrow> encrypted_fs \<Rightarrow> nat \<Rightarrow> nat \<Rightarrow> bytes \<Rightarrow> nat \<Rightarrow> nat \<Rightarrow> nat list \<Rightarrow> bool" where
  "shared V s h ino pt p sz l \<longleftrightarrow> writer_at V s h ino pt p sz
     \<and> inodes_ok V s \<and> handles_ok s \<and> f_opened_write s ino = Some h \<and> f_read_handles s h = None
     \<and> (\<exists>a. stored_attr V s ino = Some a \<and> a_size a \<le> sz)
     \<and> readers_of s ino = l \<and> (\<forall>r \<in> set l. f_write_handles s r = None \<and> (\<exists>c. f_read_handles s r = Some c \<and> rc_ino c = ino))"

text \<open>A file nobody is writing, and its readers.\<close>

definition idle :: "fs_env \<Rightarrow> encrypted_fs \<Rightarrow> nat \<Rightarrow> bytes \<Rightarrow> nat \<Rightarrow> nat list \<Rightarrow> bool" where
  "idle V s ino pt sz l \<longleftrightarrow> inodes_ok V s \<and> handles_ok s \<and> f_opened_write s ino = None
     \<and> (\<exists>obj. st_contents (f_store s) ino = Some (CFile obj) \<and> enc_file (v_aead V) (f_key s) (st_objs (f_store s) obj) pt)
     \<and> (\<exists>a. stored_attr V s ino = Some a \<and> a_size a = sz)
     \<and> readers_of s ino = l \<and> (\<forall>r \<in> set l. f_write_handles s r = None \<and> (\<exists>c. f_read_handles s r = Some c \<and> rc_ino c = ino))"

lemma writer_atE:
  assumes "writer_at V s h ino pt p sz"
  obtains ctx w where "f_write_handles s h = Some ctx" "wc_ino ctx = ino" "wc_writer ctx = Some w" "t_size (wc_attr ctx) = sz"
    "ws_rel (v_aead V) (f_key s) w pt p" "w_refresh (st_objs (f_store s) (wc_obj ctx)) w = w"
    "st_contents (f_store s) ino = Some (CFile (wc_obj ctx))"
  using assms unfolding writer_at_def by blast

lemma reader_atE:
  assumes "reader_at V s r ino pt p"
  obtains ctx rd where "f_read_handles s r = Some ctx" "rc_ino ctx = ino" "rc_reader ctx = Some rd"
    "st_contents (f_store s) ino = Some (CFile (rc_obj ctx))" "r_good (v_aead V) (st_objs (f_store s) (rc_obj ctx)) pt rd" "r_pos rd = p"
    "enc_file (v_aead V) (f_key s) (st_objs (f_store s) (rc_obj ctx)) pt"
  using assms unfolding reader_at_def by blast

lemma reader_at_cong:
  "f_read_handles s' r = f_read_handles s r \<Longrightarrow> st_contents (f_store s') ino = st_contents (f_store s) ino
    \<Longrightarrow> st_objs (f_store s') = st_objs (f_store s) \<Longrightarrow> f_key s' = f_key s \<Longrightarrow> reader_at V s' r ino pt p = reader_at V s r ino pt p"
  by (simp add: reader_at_def)

lemma v_aead_ok: "fs_env_ok V \<Longrightarrow> aead_ok (v_aead V)"
  using fs_env_okD(1) by (auto simp: v_aead_def crypto_ok_def)

lemma key_len_ok: "inodes_ok V s \<Longrightarrow> length (f_key s) = e_key_len (v_aead V)"
  by (simp add: inodes_ok_def key_ok_def key_len_def v_aead_def)


subsection \<open>Readers\<close>

text \<open>A file whose encrypted length is a position the code can express; blocks larger than their overhead.\<close>

definition ct_fits :: "fs_env \<Rightarrow> bytes \<Rightarrow> bool" where
  "ct_fits V pt \<longleftrightarrow> overhead (v_aead V) \<le> e_block_size (v_aead V)
     \<and> length pt + overhead (v_aead V) * nblocks (e_block_size (v_aead V)) (length pt) < 2 ^ 63"

text \<open>\<open>only_reader r s s'\<close>: only the clock and the context of the read handle \<open>r\<close> differ, and it still belongs to the same inode.\<close>

definition only_reader :: "nat \<Rightarrow> encrypted_fs \<Rightarrow> encrypted_fs \<Rightarrow> bool" where
  "only_reader r s s' \<longleftrightarrow> (\<exists>t. s' = s\<lparr>f_time := t, f_read_handles := (f_read_handles s)(r := f_read_handles s' r)\<rparr>)
     \<and> map_option rc_ino (f_read_handles s' r) = map_option rc_ino (f_read_handles s r)"

lemma only_readerD:
  assumes "only_reader r s s'"
  shows "f_store s' = f_store s" "f_key s' = f_key s" "f_write_handles s' = f_write_handles s" "f_opened_read s' = f_opened_read s"
    "f_opened_write s' = f_opened_write s" "f_current_handle s' = f_current_handle s" "f_attr_cache s' = f_attr_cache s"
    "\<And>r'. r' \<noteq> r \<Longrightarrow> f_read_handles s' r' = f_read_handles s r'"
    "\<And>r'. map_option rc_ino (f_read_handles s' r') = map_option rc_ino (f_read_handles s r')"
proof -
  obtain t c where s': "s' = s\<lparr>f_time := t, f_read_handles := (f_read_handles s)(r := c)\<rparr>" and c: "map_option rc_ino c = map_option rc_ino (f_read_handles s r)"
    using assms unfolding only_reader_def by (metis fun_upd_same encrypted_fs.select_convs(3) encrypted_fs.simps)
  show "f_store s' = f_store s" "f_key s' = f_key s" "f_write_handles s' = f_write_handles s" "f_opened_read s' = f_opened_read s"
    "f_opened_write s' = f_opened_write s" "f_current_handle s' = f_current_handle s" "f_attr_cache s' = f_attr_cache s"
    "\<And>r'. r' \<noteq> r \<Longrightarrow> f_read_handles s' r' = f_read_handles s r'"
    "\<And>r'. map_option rc_ino (f_read_handles s' r') = map_option rc_ino (f_read_handles s r')"
    using c by (simp_all add: s')
qed


lemma only_reader_refl [simp]: "only_reader r s s"
  by (auto simp: only_reader_def intro: exI [of _ "f_time s"])

lemma only_readerI:
  "rc_ino c' = rc_ino c \<Longrightarrow> f_read_handles s r = Some c \<Longrightarrow> only_reader r s (s\<lparr>f_time := t, f_read_handles := (f_read_handles s)(r \<mapsto> c')\<rparr>)"
  by (auto simp: only_reader_def)

lemma only_reader_trans: "only_reader r s s1 \<Longrightarrow> only_reader r s1 s2 \<Longrightarrow> only_reader r s s2"
proof -
  assume "only_reader r s s1" "only_reader r s1 s2"
  then obtain t t' c c' where "s1 = s\<lparr>f_time := t, f_read_handles := (f_read_handles s)(r := c)\<rparr>" "s2 = s1\<lparr>f_time := t', f_read_handles := (f_read_handles s1)(r := c')\<rparr>"
    "map_option rc_ino c = map_option rc_ino (f_read_handles s r)" "map_option rc_ino c' = map_option rc_ino (f_read_handles s1 r)"
    unfolding only_reader_def by (metis fun_upd_same encrypted_fs.simps)
  then show ?thesis by (auto simp: only_reader_def)
qed

lemma r_refresh_good: "r_good E ct pt r \<Longrightarrow> r_refresh ct r = r"
  by (auto simp: r_good_def r_refresh_def elim!: r_invE)

lemma on_reader_step:
  assumes w: "reader_at V s h ino pt p"
    and m: "\<And>ct r. r_good (v_aead V) ct pt r \<Longrightarrow> r_pos r = p \<Longrightarrow> enc_file (v_aead V) (f_key s) ct pt \<Longrightarrow>
      \<exists>r'. m r = (Inr x, r') \<and> r_good (v_aead V) ct pt r' \<and> r_pos r' = p'"
  obtains s' where "on_reader h m s = (Inr x, s')" "reader_at V s' h ino pt p'" "only_reader h s s'"
proof -
  obtain ctx r where c: "f_read_handles s h = Some ctx" "rc_ino ctx = ino" "rc_reader ctx = Some r"
    "st_contents (f_store s) ino = Some (CFile (rc_obj ctx))" "r_good (v_aead V) (st_objs (f_store s) (rc_obj ctx)) pt r" "r_pos r = p"
    "enc_file (v_aead V) (f_key s) (st_objs (f_store s) (rc_obj ctx)) pt"
    using w by (rule reader_atE)
  obtain r' where r': "m r = (Inr x, r')" "r_good (v_aead V) (st_objs (f_store s) (rc_obj ctx)) pt r'" "r_pos r' = p'"
    using m [OF c(5,6,7)] by blast
  let ?s = "s\<lparr>f_read_handles := (f_read_handles s)(h \<mapsto> ctx\<lparr>rc_reader := Some r'\<rparr>)\<rparr>"
  have "reader_at V ?s h ino pt p'" using c r'(2,3) by (simp add: reader_at_def)
  moreover have "only_reader h s ?s" using only_readerI [of "ctx\<lparr>rc_reader := Some r'\<rparr>" ctx s h "f_time s"] c(1) by simp
  moreover have "on_reader h m s = (Inr x, ?s)"
    using c(1,3) r'(1) r_refresh_good [OF c(5)] by (simp add: on_reader_def io_result_def)
  ultimately show thesis using that by blast
qed

lemma read_seek_ok:
  assumes "ct_fits V pt" "off \<le> computed_len (v_aead V) pt"
    and "r_good (v_aead V) ct pt r" "enc_file (v_aead V) key ct pt" "pos = Start off \<or> pos = Current 0 \<and> r_pos r = off"
  shows "\<exists>r'. ring_read_seek (v_aead V) pos r = (Inr off, r') \<and> r_good (v_aead V) ct pt r' \<and> r_pos r' = off"
proof -
  have len: "length ct < 2 ^ 63" "overhead (v_aead V) \<le> e_block_size (v_aead V)" using assms(1,4) by (simp_all add: ct_fits_def enc_file_def)
  have "off \<le> length ct" using assms(2,4) computed_len_le [of "v_aead V" pt] by (simp add: enc_file_def)
  then have "seek_target (computed_len (v_aead V) pt) (r_pos r) pos = int off"
    using len(1) assms(5) by (auto simp: seek_target_def)
  with ring_read_seek_ok [OF assms(3) len, of pos] assms(2) show ?thesis by simp
qed

text \<open>A read through a handle returns the bytes at the offset and changes nothing but this handle.\<close>

lemma fs_read_at:
  assumes w: "reader_at V s h ino pt p" "ino_exists s ino" and fits: "ct_fits V pt"
    and n: "0 < n" "off \<le> computed_len (v_aead V) pt" "off + n \<le> length pt"
  obtains s' where "fs_read V ino off n h s = (Inr (take n (drop off pt)), s')" "reader_at V s' h ino pt (off + n)" "only_reader h s s'"
proof -
  let ?E = "v_aead V"
  obtain s1 where s1: "on_reader h (ring_read_seek ?E (Start off)) s = (Inr off, s1)" "reader_at V s1 h ino pt off" "only_reader h s s1"
    using on_reader_step [OF w(1), where m = "ring_read_seek ?E (Start off)"] read_seek_ok [OF fits n(2)] by metis
  obtain s2 where s2: "on_reader h (ring_read_seek ?E (Current 0)) s1 = (Inr off, s2)" "reader_at V s2 h ino pt off" "only_reader h s1 s2"
    using on_reader_step [OF s1(2), where m = "ring_read_seek ?E (Current 0)"] read_seek_ok [OF fits n(2)] by metis
  have rd: "\<exists>r'. su_read (ring_read ?E) n r = (Inr (take n (drop off pt)), r') \<and> r_good ?E ct pt r' \<and> r_pos r' = off + n"
    if "r_good ?E ct pt r" "r_pos r = off" for ct r
    using r_good_su_read [OF that(1) n(1)] that(2) n(3) by (metis diff_add_inverse diff_le_mono)
  obtain s3 where s3: "on_reader h (su_read (ring_read ?E) n) s2 = (Inr (take n (drop off pt)), s3)" "reader_at V s3 h ino pt (off + n)" "only_reader h s2 s3"
    using on_reader_step [OF s2(2), where m = "su_read (ring_read ?E) n"] rd by metis
  let ?g = "\<lambda>ctx. ctx\<lparr>rc_attr := (rc_attr ctx)\<lparr>t_atime := f_time s3\<rparr>\<rparr>"
  let ?s = "s3\<lparr>f_time := Suc (f_time s3), f_read_handles := (f_read_handles s3)(h := map_option ?g (f_read_handles s3 h))\<rparr>"
  obtain c3 where c3: "f_read_handles s3 h = Some c3" using s3(2) by (rule reader_atE)
  have new: "reader_at V ?s h ino pt (off + n)" using s3(2) by (auto simp: reader_at_def)
  have "only_reader h s3 ?s" using only_readerI [of "?g c3" c3 s3 h] c3 by simp
  then have only: "only_reader h s ?s" using s1(3) s2(3) s3(3) only_reader_trans by blast
  obtain ctx where ctx: "f_read_handles s h = Some ctx" "rc_ino ctx = ino" "is_file s ino" "\<not> is_dir s ino"
    using w(1) unfolding reader_at_def by (auto simp: is_file_def is_dir_def)
  have "fs_read V ino off n h s = (Inr (take n (drop off pt)), ?s)"
    using ctx w(2) n(1) s1(1) s2(1) s3(1)
    by (simp add: fs_read_def system_time_now_def upd_read_handles [of "\<lambda>m. m(h := map_option ?g (m h))"])
  with that new only show thesis by blast
qed

lemma fs_read_result:
  assumes "reader_at V s h ino pt p" "ino_exists s ino" "ct_fits V pt" "0 < n" "off \<le> computed_len (v_aead V) pt" "off + n \<le> length pt"
  shows "result_of (fs_read V ino off n h s) = Inr (take n (drop off pt))"
  by (rule fs_read_at [OF assms]) simp

lemma new_reader_ok:
  assumes V: "fs_env_ok V" "inodes_ok V s" and f: "enc_file (v_aead V) (f_key s) ct pt"
  obtains r where "create_read_seek (v_crypto V) (stream_of ct) (v_cipher V) (f_key s) = Inr r" "r_good (v_aead V) ct pt r" "r_pos r = 0"
proof -
  obtain r where r: "ring_crypto_read_new (v_aead V) (stream_of ct) (f_key s) = Inr r"
    using key_len_ok [OF V(2)] by (simp add: ring_crypto_read_new_def Let_def)
  have "r_pos r = 0" using r by (auto simp: ring_crypto_read_new_def Let_def r_pos_def split: if_splits)
  with that r r_good_new [OF v_aead_ok [OF V(1)] f r] show thesis by (simp add: create_read_seek_def v_aead_def)
qed

subsection \<open>Opening for reading\<close>

text \<open>The state with a further read handle, whose number is the next one.\<close>

definition with_reader :: "nat \<Rightarrow> read_ctx \<Rightarrow> encrypted_fs \<Rightarrow> encrypted_fs" where
  "with_reader ino c s = s\<lparr>f_current_handle := Suc (f_current_handle s), f_read_handles := (f_read_handles s)(f_current_handle s \<mapsto> c),
     f_opened_read := (f_opened_read s)(ino \<mapsto> List.insert (f_current_handle s) (readers_of s ino))\<rparr>"

lemma open_read_at:
  assumes V: "fs_env_ok V" and inv: "inodes_ok V s" "handles_ok s" and a: "stored_attr V s ino = Some a"
    and o: "st_contents (f_store s) ino = Some (CFile obj)" "enc_file (v_aead V) (f_key s) (st_objs (f_store s) obj) pt"
  obtains c where "rc_ino c = ino" "f_read_handles s (f_current_handle s) = None" "f_write_handles s (f_current_handle s) = None"
    "fs_open V ino True False s = (Inr (f_current_handle s), with_reader ino c s)"
    "reader_at V (with_reader ino c s) (f_current_handle s) ino pt 0" "handles_ok (with_reader ino c s)"
    "inodes_ok V (with_reader ino c s)" "stored_attr V (with_reader ino c s) = stored_attr V s"
proof -
  let ?h = "f_current_handle s" and ?s1 = "s\<lparr>f_current_handle := Suc (f_current_handle s)\<rparr>"
  have get: "get_inode_from_storage V ino ?s1 = (Inr a, ?s1)" by (rule get_inode_from_storage_eq) (simp add: a)
  obtain r where r: "create_read_seek (v_crypto V) (stream_of (st_objs (f_store s) obj)) (v_cipher V) (f_key s) = Inr r"
    "r_good (v_aead V) (st_objs (f_store s) obj) pt r" "r_pos r = 0" by (rule new_reader_ok [OF V inv(1) o(2)])
  define c where "c = \<lparr>rc_ino = ino, rc_attr = times_of_attr a, rc_reader = Some r, rc_obj = obj\<rparr>"
  let ?s = "with_reader ino c s"
  have "do_with_read_handle V ?h ino ?s1 = (Inr (), ?s)"
    using get o(1) r(1) by (simp add: do_with_read_handle_def open_content_def fs_create_read_seek_def lift_err_def readers_of_def with_reader_def c_def)
  then have op: "fs_open V ino True False s = (Inr ?h, ?s)"
    using o(1) by (simp add: fs_open_def open_for_read_def open_for_write_def next_handle_def is_dir_def)
  have "jinv V {} {} s" using V inv by (simp add: jinv_def hinv_empty)
  then have j: "handles_ok ?s" using presD [OF pres_fs_open op] by (simp add: jinv_def hinv_empty)
  have same: "inodes_ok V ?s = inodes_ok V s" "stored_attr V ?s = stored_attr V s"
    using inodes_ok_cong(1,2) [of ?s s V] by (simp_all add: with_reader_def)
  have "f_read_handles s ?h = None" using handles_okD(4) [OF inv(2), of ?h] by (cases "f_read_handles s ?h") auto
  moreover have "f_write_handles s ?h = None" using handles_okD(2) [OF inv(2), of ?h] by (cases "f_write_handles s ?h") auto
  moreover have "reader_at V ?s ?h ino pt 0" using o r(2,3) by (simp add: reader_at_def with_reader_def c_def)
  ultimately show thesis using that [of c] op j same inv(1) by (simp add: c_def)
qed


subsection \<open>Resetting readers\<close>

text \<open>\<open>same_but_readers s s'\<close>: attributes, caches, the clock and contexts of read handles may differ.\<close>

definition same_but_readers :: "encrypted_fs \<Rightarrow> encrypted_fs \<Rightarrow> bool" where
  "same_but_readers s s' \<longleftrightarrow> st_contents (f_store s') = st_contents (f_store s) \<and> st_objs (f_store s') = st_objs (f_store s)
     \<and> f_key s' = f_key s \<and> f_write_handles s' = f_write_handles s \<and> f_opened_read s' = f_opened_read s
     \<and> f_opened_write s' = f_opened_write s \<and> f_current_handle s' = f_current_handle s
     \<and> (\<forall>r. map_option rc_ino (f_read_handles s' r) = map_option rc_ino (f_read_handles s r))"

lemma only_reader_same: "only_reader r s s' \<Longrightarrow> same_but_readers s s'"
  by (simp add: same_but_readers_def only_readerD)

lemma same_but_readersD:
  assumes "same_but_readers s s'"
  shows "st_contents (f_store s') = st_contents (f_store s)" "st_objs (f_store s') = st_objs (f_store s)" "f_key s' = f_key s"
    "f_write_handles s' = f_write_handles s" "f_opened_read s' = f_opened_read s" "f_opened_write s' = f_opened_write s"
    "f_read_handles s' r = None \<longleftrightarrow> f_read_handles s r = None" "readers_of s' = readers_of s"
    "(\<exists>c. f_read_handles s' r = Some c \<and> rc_ino c = i) \<longleftrightarrow> (\<exists>c. f_read_handles s r = Some c \<and> rc_ino c = i)"
proof -
  have r: "map_option rc_ino (f_read_handles s' r) = map_option rc_ino (f_read_handles s r)" using assms by (simp add: same_but_readers_def)
  show "f_read_handles s' r = None \<longleftrightarrow> f_read_handles s r = None"
    "(\<exists>c. f_read_handles s' r = Some c \<and> rc_ino c = i) \<longleftrightarrow> (\<exists>c. f_read_handles s r = Some c \<and> rc_ino c = i)"
    using r by (cases "f_read_handles s r"; cases "f_read_handles s' r"; auto)+
qed (use assms in \<open>simp_all add: same_but_readers_def readers_of_def fun_eq_iff\<close>)

lemma same_but_readers_handles:
  assumes "same_but_readers s s'" "handles_ok s"
  shows "handles_ok s'"
proof -
  have "(\<exists>l. f_opened_read s (rc_ino c') = Some l \<and> h \<in> set l) \<and> 0 < h \<and> h < f_current_handle s" if "f_read_handles s' h = Some c'" for h c'
  proof -
    have "\<exists>c. f_read_handles s h = Some c \<and> rc_ino c = rc_ino c'"
      unfolding same_but_readersD(9) [OF assms(1), of h "rc_ino c'", symmetric] using that by simp
    then obtain c where "f_read_handles s h = Some c" "rc_ino c = rc_ino c'" by blast
    then show ?thesis using assms(2) unfolding handles_ok_def by metis
  qed
  with assms show ?thesis by (simp add: same_but_readers_def handles_ok_def)
qed

lemma same_but_readers_trans: "same_but_readers s s1 \<Longrightarrow> same_but_readers s1 s2 \<Longrightarrow> same_but_readers s s2"
  by (simp add: same_but_readers_def)

text \<open>The size a lookup reports: that of the inode, or that of the open writer if larger.\<close>

definition open_size :: "encrypted_fs \<Rightarrow> nat \<Rightarrow> nat \<Rightarrow> nat" where
  "open_size s ino n = (case f_opened_write s ino of None \<Rightarrow> n
     | Some h \<Rightarrow> (case f_write_handles s h of None \<Rightarrow> n | Some c \<Rightarrow> max n (t_size (wc_attr c))))"

lemma open_size_cong: "f_opened_write s' = f_opened_write s \<Longrightarrow> f_write_handles s' = f_write_handles s \<Longrightarrow> open_size s' = open_size s"
  by (simp add: open_size_def fun_eq_iff cong: option.case_cong)

lemma open_size_idem [simp]: "open_size s ino (open_size s ino n) = open_size s ino n"
  by (simp add: open_size_def split: option.split)

lemma merge_open_size: "a_size (merge_open_handles s ino a) = open_size s ino (a_size a)"
proof -
  have "a_size (fold (\<lambda>fh a. case f_read_handles s fh of None \<Rightarrow> a | Some ctx \<Rightarrow> merge_attr a (set_attr_of_times (rc_attr ctx)) False) fhs a) = a_size a"
    for fhs a by (induction fhs arbitrary: a) (auto simp: merge_attr_def set_attr_defs split: option.split)
  then show ?thesis by (simp add: merge_open_handles_def open_size_def merge_attr_def set_attr_defs Let_def split: option.split)
qed

lemma reset_read_handle_ok:
  assumes V: "fs_env_ok V" "inodes_ok V s" and a: "stored_attr V s ino = Some a"
    and c: "st_contents (f_store s) ino = Some (CFile obj)" "enc_file (v_aead V) (f_key s) (st_objs (f_store s) obj) pt"
    and r: "f_read_handles s r = Some ctx" "rc_ino ctx = ino"
  obtains s' a' where "reset_read_handle V ino r s = (Inr (), s')" "inodes_ok V s'" "stored_attr V s' ino = Some a'"
    "a_size a' = open_size s ino (a_size a)" "same_but_readers s s'" "reader_at V s' r ino pt 0"
    "\<forall>r'. r' \<noteq> r \<longrightarrow> f_read_handles s' r' = f_read_handles s r'"
proof -
  define sa where "sa = set_attr_of_times (rc_attr ctx)"
  obtain s1 where s1: "set_attr2 V ino sa False s = (Inr (), s1)" "inodes_ok V s1" "same_but_meta s s1"
    "stored_attr V s1 = (stored_attr V s)(ino \<mapsto> (merge_attr (merge_open_handles s ino a) sa False)\<lparr>a_ctime := f_time s, a_atime := f_time s\<rparr>)"
    by (rule set_attr2_ok [OF V a]) (rule that; assumption)
  note m = same_but_metaD [OF s1(3)]
  define a' where "a' = (merge_attr (merge_open_handles s ino a) sa False)\<lparr>a_ctime := f_time s, a_atime := f_time s\<rparr>"
  have a': "stored_attr V s1 ino = Some a'" "a_size a' = open_size s ino (a_size a)"
    using s1(4) merge_open_size [of s ino a] by (simp_all add: a'_def sa_def merge_attr_def set_attr_defs)
  obtain rd where rd: "create_read_seek (v_crypto V) (stream_of (st_objs (f_store s) obj)) (v_cipher V) (f_key s) = Inr rd"
    "r_good (v_aead V) (st_objs (f_store s) obj) pt rd" "r_pos rd = 0" by (rule new_reader_ok [OF V c(2)])
  let ?ctx = "ctx\<lparr>rc_reader := Some rd, rc_obj := obj, rc_attr := times_of_attr a'\<rparr>"
  let ?s = "s1\<lparr>f_read_handles := (f_read_handles s1)(r \<mapsto> ?ctx)\<rparr>"
  have get: "get_inode_from_storage V ino s1 = (Inr a', s1)" by (rule get_inode_from_storage_eq [OF a'(1)])
  have "reset_read_handle V ino r s = (Inr (), ?s)"
    using r(1) s1(1) get c(1) rd(1) m
    by (simp add: reset_read_handle_def set_attr_def sa_def open_content_def fs_create_read_seek_def lift_err_def
        upd_read_handles [of "\<lambda>m. m(r \<mapsto> ctx\<lparr>rc_reader := Some rd, rc_obj := obj, rc_attr := times_of_attr a'\<rparr>)"])
  moreover have "inodes_ok V ?s" "stored_attr V ?s ino = Some a'" using inodes_ok_cong(1,2) [of ?s s1 V] s1(2) a'(1) by simp_all
  moreover have "same_but_readers s ?s" using m r by (simp add: same_but_readers_def)
  moreover have "reader_at V ?s r ino pt 0" using m c r(2) rd(2,3) by (simp add: reader_at_def)
  ultimately show thesis using that [of ?s a'] a'(2) m(4) by simp
qed

lemma reset_readers_ok:
  assumes V: "fs_env_ok V" "inodes_ok V s" and a: "stored_attr V s ino = Some a"
    and c: "st_contents (f_store s) ino = Some (CFile obj)" "enc_file (v_aead V) (f_key s) (st_objs (f_store s) obj) pt"
    and r: "\<forall>r \<in> set rs. \<exists>ctx. f_read_handles s r = Some ctx \<and> rc_ino ctx = ino"
  shows "\<exists>s' a'. for_each (reset_read_handle V ino) rs s = (Inr (), s') \<and> inodes_ok V s' \<and> stored_attr V s' ino = Some a'
    \<and> open_size s ino (a_size a') = open_size s ino (a_size a) \<and> same_but_readers s s' \<and> (\<forall>r \<in> set rs. reader_at V s' r ino pt 0)
    \<and> (\<forall>r. r \<notin> set rs \<longrightarrow> f_read_handles s' r = f_read_handles s r)"
  using assms(2-)
proof (induction rs arbitrary: s a)
  case Nil
  then show ?case by (auto simp: same_but_readers_def)
next
  case (Cons r rs)
  obtain ctx where ctx: "f_read_handles s r = Some ctx" "rc_ino ctx = ino" using Cons.prems(5) by auto
  obtain s1 a1 where s1: "reset_read_handle V ino r s = (Inr (), s1)" "inodes_ok V s1" "stored_attr V s1 ino = Some a1"
    "a_size a1 = open_size s ino (a_size a)" "same_but_readers s s1" "reader_at V s1 r ino pt 0"
    "\<forall>r'. r' \<noteq> r \<longrightarrow> f_read_handles s1 r' = f_read_handles s r'"
    by (rule reset_read_handle_ok [OF V(1) Cons.prems(1-4) ctx]) (rule that; assumption)
  note m = same_but_readersD [OF s1(5)]
  have sz: "open_size s1 ino = open_size s ino" using open_size_cong [OF m(6,4)] by simp
  have q: "\<forall>r \<in> set rs. \<exists>ctx. f_read_handles s1 r = Some ctx \<and> rc_ino ctx = ino" using Cons.prems(5) m(9) by simp
  have p: "st_contents (f_store s1) ino = Some (CFile obj)" "enc_file (v_aead V) (f_key s1) (st_objs (f_store s1) obj) pt"
    using m(1-3) Cons.prems(3,4) by simp_all
  obtain s2 a2 where s2: "for_each (reset_read_handle V ino) rs s1 = (Inr (), s2)" "inodes_ok V s2" "stored_attr V s2 ino = Some a2"
    "open_size s1 ino (a_size a2) = open_size s1 ino (a_size a1)"
    "same_but_readers s1 s2" "\<forall>r \<in> set rs. reader_at V s2 r ino pt 0" "\<forall>r. r \<notin> set rs \<longrightarrow> f_read_handles s2 r = f_read_handles s1 r"
    using Cons.IH [OF s1(2,3) p q] by blast
  have "reader_at V s2 r ino pt 0"
  proof (cases "r \<in> set rs")
    case False
    then have "f_read_handles s2 r = f_read_handles s1 r" using s2(7) by simp
    then show ?thesis using reader_at_cong [of s2 r s1 ino V pt 0] s1(6) same_but_readersD(1-3) [OF s2(5)] by simp
  qed (use s2(6) in simp)
  then show ?case using s1(1,4,7) s2 sz same_but_readers_trans [OF s1(5) s2(5)]
    by (intro exI [of _ s2] exI [of _ a2]) simp
qed

lemma reset_handles_none:
  assumes "f_opened_read s ino = None" "\<And>h. f_opened_write s ino = Some h \<Longrightarrow> skip = Some h"
  shows "reset_handles V ino skip save s = (Inr (), s)"
  using assms by (cases "f_opened_write s ino") (simp_all add: reset_handles_def)

text \<open>A reset that skips the writer \<open>h\<close>: every reader is at the start of what is stored.\<close>

lemma reset_handles_ok:
  assumes V: "fs_env_ok V" "inodes_ok V s" and a: "stored_attr V s ino = Some a"
    and c: "st_contents (f_store s) ino = Some (CFile obj)" "enc_file (v_aead V) (f_key s) (st_objs (f_store s) obj) pt"
    and r: "\<forall>r \<in> set (readers_of s ino). \<exists>ctx. f_read_handles s r = Some ctx \<and> rc_ino ctx = ino"
    and h: "f_read_handles s h = None" "f_opened_write s ino \<in> {None, Some h}"
  obtains s' a' where "reset_handles V ino (Some h) True s = (Inr (), s')" "inodes_ok V s'" "stored_attr V s' ino = Some a'"
    "open_size s ino (a_size a') = open_size s ino (a_size a)" "same_but_readers s s'" "\<forall>r \<in> set (readers_of s ino). reader_at V s' r ino pt 0"
proof -
  let ?l = "readers_of s ino"
  obtain s' a' where s': "for_each (reset_read_handle V ino) ?l s = (Inr (), s')" "inodes_ok V s'" "stored_attr V s' ino = Some a'"
    "open_size s ino (a_size a') = open_size s ino (a_size a)" "same_but_readers s s'" "\<forall>r \<in> set ?l. reader_at V s' r ino pt 0"
    using reset_readers_ok [OF V a c r] by blast
  have "h \<notin> set ?l" using r h(1) by auto
  then have fl: "filter (\<lambda>h'. Some h \<noteq> Some h') ?l = ?l" by (induction ?l) (auto intro: filter_True)
  have "reset_handles V ino (Some h) True s = (Inr (), s')"
    using s'(1) fl h(2) same_but_readersD(6) [OF s'(5)] by (auto simp: reset_handles_def readers_of_def)
  with that s'(2-6) show thesis by blast
qed


subsection \<open>Writers\<close>

lemma ws_rel_out: "ws_rel E key w pt p \<Longrightarrow> \<exists>out. w_out (ws_inner w) = Some out"
  using wkD(2) by (fastforce simp: ws_rel_def ws_attached_def ws_fresh_def)

lemma w_refresh_out: "w_out (ws_inner w) = Some out \<Longrightarrow> w_refresh (sdata out) w = w"
  by (simp add: w_refresh_def)

lemma ws_seek_current: "ws_rel E key w pt p \<Longrightarrow> p < 2 ^ 63 \<Longrightarrow> ws_seek E (Current 0) w = (Inr p, w)"
  using ws_rel_pos(2) [of E key w pt p] by (simp add: ws_seek_def Let_def)

lemma max_plaintext_len_i64: "max_plaintext_len c < 2 ^ 63"
  by (cases c) (simp_all add: max_plaintext_len_def)

text \<open>
  What is stored while a file is written: the bytes decrypt, to a content that agrees with what the
  writer stands for outside the one block the writer holds in its buffer.
\<close>

definition one_block_apart :: "nat \<Rightarrow> bytes \<Rightarrow> bytes \<Rightarrow> bool" where
  "one_block_apart b xs ys \<longleftrightarrow> (\<exists>i. take (i * b) xs = take (i * b) ys \<and> drop (Suc i * b) xs = drop (Suc i * b) ys)"

lemma one_block_apart_refl [simp]: "one_block_apart b xs xs"
  by (simp add: one_block_apart_def)

lemma one_block_apart_overlay:
  assumes "i * b \<le> length xs" "length (chunk b i xs) \<le> length d" "length d \<le> b"
  shows "one_block_apart b xs (overlay xs (i * b) d)"
proof -
  have "drop (Suc i * b) (overlay xs (i * b) d) = drop (Suc i * b) xs"
  proof (cases "length d = b")
    case False
    then have "length xs \<le> i * b + length d" using assms by (simp add: chunk_def min_def split: if_splits)
    then show ?thesis using assms by (simp add: overlay_def)
  qed (use assms(1) in \<open>simp add: overlay_def add.commute\<close>)
  moreover have "take (i * b) (overlay xs (i * b) d) = take (i * b) xs" using assms(1) by (simp add: overlay_def)
  ultimately show ?thesis unfolding one_block_apart_def by metis
qed

lemma ws_rel_stored:
  assumes "ws_rel E key w pt p" "w_refresh ct w = w"
  obtains base where "enc_file E key ct base" "one_block_apart (e_block_size E) base pt"
proof -
  obtain out where out: "w_out (ws_inner w) = Some out" using ws_rel_out [OF assms(1)] by blast
  have ct: "sdata out = ct"
  proof -
    have "w_out (ws_inner (w_refresh ct w)) = Some out" using out assms(2) by simp
    then have "out\<lparr>sdata := ct\<rparr> = out" using out by (simp add: w_refresh_def)
    then show ?thesis by (metis stream.select_convs(1) stream.surjective stream.update_convs(1))
  qed
  show thesis
  proof (cases "ws_fresh E w pt \<and> p = 0")
    case True
    then show thesis using that [of pt] assms(1) out ct by (auto simp: ws_fresh_def ws_rel_def)
  next
    case False
    then obtain o' base where b: "wk E (ws_inner w) o' base" "pt = wk_content E (ws_inner w) base" "w_key (ws_inner w) = key"
      using assms(1) by (auto simp: ws_rel_def ws_attached_def)
    have "length (buf_as_ref (w_buf (ws_inner w))) = b_available (w_buf (ws_inner w))" "b_available (w_buf (ws_inner w)) \<le> e_block_size E"
      using w_okD [OF wkD(1) [OF b(1)]] buf_invD [of "w_buf (ws_inner w)"] by (auto simp: buf_as_ref_def)
    then have "one_block_apart (e_block_size E) base pt" using one_block_apart_overlay b(1) unfolding b(2) wk_content_def wk_def by simp
    moreover have "enc_file E key ct base" using b(1,3) out ct by (auto simp: wk_def)
    ultimately show thesis by (rule that [rotated])
  qed
qed

lemma sharedE:
  assumes "shared V s h ino pt p sz l"
  obtains ctx w a where "f_write_handles s h = Some ctx" "wc_ino ctx = ino" "wc_writer ctx = Some w" "t_size (wc_attr ctx) = sz"
    "ws_rel (v_aead V) (f_key s) w pt p" "w_refresh (st_objs (f_store s) (wc_obj ctx)) w = w"
    "st_contents (f_store s) ino = Some (CFile (wc_obj ctx))" "inodes_ok V s" "handles_ok s"
    "f_opened_write s ino = Some h" "f_read_handles s h = None" "stored_attr V s ino = Some a" "a_size a \<le> sz" "readers_of s ino = l"
    "\<forall>r \<in> set l. f_write_handles s r = None" "\<forall>r \<in> set l. \<exists>c. f_read_handles s r = Some c \<and> rc_ino c = ino"
  using assms unfolding shared_def writer_at_def by blast

lemma shared_stored:
  assumes "shared V s h ino pt p sz l"
  obtains obj base where "st_contents (f_store s) ino = Some (CFile obj)" "enc_file (v_aead V) (f_key s) (st_objs (f_store s) obj) base"
    "one_block_apart (e_block_size (v_aead V)) base pt"
  using assms by (rule sharedE) (metis ws_rel_stored that)

text \<open>A call of the writer of an open handle.\<close>

lemma on_writer_step:
  assumes w: "shared V s h ino pt p sz l"
    and m: "\<And>w. ws_rel (v_aead V) (f_key s) w pt p \<Longrightarrow>
      \<exists>x w'. m w = (Inr x, w') \<and> Q x \<and> ws_rel (v_aead V) (f_key s) w' (pt' x) (p' x)"
  obtains x s' where "on_writer h m s = (Inr x, s')" "Q x" "shared V s' h ino (pt' x) (p' x) sz l" "f_time s' = f_time s" "f_key s' = f_key s"
    "f_opened_read s' = f_opened_read s"
proof -
  obtain ctx w where c: "f_write_handles s h = Some ctx" "wc_ino ctx = ino" "wc_writer ctx = Some w" "t_size (wc_attr ctx) = sz"
    "ws_rel (v_aead V) (f_key s) w pt p" "w_refresh (st_objs (f_store s) (wc_obj ctx)) w = w"
    "st_contents (f_store s) ino = Some (CFile (wc_obj ctx))"
    using w by (rule sharedE)
  obtain x w' where w': "m w = (Inr x, w')" "ws_rel (v_aead V) (f_key s) w' (pt' x) (p' x)" "Q x" using m [OF c(5)] by blast
  obtain out where out: "w_out (ws_inner w') = Some out" using ws_rel_out [OF w'(2)] by blast
  let ?s = "put_obj (wc_obj ctx) (sdata out) (s\<lparr>f_write_handles := (f_write_handles s)(h \<mapsto> ctx\<lparr>wc_writer := Some w'\<rparr>)\<rparr>)"
  have same: "inodes_ok V ?s = inodes_ok V s" "stored_attr V ?s = stored_attr V s"
    using inodes_ok_cong(1,2) [of ?s s V] by (simp_all add: put_obj_def)
  have "handles_ok ?s" using w c(1) unfolding shared_def handles_ok_def by (simp add: put_obj_def)
  moreover have "readers_of ?s ino = readers_of s ino" by (simp add: readers_of_def put_obj_def)
  ultimately have "shared V ?s h ino (pt' x) (p' x) sz l"
    using w c w'(2) w_refresh_out [OF out] unfolding shared_def writer_at_def same by (auto simp: put_obj_def)
  moreover have "on_writer h m s = (Inr x, ?s)" using c(1,3,6) w'(1) out by (simp add: on_writer_def io_result_def write_back_def)
  ultimately show thesis using that [of x ?s] w'(3) by (simp add: put_obj_def)
qed

lemma shared_touch:
  assumes "shared V s h ino pt p sz l" "sz \<le> sz'" "\<And>c. wc_ino (g c) = wc_ino c \<and> wc_writer (g c) = wc_writer c \<and> wc_obj (g c) = wc_obj c"
    "\<And>c. t_size (wc_attr c) = sz \<Longrightarrow> t_size (wc_attr (g c)) = sz'"
  shows "shared V (s\<lparr>f_time := t, f_write_handles := (f_write_handles s)(h := map_option g (f_write_handles s h))\<rparr>) h ino pt p sz' l"
proof -
  let ?s = "s\<lparr>f_time := t, f_write_handles := (f_write_handles s)(h := map_option g (f_write_handles s h))\<rparr>"
  have same: "inodes_ok V ?s = inodes_ok V s" "stored_attr V ?s = stored_attr V s" using inodes_ok_cong(1,2) [of ?s s V] by simp_all
  have "handles_ok ?s" using assms(1,3) unfolding shared_def handles_ok_def by auto
  moreover have "readers_of ?s ino = readers_of s ino" by (simp add: readers_of_def)
  ultimately show ?thesis using assms unfolding shared_def writer_at_def same by fastforce
qed

lemma shared_same_but_readers:
  assumes "shared V s h ino pt p sz l" "same_but_readers s s'" "inodes_ok V s'" "stored_attr V s' ino = Some a'" "a_size a' \<le> sz"
  shows "shared V s' h ino pt p sz l"
  using assms same_but_readers_handles [OF assms(2)] unfolding shared_def writer_at_def
  by (simp add: same_but_readersD [OF assms(2)])

lemma shared_only_reader: "shared V s h ino pt p sz l \<Longrightarrow> only_reader r s s' \<Longrightarrow> shared V s' h ino pt p sz l"
proof -
  assume w: "shared V s h ino pt p sz l" and o: "only_reader r s s'"
  have "inodes_ok V s' = inodes_ok V s" "stored_attr V s' = stored_attr V s" using inodes_ok_cong(1,2) [of s' s V] only_readerD [OF o] by simp_all
  with w show ?thesis using shared_same_but_readers [OF w only_reader_same [OF o]] unfolding shared_def by auto
qed


subsection \<open>Writing\<close>

text \<open>The number of bytes a write takes: what is left of the block at the offset.\<close>

definition write_len :: "fs_env \<Rightarrow> nat \<Rightarrow> bytes \<Rightarrow> nat" where
  "write_len V off d = min (e_block_size (v_aead V) - off mod e_block_size (v_aead V)) (length d)"

text \<open>The content after bytes were written at an offset; a gap is filled with zeros.\<close>

definition written :: "bytes \<Rightarrow> nat \<Rightarrow> bytes \<Rightarrow> bytes" where
  "written pt off d = overlay (pt @ replicate (off - length pt) 0) off d"

lemma ws_rel_block: "ws_rel E key w pt p \<Longrightarrow> 0 < e_block_size E"
  using w_okD(7) by (auto simp: ws_rel_def ws_ok_def)

lemma write_len_bounds:
  assumes "shared V s h ino pt p sz l" "d \<noteq> []"
  shows "0 < write_len V off d" "write_len V off d \<le> length d"
proof -
  have "0 < e_block_size (v_aead V)" using assms(1) by (rule sharedE) (rule ws_rel_block)
  then show "0 < write_len V off d" "write_len V off d \<le> length d" using assms(2) by (simp_all add: write_len_def)
qed

lemma fs_write_core:
  assumes w: "shared V s h ino pt p sz l"
    and guard: "ws_seek_guard (e_block_size (v_aead V)) pt p off" and d: "d \<noteq> []" "off + length d \<le> max_plaintext_len (v_cipher V)"
  defines "len \<equiv> write_len V off d"
  obtains s' where "\<And>s2. reset_handles V ino (Some h) True s' = (Inr (), s2) \<Longrightarrow> fs_write V ino off d h s = (Inr len, s2)"
    "shared V s' h ino (written pt off (take len d)) (off + len) (max (off + len) sz) l" "f_opened_read s' = f_opened_read s"
proof -
  let ?E = "v_aead V" and ?pt = "pt @ replicate (off - length pt) 0"
  have off: "off < 2 ^ 63" "off + length d < 2 ^ 63" using d(2) max_plaintext_len_i64 [of "v_cipher V"] by simp_all
  obtain s1 where s1: "on_writer h (ws_seek ?E (Start off)) s = (Inr off, s1)" "shared V s1 h ino ?pt off sz l" "f_opened_read s1 = f_opened_read s"
    using on_writer_step [OF w, where m = "ws_seek ?E (Start off)" and Q = "\<lambda>x. x = off" and pt' = "\<lambda>_. ?pt" and p' = "\<lambda>_. off"]
      ws_seek_ok [OF _ guard off(1)] by metis
  have wr: "\<exists>x w'. ws_write ?E d w = (Inr x, w') \<and> x = len \<and> ws_rel ?E (f_key s1) w' (written pt off (take len d)) (off + len)"
    if "ws_rel ?E (f_key s1) w ?pt off" for w
    using ws_write_exact [OF that, of d] by (simp add: len_def write_len_def written_def)
  obtain s2 where s2: "on_writer h (ws_write ?E d) s1 = (Inr len, s2)"
    "shared V s2 h ino (written pt off (take len d)) (off + len) sz l" "f_opened_read s2 = f_opened_read s1"
    using on_writer_step [OF s1(2), where m = "ws_write ?E d" and Q = "\<lambda>k. k = len" and
        pt' = "\<lambda>_. written pt off (take len d)" and p' = "\<lambda>_. off + len"] wr by metis
  have len: "len \<le> length d" by (simp add: len_def write_len_def)
  then have cur: "off + len < 2 ^ 63" using off(2) by simp
  obtain s3 where s3: "on_writer h (ws_seek ?E (Current 0)) s2 = (Inr (off + len), s3)"
    "shared V s3 h ino (written pt off (take len d)) (off + len) sz l" "f_time s3 = f_time s2" "f_opened_read s3 = f_opened_read s2"
    using on_writer_step [OF s2(2), where m = "ws_seek ?E (Current 0)" and Q = "\<lambda>x. x = off + len" and
        pt' = "\<lambda>_. written pt off (take len d)" and p' = "\<lambda>_. off + len"] ws_seek_current [OF _ cur] by metis
  let ?g = "\<lambda>ctx. ctx\<lparr>wc_attr := (wc_attr ctx)\<lparr>t_size := max (off + len) (t_size (wc_attr ctx)),
                       t_mtime := f_time s3, t_ctime := f_time s3, t_atime := f_time s3\<rparr>\<rparr>"
  let ?s = "s3\<lparr>f_time := Suc (f_time s3), f_write_handles := (f_write_handles s3)(h := map_option ?g (f_write_handles s3 h))\<rparr>"
  have new: "shared V ?s h ino (written pt off (take len d)) (off + len) (max (off + len) sz) l"
    by (rule shared_touch [OF s3(2)]) simp_all
  obtain ctx a where ctx: "f_write_handles s h = Some ctx" "wc_ino ctx = ino" "is_file s ino" "stored_attr V s ino = Some a"
    using w by (rule sharedE) (simp add: is_file_def)
  note ex = stored_attr_exists [OF ctx(4)]
  have "fs_write V ino off d h s = (Inr len, s2)" if "reset_handles V ino (Some h) True ?s = (Inr (), s2)" for s2
    using ctx ex d s1(1) s2(1) s3(1) that
    by (simp add: fs_write_def Let_def system_time_now_def upd_write_handles [of "\<lambda>m. m(h := map_option ?g (m h))"])
  with that [of ?s] new s1(3) s2(3) s3(4) show thesis by simp
qed

text \<open>The reset after a write: the readers now stand for what is stored.\<close>

lemma reset_shared_ok:
  assumes V: "fs_env_ok V" and w: "shared V s h ino pt p sz l"
  obtains s' base where "reset_handles V ino (Some h) True s = (Inr (), s')" "shared V s' h ino pt p sz l"
    "one_block_apart (e_block_size (v_aead V)) base pt" "\<forall>r \<in> set l. reader_at V s' r ino base 0" "f_opened_read s' = f_opened_read s"
proof -
  obtain obj base where b: "st_contents (f_store s) ino = Some (CFile obj)" "enc_file (v_aead V) (f_key s) (st_objs (f_store s) obj) base"
    "one_block_apart (e_block_size (v_aead V)) base pt" by (rule shared_stored [OF w])
  obtain ctx a where c: "f_write_handles s h = Some ctx" "t_size (wc_attr ctx) = sz" "inodes_ok V s"
    "f_opened_write s ino = Some h" "f_read_handles s h = None" "stored_attr V s ino = Some a" "a_size a \<le> sz" "readers_of s ino = l"
    "\<forall>r \<in> set l. \<exists>c. f_read_handles s r = Some c \<and> rc_ino c = ino"
    using w by (rule sharedE)
  obtain s' a' where s': "reset_handles V ino (Some h) True s = (Inr (), s')" "inodes_ok V s'" "stored_attr V s' ino = Some a'"
    "open_size s ino (a_size a') = open_size s ino (a_size a)" "same_but_readers s s'" "\<forall>r \<in> set l. reader_at V s' r ino base 0"
    using reset_handles_ok [OF V c(3,6) b(1,2), of h] c(4,5,8,9) by auto
  have "a_size a' \<le> sz" using s'(4) c(1,2,4,7) by (simp add: open_size_def max_def split: if_splits)
  then have "shared V s' h ino pt p sz l" by (rule shared_same_but_readers [OF w s'(5,2,3)])
  with that s'(1,6) b(3) same_but_readersD(5) [OF s'(5)] show thesis by blast
qed

lemma fs_write_shared:
  assumes V: "fs_env_ok V" and w: "shared V s h ino pt p sz l"
    and guard: "ws_seek_guard (e_block_size (v_aead V)) pt p off" and d: "d \<noteq> []" "off + length d \<le> max_plaintext_len (v_cipher V)"
  defines "len \<equiv> write_len V off d"
  obtains s' base where "fs_write V ino off d h s = (Inr len, s')"
    "shared V s' h ino (written pt off (take len d)) (off + len) (max (off + len) sz) l"
    "one_block_apart (e_block_size (v_aead V)) base (written pt off (take len d))" "\<forall>r \<in> set l. reader_at V s' r ino base 0"
    "f_opened_read s' = f_opened_read s"
proof -
  obtain s1 where s1: "\<And>s2. reset_handles V ino (Some h) True s1 = (Inr (), s2) \<Longrightarrow> fs_write V ino off d h s = (Inr len, s2)"
    "shared V s1 h ino (written pt off (take len d)) (off + len) (max (off + len) sz) l" "f_opened_read s1 = f_opened_read s"
    using fs_write_core [OF w guard d] unfolding len_def by metis
  obtain s' base where s': "reset_handles V ino (Some h) True s1 = (Inr (), s')"
    "shared V s' h ino (written pt off (take len d)) (off + len) (max (off + len) sz) l"
    "one_block_apart (e_block_size (v_aead V)) base (written pt off (take len d))" "\<forall>r \<in> set l. reader_at V s' r ino base 0"
    "f_opened_read s' = f_opened_read s1" by (rule reset_shared_ok [OF V s1(2)])
  show thesis by (rule that [OF s1(1) [OF s'(1)] s'(2-4)]) (simp add: s'(5) s1(3))
qed

text \<open>Flushing keeps what the writer stands for, unless it stands at the start of a block inside the file.\<close>

lemma fs_flush_shared:
  assumes V: "fs_env_ok V" and w: "shared V s h ino pt p sz l" and guard: "ws_flush_guard (e_block_size (v_aead V)) pt p"
  obtains s' base where "fs_flush V h s = (Inr (), s')" "shared V s' h ino pt p sz l"
    "one_block_apart (e_block_size (v_aead V)) base pt" "\<forall>r \<in> set l. reader_at V s' r ino base 0" "f_opened_read s' = f_opened_read s"
proof -
  obtain s1 where s1: "on_writer h (ws_flush (v_aead V)) s = (Inr (), s1)" "shared V s1 h ino pt p sz l" "f_opened_read s1 = f_opened_read s"
    using on_writer_step [OF w, where m = "ws_flush (v_aead V)" and Q = "\<lambda>_. True" and pt' = "\<lambda>_. pt" and p' = "\<lambda>_. p"]
      ws_flush_ok [OF _ guard] by (metis (full_types) unit.exhaust)
  obtain s' base where s': "reset_handles V ino (Some h) True s1 = (Inr (), s')" "shared V s' h ino pt p sz l"
    "one_block_apart (e_block_size (v_aead V)) base pt" "\<forall>r \<in> set l. reader_at V s' r ino base 0" "f_opened_read s' = f_opened_read s1"
    by (rule reset_shared_ok [OF V s1(2)])
  obtain ctx where c: "f_write_handles s h = Some ctx" "wc_ino ctx = ino" "handles_ok s" using w by (rule sharedE)
  obtain obj where o: "st_contents (f_store s1) ino = Some (CFile obj)" by (rule shared_stored [OF s1(2)])
  have "0 < h" using handles_okD(2) [OF c(3,1)] by simp
  then have "fs_flush V h s = (Inr (), s')" using c(1,2) s1(1) s'(1) o by (simp add: fs_flush_def bnd_def gets_def)
  with that s'(2-5) s1(3) show thesis by simp
qed


subsection \<open>Opening for writing\<close>

lemma ws_new_ok:
  assumes V: "fs_env_ok V" "inodes_ok V s" and f: "enc_file (v_aead V) (f_key s) ct pt"
  obtains w where "create_write_seek (v_crypto V) seed (stream_of ct) (v_cipher V) (f_key s) = Inr w" "ws_rel (v_aead V) (f_key s) w pt 0"
    "w_refresh ct w = w"
proof -
  note k = key_len_ok [OF V(2)]
  obtain w where w: "ws_new (v_aead V) seed (stream_of ct) (f_key s) = Inr w" using k by (simp add: ws_new_def ring_crypto_write_new_def)
  then have "w_refresh ct w = w" using k by (auto simp: ws_new_def ring_crypto_write_new_def w_refresh_def)
  with that w ws_rel_new [OF v_aead_ok [OF V(1)] f w] show thesis by (simp add: create_write_seek_def v_aead_def)
qed

lemma merge_no_handles: "f_opened_read s ino = None \<Longrightarrow> f_opened_write s ino = None \<Longrightarrow> merge_open_handles s ino a = a"
  by (simp add: merge_open_handles_def)

lemma open_write_idle:
  assumes V: "fs_env_ok V" and f: "idle V s ino pt sz l"
  obtains h s' where "fs_open V ino False True s = (Inr h, s')" "shared V s' h ino pt 0 sz l" "f_store s' = f_store s" "f_key s' = f_key s"
    "f_opened_read s' = f_opened_read s" "\<And>r q b. reader_at V s r ino b q \<Longrightarrow> reader_at V s' r ino b q"
proof -
  obtain obj a where o: "st_contents (f_store s) ino = Some (CFile obj)" "enc_file (v_aead V) (f_key s) (st_objs (f_store s) obj) pt"
    and a: "stored_attr V s ino = Some a" "a_size a = sz" and inv: "inodes_ok V s" "handles_ok s" and n: "f_opened_write s ino = None"
    and l: "readers_of s ino = l" "\<forall>r \<in> set l. f_write_handles s r = None \<and> (\<exists>c. f_read_handles s r = Some c \<and> rc_ino c = ino)"
    using f unfolding idle_def by blast
  let ?h = "f_current_handle s" and ?s1 = "s\<lparr>f_current_handle := Suc (f_current_handle s)\<rparr>"
  have i1: "inodes_ok V ?s1" "stored_attr V ?s1 ino = Some a" using inv(1) a(1) by (simp_all add: inodes_ok_def attr_cache_ok_def)
  define a' where "a' = merge_open_handles ?s1 ino a"
  have sz: "a_size a' = sz" using merge_open_size [of ?s1 ino a] n a(2) by (simp add: a'_def open_size_def)
  obtain s2 where s2: "get_attr V ino ?s1 = (Inr a', s2)" "inodes_ok V s2" "stored_attr V s2 = stored_attr V ?s1" "same_but_meta ?s1 s2" "f_store s2 = f_store ?s1"
    by (rule get_attr_ok [OF i1, folded a'_def]) (rule that; assumption)
  note m = same_but_metaD [OF s2(4)]
  obtain w where w: "create_write_seek (v_crypto V) (f_rng s2) (stream_of (st_objs (f_store s) obj)) (v_cipher V) (f_key s) = Inr w"
    "ws_rel (v_aead V) (f_key s) w pt 0" "w_refresh (st_objs (f_store s) obj) w = w"
    by (rule ws_new_ok [OF V inv(1) o(2)])
  let ?ctx = "\<lparr>wc_ino = ino, wc_attr = times_and_size_of_attr a', wc_writer = Some w, wc_obj = obj\<rparr>"
  let ?s = "s2\<lparr>f_rng := Suc (f_rng s2), f_write_handles := (f_write_handles s2)(?h \<mapsto> ?ctx), f_opened_write := (f_opened_write s2)(ino \<mapsto> ?h)\<rparr>"
  have "do_with_write_handle V ?h ino ?s1 = (Inr (), ?s)"
    using s2(1) o(1) w(1) m by (simp add: do_with_write_handle_def open_content_def fs_create_write_seek_def create_rng_def lift_err_def)
  then have op: "fs_open V ino False True s = (Inr ?h, ?s)"
    using o(1) n by (simp add: fs_open_def open_for_read_def open_for_write_def next_handle_def is_dir_def)
  have "jinv V {} {} s" using V inv by (simp add: jinv_def hinv_empty)
  then have j: "handles_ok ?s" using presD [OF pres_fs_open op] by (simp add: jinv_def hinv_empty)
  have same: "inodes_ok V ?s = inodes_ok V s2" "stored_attr V ?s = stored_attr V s2" using inodes_ok_cong(1,2) [of ?s s2 V] by simp_all
  have hr: "f_read_handles s ?h = None" using handles_okD(4) [OF inv(2), of ?h] by (cases "f_read_handles s ?h") auto
  then have hl: "?h \<notin> set l" using l(2) by auto
  have rd: "readers_of ?s ino = l" using l(1) m by (simp add: readers_of_def)
  have "shared V ?s ?h ino pt 0 sz l"
    using w(2,3) o(1) j s2(2,3) a sz hr hl l(2) m unfolding shared_def writer_at_def same rd by (auto simp: times_and_size_of_attr_def)
  moreover have "reader_at V ?s r ino b q" if "reader_at V s r ino b q" for r q b
    using that m by (simp add: reader_at_def)
  ultimately show thesis using that [of ?h ?s] op s2(5) m(3,6) by simp
qed

lemma open_read_idle:
  assumes V: "fs_env_ok V" and f: "idle V s ino pt sz l"
  obtains r s' where "fs_open V ino True False s = (Inr r, s')" "idle V s' ino pt sz (List.insert r l)" "reader_at V s' r ino pt 0"
    "\<And>r' q b. reader_at V s r' ino b q \<Longrightarrow> reader_at V s' r' ino b q"
proof -
  obtain obj a where o: "inodes_ok V s" "handles_ok s" "stored_attr V s ino = Some a"
    "st_contents (f_store s) ino = Some (CFile obj)" "enc_file (v_aead V) (f_key s) (st_objs (f_store s) obj) pt"
    using f unfolding idle_def by blast
  let ?r = "f_current_handle s"
  obtain c where c: "rc_ino c = ino" "f_read_handles s ?r = None" "f_write_handles s ?r = None"
    "fs_open V ino True False s = (Inr ?r, with_reader ino c s)" "reader_at V (with_reader ino c s) ?r ino pt 0"
    "handles_ok (with_reader ino c s)" "inodes_ok V (with_reader ino c s)" "stored_attr V (with_reader ino c s) = stored_attr V s"
    by (rule open_read_at [OF V o])
  have "idle V (with_reader ino c s) ino pt sz (List.insert ?r l)"
    using f c(1,3,6,7) unfolding idle_def c(8) by (auto simp: with_reader_def readers_of_def)
  moreover have "reader_at V (with_reader ino c s) r' ino b' q" if r: "reader_at V s r' ino b' q" for r' q b'
  proof -
    have "r' \<noteq> ?r" using r c(2) by (auto elim: reader_atE)
    then show ?thesis using r by (simp add: reader_at_def with_reader_def)
  qed
  ultimately show thesis using that c(4,5) by blast
qed

subsection \<open>Releasing\<close>

lemma finish_writer_ok:
  assumes "ws_rel (v_aead V) (f_key s) w pt p" "w_refresh (st_objs (f_store s) obj) w = w"
  obtains ct w' where "finish_writer V obj w s = (Inr w', put_obj obj ct s)" "enc_file (v_aead V) (f_key s) ct pt"
  using ws_finish_ok [OF assms(1)] assms(2) that by (auto simp: finish_writer_def)

text \<open>Releasing the writer stores what it stands for, records the size and brings every reader to the new content.\<close>

lemma release_shared_ok:
  assumes V: "fs_env_ok V" and w: "shared V s h ino pt p sz l"
  obtains s' obj a where "fs_release V h s = (Inr (), s')" "inodes_ok V s'" "handles_ok s'" "stored_attr V s' ino = Some a" "a_size a = sz"
    "st_contents (f_store s') ino = Some (CFile obj)" "enc_file (v_aead V) (f_key s') (st_objs (f_store s') obj) pt"
    "f_opened_write s' ino = None" "f_opened_read s' = f_opened_read s" "f_write_handles s' = (f_write_handles s)(h := None)"
    "\<forall>r \<in> set l. reader_at V s' r ino pt 0"
proof -
  obtain ctx w0 a where c: "f_write_handles s h = Some ctx" "wc_ino ctx = ino" "wc_writer ctx = Some w0" "t_size (wc_attr ctx) = sz"
    "ws_rel (v_aead V) (f_key s) w0 pt p" "w_refresh (st_objs (f_store s) (wc_obj ctx)) w0 = w0"
    "st_contents (f_store s) ino = Some (CFile (wc_obj ctx))" "inodes_ok V s" "handles_ok s"
    "f_opened_write s ino = Some h" "f_read_handles s h = None" "stored_attr V s ino = Some a" "a_size a \<le> sz" "readers_of s ino = l"
    "\<forall>r \<in> set l. \<exists>c. f_read_handles s r = Some c \<and> rc_ino c = ino"
    using w by (rule sharedE)
  let ?s0 = "s\<lparr>f_write_handles := (f_write_handles s)(h := None)\<rparr>"
  obtain ct w1 where f: "finish_writer V (wc_obj ctx) w0 ?s0 = (Inr w1, put_obj (wc_obj ctx) ct ?s0)" "enc_file (v_aead V) (f_key s) ct pt"
    by (rule finish_writer_ok [of V ?s0 w0 pt p "wc_obj ctx"]) (use c(5,6) that in simp_all)
  let ?s1 = "put_obj (wc_obj ctx) ct ?s0"
  have i1: "inodes_ok V ?s1" "stored_attr V ?s1 ino = Some a" using inodes_ok_cong(1,2) [of ?s1 s V] c(8,12) by (simp_all add: put_obj_def)
  define sa where "sa = set_attr_of_times_and_size (wc_attr ctx)"
  obtain s2 where s2: "set_attr2 V ino sa False ?s1 = (Inr (), s2)" "inodes_ok V s2" "same_but_meta ?s1 s2"
    "stored_attr V s2 = (stored_attr V ?s1)(ino \<mapsto> (merge_attr (merge_open_handles ?s1 ino a) sa False)\<lparr>a_ctime := f_time ?s1, a_atime := f_time ?s1\<rparr>)"
    by (rule set_attr2_ok [OF V i1]) (rule that; assumption)
  note m = same_but_metaD [OF s2(3)]
  define a2 where "a2 = (merge_attr (merge_open_handles ?s1 ino a) sa False)\<lparr>a_ctime := f_time ?s1, a_atime := f_time ?s1\<rparr>"
  have sz: "a_size a2 = sz"
    using merge_open_size [of ?s1 ino a] c(4,10,13) by (simp add: a2_def open_size_def sa_def merge_attr_def set_attr_defs put_obj_def)
  let ?s3 = "s2\<lparr>f_opened_write := (f_opened_write s2)(ino := None)\<rparr>"
  have i3: "inodes_ok V ?s3" "stored_attr V ?s3 ino = Some a2"
    using inodes_ok_cong(1,2) [of ?s3 s2 V] s2(2,4) by (simp_all add: a2_def)
  have c3: "f_opened_write ?s3 ino = None" "st_contents (f_store ?s3) ino = Some (CFile (wc_obj ctx))"
    "enc_file (v_aead V) (f_key ?s3) (st_objs (f_store ?s3) (wc_obj ctx)) pt" "f_opened_read ?s3 = f_opened_read s"
    "f_read_handles ?s3 = f_read_handles s" using m c(7) f(2) by (simp_all add: put_obj_def)
  have l3: "readers_of ?s3 ino = l" using c(14) c3(4) by (simp add: readers_of_def)
  obtain s' a' where s': "reset_handles V ino (Some h) True ?s3 = (Inr (), s')" "inodes_ok V s'" "stored_attr V s' ino = Some a'"
    "open_size ?s3 ino (a_size a') = open_size ?s3 ino (a_size a2)" "same_but_readers ?s3 s'" "\<forall>r \<in> set l. reader_at V s' r ino pt 0"
    using reset_handles_ok [OF V i3 c3(2,3), of h] c(11,15) c3(1,5) unfolding l3 by auto
  note k = same_but_readersD [OF s'(5)]
  have "release_write V h s = (Inr True, s')"
    using c(1,2,3) f(1) s2(1) s'(1)
    by (simp add: release_write_def set_attr_def sa_def upd_write_handles [of "\<lambda>m. m(h := None)"] upd_opened_write [of "\<lambda>m. m(ino := None)"])
  moreover have "release_read V h s = (Inr False, s)" using c(11) by (simp add: release_read_def)
  moreover have "0 < h" using handles_okD(2) [OF c(9,1)] by simp
  ultimately have rel: "fs_release V h s = (Inr (), s')" by (simp add: fs_release_def bnd_def)
  have "jinv V {} {} s" using V c(8,9) by (simp add: jinv_def hinv_empty)
  then have j: "handles_ok s'" using presD [OF pres_fs_release rel] by (simp add: jinv_def hinv_empty)
  have "a_size a' = sz" using s'(4) sz by (simp add: open_size_def)
  with that [OF rel s'(2) j s'(3), of "wc_obj ctx"] k(1-6) c3 m(5) s'(6) show thesis by (simp add: put_obj_def)
qed

lemma release_idle:
  assumes V: "fs_env_ok V" and w: "shared V s h ino pt p sz l"
  obtains s' where "fs_release V h s = (Inr (), s')" "idle V s' ino pt sz l" "f_opened_read s' = f_opened_read s" "\<forall>r \<in> set l. reader_at V s' r ino pt 0"
proof -
  obtain s' obj a where s': "fs_release V h s = (Inr (), s')" "inodes_ok V s'" "handles_ok s'" "stored_attr V s' ino = Some a" "a_size a = sz"
    "st_contents (f_store s') ino = Some (CFile obj)" "enc_file (v_aead V) (f_key s') (st_objs (f_store s') obj) pt"
    "f_opened_write s' ino = None" "f_opened_read s' = f_opened_read s" "f_write_handles s' = (f_write_handles s)(h := None)"
    "\<forall>r \<in> set l. reader_at V s' r ino pt 0" by (rule release_shared_ok [OF assms])
  have "\<forall>r \<in> set l. f_write_handles s' r = None" "readers_of s' ino = l" using w s'(9,10) by (auto simp: readers_of_def elim!: sharedE)
  moreover have "\<forall>r \<in> set l. \<exists>c. f_read_handles s' r = Some c \<and> rc_ino c = ino" using s'(11) unfolding reader_at_def by blast
  ultimately have "idle V s' ino pt sz l" using s' unfolding idle_def by blast
  with that s'(1,9,11) show thesis by blast
qed

text \<open>A reader can join a file that is being written, and leave it again.\<close>

lemma open_beside_ok:
  assumes V: "fs_env_ok V" and w: "shared V s h ino pt p sz l"
  obtains r s' base where "fs_open V ino True False s = (Inr r, s')" "shared V s' h ino pt p sz (List.insert r l)"
    "one_block_apart (e_block_size (v_aead V)) base pt" "reader_at V s' r ino base 0"
    "\<And>r' q b. reader_at V s r' ino b q \<Longrightarrow> reader_at V s' r' ino b q"
proof -
  obtain obj base where b: "st_contents (f_store s) ino = Some (CFile obj)" "enc_file (v_aead V) (f_key s) (st_objs (f_store s) obj) base"
    "one_block_apart (e_block_size (v_aead V)) base pt" by (rule shared_stored [OF w])
  obtain a where a: "inodes_ok V s" "handles_ok s" "stored_attr V s ino = Some a" using w by (rule sharedE)
  let ?r = "f_current_handle s"
  obtain c where c: "rc_ino c = ino" "f_read_handles s ?r = None" "f_write_handles s ?r = None"
    "fs_open V ino True False s = (Inr ?r, with_reader ino c s)" "reader_at V (with_reader ino c s) ?r ino base 0"
    "handles_ok (with_reader ino c s)" "inodes_ok V (with_reader ino c s)" "stored_attr V (with_reader ino c s) = stored_attr V s"
    by (rule open_read_at [OF V a b(1,2)])
  have "?r \<noteq> h" using c(3) w by (auto elim: sharedE)
  then have "shared V (with_reader ino c s) h ino pt p sz (List.insert ?r l)"
    using w c(1,3,6-8) unfolding shared_def writer_at_def c(8) by (auto simp: with_reader_def readers_of_def)
  moreover have "reader_at V (with_reader ino c s) r' ino b' q" if r: "reader_at V s r' ino b' q" for r' q b'
  proof -
    have "r' \<noteq> ?r" using r c(2) by (auto elim: reader_atE)
    then show ?thesis using r by (simp add: reader_at_def with_reader_def)
  qed
  ultimately show thesis using that c(4,5) b(3) by blast
qed


lemma release_read_core:
  assumes V: "fs_env_ok V" and inv: "inodes_ok V s" "handles_ok s" and a: "stored_attr V s ino = Some a"
    and r: "f_read_handles s r = Some ctx" "rc_ino ctx = ino" "f_write_handles s r = None"
  obtains s' a' where "fs_release V r s = (Inr (), s')" "inodes_ok V s'" "handles_ok s'" "stored_attr V s' ino = Some a'"
    "a_size a' = open_size s ino (a_size a)" "st_contents (f_store s') = st_contents (f_store s)" "st_objs (f_store s') = st_objs (f_store s)"
    "f_key s' = f_key s" "f_read_handles s' = (f_read_handles s)(r := None)" "f_write_handles s' = f_write_handles s"
    "f_opened_write s' = f_opened_write s"
    "f_opened_read s' = (f_opened_read s)(ino := (let l = removeAll r (readers_of s ino) in if l = [] then None else Some l))"
proof -
  obtain l where l: "f_opened_read s ino = Some l" "0 < r" using handles_okD(3,4) [OF inv(2) r(1)] r(2) by auto
  let ?l = "removeAll r l"
  let ?s1 = "s\<lparr>f_read_handles := (f_read_handles s)(r := None), f_opened_read := (f_opened_read s)(ino := (if ?l = [] then None else Some ?l))\<rparr>"
  have i1: "inodes_ok V ?s1" "stored_attr V ?s1 ino = Some a" using inodes_ok_cong(1,2) [of ?s1 s V] inv(1) a by simp_all
  define sa where "sa = set_attr_of_times (rc_attr ctx)"
  obtain s2 where s2: "set_attr2 V ino sa False ?s1 = (Inr (), s2)" "inodes_ok V s2" "same_but_meta ?s1 s2"
    "stored_attr V s2 = (stored_attr V ?s1)(ino \<mapsto> (merge_attr (merge_open_handles ?s1 ino a) sa False)\<lparr>a_ctime := f_time ?s1, a_atime := f_time ?s1\<rparr>)"
    by (rule set_attr2_ok [OF V i1]) (rule that; assumption)
  note m = same_but_metaD [OF s2(3)]
  have "release_read V r s = (Inr True, s2)"
    using r(1,2) l(1) s2(1) by (simp add: release_read_def Let_def set_attr_def sa_def upd_read_handles [of "\<lambda>m. m(r := None)"]
        upd_opened_read [of "\<lambda>m. m(ino := if removeAll r l = [] then None else Some (removeAll r l))"])
  moreover have "release_write V r s2 = (Inr False, s2)" using r(3) m by (simp add: release_write_def)
  ultimately have rel: "fs_release V r s = (Inr (), s2)" using l(2) by (simp add: fs_release_def bnd_def)
  have "jinv V {} {} s" using V inv by (simp add: jinv_def hinv_empty)
  then have j: "handles_ok s2" using presD [OF pres_fs_release rel] by (simp add: jinv_def hinv_empty)
  have "open_size ?s1 ino (a_size a) = open_size s ino (a_size a)" using open_size_cong [of ?s1 s] by simp
  then have sz: "a_size (merge_attr (merge_open_handles ?s1 ino a) sa False) = open_size s ino (a_size a)"
    using merge_open_size [of ?s1 ino a] by (simp add: sa_def merge_attr_def set_attr_defs)
  show thesis using that [OF rel s2(2) j] s2(4) sz m l(1) by (simp add: readers_of_def Let_def)
qed

lemma release_beside_ok:
  assumes V: "fs_env_ok V" and w: "shared V s h ino pt p sz l" and r: "r \<in> set l"
  obtains s' where "fs_release V r s = (Inr (), s')" "shared V s' h ino pt p sz (removeAll r l)"
    "f_opened_read s' ino = (if removeAll r l = [] then None else Some (removeAll r l))"
    "\<And>r' q b. r' \<noteq> r \<Longrightarrow> reader_at V s r' ino b q \<Longrightarrow> reader_at V s' r' ino b q"
proof -
  obtain ctx a where c: "f_write_handles s h = Some ctx" "t_size (wc_attr ctx) = sz" "inodes_ok V s" "handles_ok s"
    "f_opened_write s ino = Some h" "stored_attr V s ino = Some a" "a_size a \<le> sz" "readers_of s ino = l"
    "\<forall>r \<in> set l. f_write_handles s r = None" "\<forall>r \<in> set l. \<exists>c. f_read_handles s r = Some c \<and> rc_ino c = ino"
    using w by (rule sharedE)
  obtain rc where rc: "f_read_handles s r = Some rc" "rc_ino rc = ino" "f_write_handles s r = None" using c(9,10) r by blast
  obtain s' a' where s': "fs_release V r s = (Inr (), s')" "inodes_ok V s'" "handles_ok s'" "stored_attr V s' ino = Some a'"
    "a_size a' = open_size s ino (a_size a)" "st_contents (f_store s') = st_contents (f_store s)" "st_objs (f_store s') = st_objs (f_store s)"
    "f_key s' = f_key s" "f_read_handles s' = (f_read_handles s)(r := None)" "f_write_handles s' = f_write_handles s"
    "f_opened_write s' = f_opened_write s"
    "f_opened_read s' = (f_opened_read s)(ino := (let l = removeAll r (readers_of s ino) in if l = [] then None else Some l))"
    by (rule release_read_core [OF V c(3,4,6) rc])
  have "a_size a' \<le> sz" using s'(5) c(1,2,5,7) by (simp add: open_size_def)
  moreover have "readers_of s' ino = removeAll r l" using s'(12) c(8) by (simp add: readers_of_def Let_def)
  ultimately have "shared V s' h ino pt p sz (removeAll r l)"
    using w s'(2-11) c(9,10) unfolding shared_def writer_at_def by simp
  moreover have "reader_at V s' r' ino b q" if "r' \<noteq> r" "reader_at V s r' ino b q" for r' q b
    using that s'(6-9) by (simp add: reader_at_def)
  moreover have "f_opened_read s' ino = (if removeAll r l = [] then None else Some (removeAll r l))"
    using s'(12) c(8) by (simp add: Let_def)
  ultimately show thesis using that s'(1) by blast
qed

end
