(* ===== verification/Fs_Session.thy ===== *)
theory Fs_Session
  imports Fs_Handles
begin

text \<open>
  A file through its handles: open, write, release, open again and read. An open write handle is
  described by the plaintext its writer stands for (\<open>writing\<close>), a closed file by the plaintext its
  content decrypts to (\<open>file_at\<close>); every operation on the handle is a step between such
  descriptions.
\<close>

subsection \<open>Descriptions\<close>

definition file_at :: "fs_env \<Rightarrow> encrypted_fs \<Rightarrow> nat \<Rightarrow> bytes \<Rightarrow> nat \<Rightarrow> bool" where
  "file_at V s ino pt sz \<longleftrightarrow> inodes_ok V s \<and> handles_ok s \<and> f_opened_read s ino = None \<and> f_opened_write s ino = None
     \<and> (\<exists>obj. st_contents (f_store s) ino = Some (CFile obj) \<and> enc_file (v_aead V) (f_key s) (st_objs (f_store s) obj) pt)
     \<and> (\<exists>a. stored_attr V s ino = Some a \<and> a_size a = sz)"

definition writing :: "fs_env \<Rightarrow> encrypted_fs \<Rightarrow> nat \<Rightarrow> nat \<Rightarrow> bytes \<Rightarrow> nat \<Rightarrow> nat \<Rightarrow> bool" where
  "writing V s h ino pt p sz \<longleftrightarrow> (\<exists>ctx w. f_write_handles s h = Some ctx \<and> wc_ino ctx = ino \<and> wc_writer ctx = Some w
     \<and> t_size (wc_attr ctx) = sz \<and> ws_rel (v_aead V) (f_key s) w pt p
     \<and> w_refresh (st_objs (f_store s) (wc_obj ctx)) w = w \<and> st_contents (f_store s) ino = Some (CFile (wc_obj ctx)))
     \<and> inodes_ok V s \<and> handles_ok s \<and> f_opened_read s ino = None \<and> f_opened_write s ino = Some h
     \<and> f_read_handles s h = None \<and> (\<exists>a. stored_attr V s ino = Some a \<and> a_size a \<le> sz)"

lemma writing_shared: "writing V s h ino pt p sz \<longleftrightarrow> shared V s h ino pt p sz [] \<and> f_opened_read s ino = None"
  by (auto simp: writing_def shared_def writer_at_def readers_of_def)

lemma file_at_idle: "file_at V s ino pt sz \<longleftrightarrow> idle V s ino pt sz [] \<and> f_opened_read s ino = None"
  by (auto simp: file_at_def idle_def readers_of_def)

subsection \<open>Writing\<close>

lemma fs_write_ok:
  assumes w: "writing V s h ino pt p sz"
    and guard: "ws_seek_guard (e_block_size (v_aead V)) pt p off" and d: "d \<noteq> []" "off + length d \<le> max_plaintext_len (v_cipher V)"
  obtains s' where "fs_write V ino off d h s = (Inr (write_len V off d), s')" "0 < write_len V off d" "write_len V off d \<le> length d"
    "writing V s' h ino (written pt off (take (write_len V off d) d)) (off + write_len V off d) (max (off + write_len V off d) sz)"
proof -
  have sh: "shared V s h ino pt p sz []" "f_opened_read s ino = None" using w by (simp_all add: writing_shared)
  let ?len = "write_len V off d"
  obtain s' where s': "\<And>s2. reset_handles V ino (Some h) True s' = (Inr (), s2) \<Longrightarrow> fs_write V ino off d h s = (Inr ?len, s2)"
    "shared V s' h ino (written pt off (take ?len d)) (off + ?len) (max (off + ?len) sz) []" "f_opened_read s' = f_opened_read s"
    using fs_write_core [OF sh(1) guard d] by metis
  have n: "f_opened_read s' ino = None" "f_opened_write s' ino = Some h" using s'(2,3) sh(2) by (auto elim: sharedE)
  have "reset_handles V ino (Some h) True s' = (Inr (), s')" by (rule reset_handles_none) (use n in simp_all)
  from s'(1) [OF this] that write_len_bounds [OF sh(1) d(1), of off] s'(2) n(1) show thesis by (simp add: writing_shared)
qed


subsection \<open>Opening\<close>

lemma open_write_ok:
  assumes V: "fs_env_ok V" and f: "file_at V s ino pt sz"
  obtains h s' where "fs_open V ino False True s = (Inr h, s')" "writing V s' h ino pt 0 sz" "f_store s' = f_store s" "f_key s' = f_key s"
proof -
  have i: "idle V s ino pt sz []" "f_opened_read s ino = None" using f by (simp_all add: file_at_idle)
  show thesis by (rule open_write_idle [OF V i(1)]) (use that i(2) in \<open>simp add: writing_shared\<close>)
qed


subsection \<open>Releasing\<close>

lemma release_write_ok:
  assumes V: "fs_env_ok V" and w: "writing V s h ino pt p sz"
  obtains s' where "fs_release V h s = (Inr (), s')" "file_at V s' ino pt sz"
proof -
  have sh: "shared V s h ino pt p sz []" "f_opened_read s ino = None" using w by (simp_all add: writing_shared)
  show thesis by (rule release_idle [OF V sh(1)]) (use that sh(2) in \<open>simp add: file_at_idle\<close>)
qed


subsection \<open>Reading\<close>

definition reading :: "fs_env \<Rightarrow> encrypted_fs \<Rightarrow> nat \<Rightarrow> nat \<Rightarrow> bytes \<Rightarrow> nat \<Rightarrow> nat \<Rightarrow> bool" where
  "reading V s h ino pt p sz \<longleftrightarrow> reader_at V s h ino pt p
     \<and> inodes_ok V s \<and> handles_ok s \<and> (\<exists>l. f_opened_read s ino = Some l \<and> h \<in> set l) \<and> f_opened_write s ino = None
     \<and> f_write_handles s h = None \<and> (\<exists>a. stored_attr V s ino = Some a \<and> a_size a = sz)"

lemma fs_read_ok:
  assumes w: "reading V s h ino pt p sz" and fits: "ct_fits V pt"
    and n: "0 < n" "off \<le> computed_len (v_aead V) pt" "off + n \<le> length pt"
  obtains s' where "fs_read V ino off n h s = (Inr (take n (drop off pt)), s')" "reading V s' h ino pt (off + n) sz"
    "f_opened_read s' = f_opened_read s"
proof -
  have r: "reader_at V s h ino pt p" "ino_exists s ino" using w stored_attr_exists by (auto simp: reading_def)
  obtain s' where s': "fs_read V ino off n h s = (Inr (take n (drop off pt)), s')" "reader_at V s' h ino pt (off + n)" "only_reader h s s'"
    by (rule fs_read_at [OF r fits n])
  note o = only_readerD [OF s'(3)]
  have "inodes_ok V s' = inodes_ok V s" "stored_attr V s' = stored_attr V s" using inodes_ok_cong(1,2) [of s' s V] o by simp_all
  then have "reading V s' h ino pt (off + n) sz"
    using w s'(2) o same_but_readers_handles [OF only_reader_same [OF s'(3)]] by (simp add: reading_def)
  with that s'(1) o(4) show thesis by blast
qed

lemma open_read_ok:
  assumes V: "fs_env_ok V" and f: "file_at V s ino pt sz"
  obtains h s' where "fs_open V ino True False s = (Inr h, s')" "reading V s' h ino pt 0 sz" "f_opened_read s' ino = Some [h]"
proof -
  obtain obj a where o: "inodes_ok V s" "handles_ok s" "stored_attr V s ino = Some a"
    "st_contents (f_store s) ino = Some (CFile obj)" "enc_file (v_aead V) (f_key s) (st_objs (f_store s) obj) pt"
    and a: "a_size a = sz" and n: "f_opened_read s ino = None" "f_opened_write s ino = None"
    using f unfolding file_at_def by blast
  let ?h = "f_current_handle s"
  obtain c where c: "rc_ino c = ino" "f_read_handles s ?h = None" "f_write_handles s ?h = None"
    "fs_open V ino True False s = (Inr ?h, with_reader ino c s)" "reader_at V (with_reader ino c s) ?h ino pt 0"
    "handles_ok (with_reader ino c s)" "inodes_ok V (with_reader ino c s)" "stored_attr V (with_reader ino c s) = stored_attr V s"
    by (rule open_read_at [OF V o])
  have l: "f_opened_read (with_reader ino c s) ino = Some [?h]" using n(1) by (simp add: with_reader_def readers_of_def)
  have w: "f_write_handles (with_reader ino c s) = f_write_handles s" "f_opened_write (with_reader ino c s) = f_opened_write s"
    by (simp_all add: with_reader_def)
  then have "reading V (with_reader ino c s) ?h ino pt 0 sz" using c o(3) a n(2) l by (simp add: reading_def)
  with that c(4) l show thesis by blast
qed

lemma release_read_ok:
  assumes V: "fs_env_ok V" and w: "reading V s h ino pt p sz" "f_opened_read s ino = Some [h]"
  obtains s' where "fs_release V h s = (Inr (), s')" "file_at V s' ino pt sz"
proof -
  obtain a where r: "reader_at V s h ino pt p" and i: "inodes_ok V s" "handles_ok s" "stored_attr V s ino = Some a"
    and n: "a_size a = sz" "f_opened_write s ino = None" "f_write_handles s h = None"
    using w unfolding reading_def by blast
  obtain ctx where c: "f_read_handles s h = Some ctx" "rc_ino ctx = ino" "st_contents (f_store s) ino = Some (CFile (rc_obj ctx))"
    "enc_file (v_aead V) (f_key s) (st_objs (f_store s) (rc_obj ctx)) pt" using r by (rule reader_atE)
  obtain s' a' where s': "fs_release V h s = (Inr (), s')" "inodes_ok V s'" "handles_ok s'" "stored_attr V s' ino = Some a'"
    "a_size a' = open_size s ino (a_size a)" "st_contents (f_store s') = st_contents (f_store s)" "st_objs (f_store s') = st_objs (f_store s)"
    "f_key s' = f_key s" "f_opened_write s' = f_opened_write s"
    "f_opened_read s' = (f_opened_read s)(ino := (let l = removeAll h (readers_of s ino) in if l = [] then None else Some l))"
    by (rule release_read_core [OF V i c(1,2) n(3)])
  have "file_at V s' ino pt sz" using s' c(3,4) n(1,2) w(2) by (simp add: file_at_def readers_of_def open_size_def)
  with that s'(1) show thesis by blast
qed

subsection \<open>The file system keeps what is written\<close>

text \<open>Writing a file in one session, and reading it in another.\<close>

definition write_file :: "fs_env \<Rightarrow> nat \<Rightarrow> nat \<Rightarrow> bytes \<Rightarrow> nat fsm" where
  "write_file V ino off d =
     bnd (fs_open V ino False True) (\<lambda>h. bnd (fs_write V ino off d h) (\<lambda>len. bnd (fs_release V h) (\<lambda>_. ret len)))"

definition read_file :: "fs_env \<Rightarrow> nat \<Rightarrow> nat \<Rightarrow> nat \<Rightarrow> bytes fsm" where
  "read_file V ino off n =
     bnd (fs_open V ino True False) (\<lambda>h. bnd (fs_read V ino off n h) (\<lambda>d. bnd (fs_release V h) (\<lambda>_. ret d)))"

lemma write_file_ok:
  assumes V: "fs_env_ok V" and f: "file_at V s ino pt sz"
    and guard: "ws_seek_guard (e_block_size (v_aead V)) pt 0 off" and d: "d \<noteq> []" "off + length d \<le> max_plaintext_len (v_cipher V)"
  defines "len \<equiv> write_len V off d"
  obtains s' where "write_file V ino off d s = (Inr len, s')" "0 < len" "len \<le> length d"
    "file_at V s' ino (written pt off (take len d)) (max (off + len) sz)"
proof -
  obtain h s1 where s1: "fs_open V ino False True s = (Inr h, s1)" "writing V s1 h ino pt 0 sz" by (rule open_write_ok [OF V f])
  obtain s2 where s2: "fs_write V ino off d h s1 = (Inr len, s2)" "0 < len" "len \<le> length d"
    "writing V s2 h ino (written pt off (take len d)) (off + len) (max (off + len) sz)"
    unfolding len_def by (rule fs_write_ok [OF s1(2) guard d])
  obtain s3 where s3: "fs_release V h s2 = (Inr (), s3)" "file_at V s3 ino (written pt off (take len d)) (max (off + len) sz)"
    by (rule release_write_ok [OF V s2(4)])
  have "write_file V ino off d s = (Inr len, s3)" using s1(1) s2(1) s3(1) by (simp add: write_file_def)
  with that s2(2,3) s3(2) show thesis by blast
qed

lemma read_file_ok:
  assumes V: "fs_env_ok V" and f: "file_at V s ino pt sz" and fits: "ct_fits V pt"
    and n: "0 < n" "off \<le> computed_len (v_aead V) pt" "off + n \<le> length pt"
  obtains s' where "read_file V ino off n s = (Inr (take n (drop off pt)), s')" "file_at V s' ino pt sz"
proof -
  obtain h s1 where s1: "fs_open V ino True False s = (Inr h, s1)" "reading V s1 h ino pt 0 sz" "f_opened_read s1 ino = Some [h]" by (rule open_read_ok [OF V f])
  obtain s2 where s2: "fs_read V ino off n h s1 = (Inr (take n (drop off pt)), s2)" "reading V s2 h ino pt (off + n) sz" "f_opened_read s2 = f_opened_read s1"
    by (rule fs_read_ok [OF s1(2) fits n])
  have o: "f_opened_read s2 ino = Some [h]" using s2(3) s1(3) by simp
  obtain s3 where s3: "fs_release V h s2 = (Inr (), s3)" "file_at V s3 ino pt sz" by (rule release_read_ok [OF V s2(2) o])
  have "read_file V ino off n s = (Inr (take n (drop off pt)), s3)" using s1(1) s2(1) s3(1) by (simp add: read_file_def)
  with that s3(2) show thesis by blast
qed

end
