(* ===== verification/Fs_Files.thy ===== *)
theory Fs_Files
  imports Fs_Session
begin

text \<open>
  The properties of the file system as a whole: reachable states, handles, and the life of a file
  from its creation over writing and reading to a restart.
\<close>

subsection \<open>A created file\<close>

definition no_stale_handles :: "encrypted_fs \<Rightarrow> bool" where
  "no_stale_handles s \<longleftrightarrow> (\<forall>i. \<not> ino_exists s i \<longrightarrow> f_opened_read s i = None \<and> f_opened_write s i = None)"

lemma enc_file_empty: "aead_ok E \<Longrightarrow> enc_file E key [] []"
  using aead_okD(1) [of E] by (simp add: enc_file_def nblocks_def)

lemma created_file_at:
  assumes V: "fs_env_ok V" and "inodes_ok V s'" "handles_ok s" "handle_view s' = handle_view s" "fresh_ino s ino" "no_stale_handles s"
    "stored_attr V s' ino = Some ((file_attr_of_create t ca)\<lparr>a_ino := ino\<rparr>)" "new_content V parent ino RegularFile s'"
  shows "file_at V s' ino [] 0"
proof -
  have "handles_ok s'" using assms(3,4) by (simp add: handles_ok_def handle_view_def)
  moreover have "f_opened_read s' ino = None" "f_opened_write s' ino = None"
    using assms(4,5,6) by (simp_all add: no_stale_handles_def fresh_ino_def handle_view_def)
  moreover obtain obj where "st_contents (f_store s') ino = Some (CFile obj)" "st_objs (f_store s') obj = []"
    using assms(8) by (auto simp: new_content_def)
  ultimately show ?thesis using assms(2,7) enc_file_empty [OF v_aead_ok [OF V]] by (simp add: file_at_def file_attr_of_create_def)
qed

lemma fs_new_handles:
  assumes "fs_new V uid gid st key now rng = Inr s"
  shows "handle_view s = (Map.empty, Map.empty, Map.empty, Map.empty, 1)"
proof -
  let ?I = "\<lambda>s. handle_view s = (Map.empty, Map.empty, Map.empty, Map.empty, 1)"
  have "fs_inv V ?I" by (rule view_inv) simp
  note p = fs_inv.pres_ensure_root [OF this, of uid gid]
  show ?thesis using assms by (auto simp: fs_new_def Let_def handle_view_def split: prod.splits sum.splits dest!: presD [OF p])
qed

subsection \<open>A concrete instance\<close>

definition sample_create :: create_file_attr where
  "sample_create = \<lparr>c_kind = RegularFile, c_perm = 420, c_uid = 0, c_gid = 0, c_rdev = 0, c_flags = 0\<rparr>"

lemma sample_new:
  assumes "key_ok sample_fs key"
  obtains s where "fs_new sample_fs 0 0 empty_store key 1000 0 = Inr s" "jinv sample_fs {} {} s" "is_dir s ROOT_INODE"
    "ino_exists s ROOT_INODE" "no_orphans s" "no_stale_handles s" "\<exists>k < v_fuel sample_fs. fresh_ino s (v_rand sample_fs (f_rng s + k))"
    "hash_of (f_store s) ROOT_INODE (hash_file_name (v_crypto sample_fs) ''a'') = None"
    "hash_of (f_store s) ROOT_INODE (hash_file_name (v_crypto sample_fs) ''b'') = None"
proof -
  have e: "st_inodes empty_store = Map.empty" "st_contents empty_store = Map.empty" by (simp_all add: empty_store_def)
  obtain s where s: "fs_new sample_fs 0 0 empty_store key 1000 0 = Inr s" "jinv sample_fs {} {} s" "is_dir s ROOT_INODE"
    "ino_exists s ROOT_INODE" "\<forall>i. ino_exists s i \<longrightarrow> i = ROOT_INODE"
    "\<forall>hn. hn \<noteq> hash_file_name (v_crypto sample_fs) ''$.'' \<longrightarrow> hash_of (f_store s) ROOT_INODE hn = None"
    "\<forall>i. i \<noteq> ROOT_INODE \<longrightarrow> st_contents (f_store s) i = None"
    by (rule fs_new_first [OF sample_fs_ok assms e, of 0 0 1000 0]) (rule that; assumption)
  have "hash_file_name sample_crypto ''a'' \<noteq> hash_file_name sample_crypto ''$.''" by code_simp
  moreover have "hash_file_name sample_crypto ''b'' \<noteq> hash_file_name sample_crypto ''$.''" by code_simp
  moreover have "no_stale_handles s" using fs_new_handles [OF s(1)] by (simp add: no_stale_handles_def handle_view_def)
  moreover have "fresh_ino s (v_rand sample_fs (f_rng s + 0))" using s(5) by (auto simp: fresh_ino_def ROOT_INODE_def)
  then have "\<exists>k < v_fuel sample_fs. fresh_ino s (v_rand sample_fs (f_rng s + k))" by (intro exI [of _ 0]) simp
  moreover have "no_orphans s" unfolding no_orphans_def using s(4,7) by metis
  ultimately show thesis using that [OF s(1-4)] s(6) by simp
qed


lemma sample_created:
  assumes "key_ok sample_fs key"
  obtains s0 ino s enc where "fs_new sample_fs 0 0 empty_store key 1000 0 = Inr s0"
    "create sample_fs ROOT_INODE ''a'' sample_create False False s0 =
       (Inr (0, (file_attr_of_create (f_time s0) sample_create)\<lparr>a_ino := ino\<rparr>), s)"
    "file_at sample_fs s ino [] 0" "jinv sample_fs {} {} s"
    "dir_lookup sample_fs s ROOT_INODE (hash_file_name (v_crypto sample_fs) ''a'') = Some (ino, RegularFile, enc)" "ino_exists s ROOT_INODE" "is_dir s ROOT_INODE"
    "has_entry sample_fs s ROOT_INODE (hash_file_name (v_crypto sample_fs) ''a'') ino RegularFile" "ino \<noteq> ROOT_INODE"
    "stored_attr sample_fs s ino = Some ((file_attr_of_create (f_time s0) sample_create)\<lparr>a_ino := ino\<rparr>)"
    "hash_of (f_store s) ROOT_INODE (hash_file_name (v_crypto sample_fs) ''b'') = None"
proof -
  obtain s0 where s0: "fs_new sample_fs 0 0 empty_store key 1000 0 = Inr s0" "jinv sample_fs {} {} s0" "is_dir s0 ROOT_INODE"
    "ino_exists s0 ROOT_INODE" "no_orphans s0" "no_stale_handles s0" "\<exists>k < v_fuel sample_fs. fresh_ino s0 (v_rand sample_fs (f_rng s0 + k))"
    "hash_of (f_store s0) ROOT_INODE (hash_file_name (v_crypto sample_fs) ''a'') = None"
    "hash_of (f_store s0) ROOT_INODE (hash_file_name (v_crypto sample_fs) ''b'') = None" by (rule sample_new [OF assms])
  have i0: "inodes_ok sample_fs s0" "handles_ok s0" using s0(2) by (simp_all add: jinv_def hinv_def)
  have ab: "hash_file_name (v_crypto sample_fs) ''b'' \<noteq> hash_file_name (v_crypto sample_fs) ''a''" by code_simp
  have n: "''a'' \<noteq> ''.''" "''a'' \<noteq> ''..''" by simp_all
  have k: "c_kind sample_create = RegularFile" by (simp add: sample_create_def)
  obtain ino s enc where s: "create sample_fs ROOT_INODE ''a'' sample_create False False s0 =
       (Inr (0, (file_attr_of_create (f_time s0) sample_create)\<lparr>a_ino := ino\<rparr>), s)" "fresh_ino s0 ino" "inodes_ok sample_fs s"
    "handle_view s = handle_view s0" "stored_attr sample_fs s ino = Some ((file_attr_of_create (f_time s0) sample_create)\<lparr>a_ino := ino\<rparr>)"
    "dir_lookup sample_fs s ROOT_INODE (hash_file_name (v_crypto sample_fs) ''a'') = Some (ino, RegularFile, enc)"
    "new_content sample_fs ROOT_INODE ino RegularFile s" "ino_exists s = (ino_exists s0)(ino := True)" "is_dir s ROOT_INODE"
    "has_entry sample_fs s ROOT_INODE (hash_file_name (v_crypto sample_fs) ''a'') ino RegularFile"
    "\<forall>m. m \<noteq> hash_file_name (v_crypto sample_fs) ''a'' \<longrightarrow> hash_of (f_store s) ROOT_INODE m = hash_of (f_store s0) ROOT_INODE m"
    by (rule create_ok [OF sample_fs_ok i0(1) s0(4,3) n s0(8,5,7), of sample_create, unfolded k]) (rule that; assumption)
  have "file_at sample_fs s ino [] 0" by (rule created_file_at [OF sample_fs_ok s(3) i0(2) s(4,2) s0(6) s(5,7)])
  with that [OF s0(1) s(1) _ presD [OF pres_create s(1) s0(2)] s(6) _ s(9,10) _ s(5)] s(2,8,11) s0(4,9) ab show thesis by (auto simp: fresh_ino_def)
qed


lemma create_steps: "create V parent name ca rd wr s = (r, s') \<Longrightarrow> (fs_step V)\<^sup>*\<^sup>* s s'"
  by (rule r_into_rtranclp) (rule step_create)

lemma open_steps: "fs_open V ino rd wr s = (r, s') \<Longrightarrow> (fs_step V)\<^sup>*\<^sup>* s s'"
  by (rule r_into_rtranclp) (rule step_open)

lemma sample_inode_files: "inode_files_ok sample_fs sample_key empty_store"
  by (simp add: inode_files_ok_def empty_store_def)

subsection \<open>Reachable states\<close>





text \<open>
  A handle number is never used twice: whatever happens after an open has returned a handle, a
  later open returns a larger number.
\<close>

theorem handle_numbers_never_reused:
  assumes "fs_open V ino rd wr s1 = (Inr h, s2)" "(fs_step V)\<^sup>*\<^sup>* s2 s3" "fs_open V ino' rd' wr' s3 = (Inr h', s4)"
  shows "h < h'"
  using open_number(2) [OF assms(1)] cur_steps [OF assms(2)] open_number(1) [OF assms(3)] by simp

theorem handle_numbers_never_reused_witness:
  "\<exists>s1 s2 s3 s4 ino h h'. fs_open sample_fs ino False True s1 = (Inr h, s2) \<and> fs_release sample_fs h s2 = (Inr (), s3)
     \<and> fs_open sample_fs ino False True s3 = (Inr h', s4) \<and> h < h'"
proof -
  obtain s0 ino s enc where "fs_new sample_fs 0 0 empty_store sample_key 1000 0 = Inr s0" and s: "file_at sample_fs s ino [] 0"
    by (rule sample_created [OF key_ok_sample])
  obtain h s1 where h: "fs_open sample_fs ino False True s = (Inr h, s1)" "writing sample_fs s1 h ino [] 0 0"
    by (rule open_write_ok [OF sample_fs_ok s])
  obtain s2 where s2: "fs_release sample_fs h s1 = (Inr (), s2)" "file_at sample_fs s2 ino [] 0" by (rule release_write_ok [OF sample_fs_ok h(2)])
  obtain h' s3 where h': "fs_open sample_fs ino False True s2 = (Inr h', s3)" "writing sample_fs s3 h' ino [] 0 0"
    by (rule open_write_ok [OF sample_fs_ok s2(2)])
  have "(fs_step sample_fs)\<^sup>*\<^sup>* s1 s2" using step_release [OF s2(1)] by (rule r_into_rtranclp)
  from handle_numbers_never_reused [OF h(1) this h'(1)] h(1) s2(1) h'(1) show ?thesis by blast
qed


subsection \<open>Life of a file\<close>

text \<open>
  C13: creating a node with a free name succeeds, gives it a number no inode has, and the name is found
  afterwards with exactly the requested attributes; every other entry of every directory is what it
  was. A new file is empty; a new directory has an entry for itself and one for its parent.
\<close>

theorem create_then_find:
  assumes "fs_env_ok V" "inodes_ok V s" "ino_exists s parent" "is_dir s parent" "name \<noteq> ''.''" "name \<noteq> ''..''"
    and "hash_of (f_store s) parent (hash_file_name (v_crypto V) name) = None"
    and "no_orphans s" "\<exists>k < v_fuel V. fresh_ino s (v_rand V (f_rng s + k))"
  shows "\<exists>ino s'. create V parent name ca False False s = (Inr (0, (file_attr_of_create (f_time s) ca)\<lparr>a_ino := ino\<rparr>), s')
    \<and> \<not> ino_exists s ino \<and> ROOT_INODE < ino
    \<and> result_of (find_by_name V parent name s') = Inr (Some ((file_attr_of_create (f_time s) ca)\<lparr>a_ino := ino\<rparr>))
    \<and> (\<forall>d m. d \<noteq> ino \<and> (d, m) \<noteq> (parent, hash_file_name (v_crypto V) name) \<longrightarrow> dir_lookup V s' d m = dir_lookup V s d m)
    \<and> new_content V parent ino (c_kind ca) s'"
proof -
  obtain ino s' enc where c: "create V parent name ca False False s = (Inr (0, (file_attr_of_create (f_time s) ca)\<lparr>a_ino := ino\<rparr>), s')"
    "fresh_ino s ino" "inodes_ok V s'" "is_dir s' parent" "ino_exists s' = (ino_exists s)(ino := True)"
    "stored_attr V s' ino = Some ((file_attr_of_create (f_time s) ca)\<lparr>a_ino := ino\<rparr>)"
    "dir_lookup V s' parent (hash_file_name (v_crypto V) name) = Some (ino, c_kind ca, enc)"
    "\<forall>d m. d \<noteq> ino \<longrightarrow> (d, m) \<noteq> (parent, hash_file_name (v_crypto V) name) \<longrightarrow> dir_lookup V s' d m = dir_lookup V s d m"
    "new_content V parent ino (c_kind ca) s'"
    by (rule create_ok [OF assms]) (rule that; assumption)
  have "ino_exists s' parent" using c(5) assms(3) by simp
  with find_by_name_ok [OF c(3) _ c(4,7,6)] c show ?thesis by (auto simp: fresh_ino_def)
qed

theorem create_then_find_witness:
  "\<exists>s s' ino. create sample_fs ROOT_INODE ''a'' sample_create False False s =
       (Inr (0, (file_attr_of_create (f_time s) sample_create)\<lparr>a_ino := ino\<rparr>), s')
     \<and> result_of (find_by_name sample_fs ROOT_INODE ''a'' s') = Inr (Some ((file_attr_of_create (f_time s) sample_create)\<lparr>a_ino := ino\<rparr>))"
proof -
  obtain s where s: "jinv sample_fs {} {} s" "is_dir s ROOT_INODE" "ino_exists s ROOT_INODE" "no_orphans s"
    "\<exists>k < v_fuel sample_fs. fresh_ino s (v_rand sample_fs (f_rng s + k))"
    "hash_of (f_store s) ROOT_INODE (hash_file_name (v_crypto sample_fs) ''a'') = None" by (rule sample_new [OF key_ok_sample])
  have i: "inodes_ok sample_fs s" using s(1) by (simp add: jinv_def)
  show ?thesis using create_then_find [OF sample_fs_ok i s(3,2) _ _ s(6,4,5), of sample_create] by auto
qed



end
