(* ===== verification/Fs_Remove.thy ===== *)
theory Fs_Remove
  imports Fs_Files
begin

text \<open>
  Removing files, and what removal leaves behind: the name is gone, the inode file and the content
  are gone, but the attribute cache and the handles still know the file.
\<close>

subsection \<open>Steps\<close>

lemma has_entry_contents:
  "st_contents (f_store s') d = st_contents (f_store s) d \<Longrightarrow> f_key s' = f_key s \<Longrightarrow> has_entry V s' d = has_entry V s d"
  using dir_lookup_contents [of s' d s V] by (simp add: has_entry_def ls_of_def fun_eq_iff cong: option.case_cong)

lemma find_for_removal_ok:
  assumes "inodes_ok V s" "ino_exists s parent" "is_dir s parent" "dir_lookup V s parent (hash_file_name (v_crypto V) name) = Some (ino, k, enc)"
    "stored_attr V s ino = Some a"
  shows "find_for_removal V parent name s = (Inr a, s\<lparr>f_attr_cache := (f_attr_cache s)(ino \<mapsto> a)\<rparr>)"
proof -
  have ex: "exists_by_name V parent name s = (Inr True, s)" using exists_by_name_eq [OF assms(2,3)] dir_lookup_hash [OF assms(4)] by simp
  show ?thesis using assms(3) ex find_by_name_ok [OF assms] by (simp add: find_for_removal_def bnd_def)
qed

text \<open>The state after inode file and content of a file are gone.\<close>

definition without_file :: "nat \<Rightarrow> encrypted_fs \<Rightarrow> encrypted_fs" where
  "without_file ino s = s\<lparr>f_store := (f_store s)\<lparr>st_inodes := (st_inodes (f_store s))(ino := None),
     st_contents := (st_contents (f_store s))(ino := None)\<rparr>\<rparr>"

lemma without_file_ok:
  assumes "fs_env_ok V" "inodes_ok V s"
  shows "inodes_ok V (without_file ino s)" "stored_attr V (without_file ino s) = (stored_attr V s)(ino := None)"
    "ino_exists (without_file ino s) i = (i \<noteq> ino \<and> ino_exists s i)"
proof -
  let ?t = "s\<lparr>f_store := (f_store s)\<lparr>st_inodes := (st_inodes (f_store s))(ino := None)\<rparr>\<rparr>"
  have "inodes_ok V ?t" using inodes.inv_remove [of V s ino] assms by simp
  then show "inodes_ok V (without_file ino s)" "stored_attr V (without_file ino s) = (stored_attr V s)(ino := None)"
    "ino_exists (without_file ino s) i = (i \<noteq> ino \<and> ino_exists s i)"
    using inodes_ok_cong [of "without_file ino s" ?t] removed_inode(1) [of V s ino] removed_inode(2) [of s ino i]
    by (simp_all add: without_file_def)
qed

text \<open>Taking the entry of a node whose inode file and content are gone out of its directory.\<close>

lemma unlink_without:
  assumes V: "fs_env_ok V" "inodes_ok V s" and p: "ino_exists s parent" "is_dir s parent" "ino \<noteq> parent"
    and ent: "has_entry V s parent (hash_file_name (v_crypto V) name) ino k"
  obtains s' where "unlink_entry V parent name ino (without_file ino s) = (Inr (), s')" "inodes_ok V s'" "handle_view s' = handle_view s"
    "ino_exists s' = (ino_exists s)(ino := False)" "st_contents (f_store s') ino = None" "is_dir s' = (is_dir s)(ino := False)"
    "hash_of (f_store s') parent (hash_file_name (v_crypto V) name) = None"
    "\<forall>d m. d \<noteq> ino \<longrightarrow> (d, m) \<noteq> (parent, hash_file_name (v_crypto V) name) \<longrightarrow> dir_lookup V s' d m = dir_lookup V s d m"
    "dir_lookup V s' ino = (\<lambda>_. None)"
    "f_attr_cache s' ino = f_attr_cache s ino" "st_objs (f_store s') = st_objs (f_store s)" "f_key s' = f_key s"
proof -
  let ?hn = "hash_file_name (v_crypto V) name" and ?s3 = "without_file ino s"
  note w = without_file_ok [OF V, of ino]
  have c3: "st_contents (f_store ?s3) parent = st_contents (f_store s) parent" "f_key ?s3 = f_key s" using p(3) by (simp_all add: without_file_def)
  have ent3: "has_entry V ?s3 parent ?hn ino k" using ent has_entry_contents [OF c3, of V] by simp
  obtain s4 enc' where s4: "remove_directory_entry V parent name ?s3 = (Inr (), s4)"
    "s4 = ?s3\<lparr>f_store := st_del_ls parent enc' (st_del_hash parent ?hn (f_store ?s3))\<rparr>"
    by (rule remove_directory_entry_ok [OF ent3])
  have i4: "inodes_ok V s4" "stored_attr V s4 = stored_attr V ?s3" "ino_exists s4 = ino_exists ?s3"
    using inodes_ok_cong [of s4 ?s3] w(1) s4(2) by simp_all
  obtain pa where pa: "stored_attr V s4 parent = Some pa" using V(2) p(1,3) i4(2) w(2) by (auto simp: inodes_ok_def)
  obtain s5 where s5: "touch_dir V parent s4 = (Inr (), s5)" "inodes_ok V s5" "same_but_meta s4 s5" "ino_exists s5 = ino_exists s4"
    "\<forall>i. i \<noteq> parent \<longrightarrow> f_attr_cache s5 i = f_attr_cache s4 i"
    by (rule touch_dir_ok [OF V(1) i4(1) pa]) (rule that; assumption)
  note m = same_but_metaD [OF s5(3)]
  have nd: "\<not> st_is_dir (f_store ?s3) ino" by (simp add: st_is_dir_def without_file_def)
  have l4: "dir_lookup V s4 d x = (if d = parent \<and> x = ?hn then None else dir_lookup V ?s3 d x)" for d x
    by (rule dir_lookup_del) (simp_all add: s4(2))
  have l3: "dir_lookup V ?s3 d = (if d = ino then \<lambda>_. None else dir_lookup V s d)" for d
    using dir_lookup_contents [of ?s3 d s V] by (auto simp: without_file_def dir_lookup_def hash_of_def)
  have l5: "dir_lookup V s5 = dir_lookup V s4" using dir_lookup_cong m(1,3) by blast
  show thesis
  proof (rule that)
    show "unlink_entry V parent name ino ?s3 = (Inr (), s5)" using s4(1) s5(1) by (simp add: unlink_entry_def demote_attr_def)
    show "inodes_ok V s5" by (rule s5(2))
    show "handle_view s5 = handle_view s" using handle_view_meta [OF s5(3)] s4(2) by (simp add: handle_view_def without_file_def)
    show "ino_exists s5 = (ino_exists s)(ino := False)" using s5(4) i4(3) w(3) by (auto simp: fun_eq_iff)
    show "st_contents (f_store s5) ino = None"
      using nd m(1) s4(2) st_upd_files [of "f_store ?s3" ino] by (simp add: st_upd_files) (simp add: without_file_def)
    have "is_dir ?s3 = (is_dir s)(ino := False)" by (auto simp: is_dir_def without_file_def fun_eq_iff)
    then show "is_dir s5 = (is_dir s)(ino := False)" using same_but_meta_is(1) [OF s5(3)] s4(2) by (simp add: is_dir_store fun_eq_iff)
    show "hash_of (f_store s5) parent ?hn = None" using m(1) s4(2) hash_of_del by (simp add: hash_of_def [of "f_store s5"] flip: hash_of_def)
    show "\<forall>d x. d \<noteq> ino \<longrightarrow> (d, x) \<noteq> (parent, ?hn) \<longrightarrow> dir_lookup V s5 d x = dir_lookup V s d x" using l3 l4 l5 by simp
    show "dir_lookup V s5 ino = (\<lambda>_. None)" using l3 l4 l5 p(3) by (simp add: fun_eq_iff)
    show "f_attr_cache s5 ino = f_attr_cache s ino" using s5(5) p(3) s4(2) by (simp add: without_file_def)
    show "st_objs (f_store s5) = st_objs (f_store s)" "f_key s5 = f_key s" using m(2,3) s4(2) by (simp_all add: without_file_def)
  qed
qed

lemma remove_file_ok:
  assumes V: "fs_env_ok V" "inodes_ok V s" and p: "ino_exists s parent" "is_dir s parent" "ino \<noteq> parent"
    and ent: "has_entry V s parent (hash_file_name (v_crypto V) name) ino k" and a: "stored_attr V s ino = Some a" "a_kind a = RegularFile"
    and c: "st_contents (f_store s) ino = Some (CFile obj)"
  obtains s' where "remove_file V parent name s = (Inr (), s')" "inodes_ok V s'" "handle_view s' = handle_view s"
    "ino_exists s' = (ino_exists s)(ino := False)" "st_contents (f_store s') ino = None" "is_dir s' = is_dir s"
    "hash_of (f_store s') parent (hash_file_name (v_crypto V) name) = None"
    "\<forall>d m. (d, m) \<noteq> (parent, hash_file_name (v_crypto V) name) \<longrightarrow> dir_lookup V s' d m = dir_lookup V s d m"
    "f_attr_cache s' ino = Some a" "st_objs (f_store s') = st_objs (f_store s)" "f_key s' = f_key s"
proof -
  obtain enc where e: "dir_lookup V s parent (hash_file_name (v_crypto V) name) = Some (ino, k, enc)" using ent by (auto simp: has_entry_def)
  let ?s1 = "s\<lparr>f_attr_cache := (f_attr_cache s)(ino \<mapsto> a)\<rparr>"
  have find: "find_for_removal V parent name s = (Inr a, ?s1)" by (rule find_for_removal_ok [OF V(2) p(1,2) e a(1)])
  have i1: "inodes_ok V ?s1" "ino_exists ?s1 = ino_exists s" "is_dir ?s1 = is_dir s" "handle_view ?s1 = handle_view s"
    using inodes_ok_cache [OF V(2) a(1)] by (simp_all add: is_dir_store handle_view_def fun_eq_iff)
  have l1: "dir_lookup V ?s1 = dir_lookup V s" "has_entry V ?s1 = has_entry V s"
    using dir_lookup_cong [of ?s1 s V] has_entry_cong [of ?s1 s V] by simp_all
  obtain s' where s': "unlink_entry V parent name ino (without_file ino ?s1) = (Inr (), s')" "inodes_ok V s'" "handle_view s' = handle_view ?s1"
    "ino_exists s' = (ino_exists ?s1)(ino := False)" "st_contents (f_store s') ino = None" "is_dir s' = (is_dir ?s1)(ino := False)"
    "hash_of (f_store s') parent (hash_file_name (v_crypto V) name) = None"
    "\<forall>d m. d \<noteq> ino \<longrightarrow> (d, m) \<noteq> (parent, hash_file_name (v_crypto V) name) \<longrightarrow> dir_lookup V s' d m = dir_lookup V ?s1 d m"
    "dir_lookup V s' ino = (\<lambda>_. None)"
    "f_attr_cache s' ino = f_attr_cache ?s1 ino" "st_objs (f_store s') = st_objs (f_store ?s1)" "f_key s' = f_key ?s1"
    by (rule unlink_without [OF V(1) i1(1), of parent ino name k]) (use p ent i1(2,3) l1 that in simp_all)
  have ai: "a_ino a = ino" using V(2) a(1) stored_attr_exists [OF a(1)] by (auto simp: inodes_ok_def)
  have "remove_file V parent name s = (Inr (), s')"
    using find a(2) ai s'(1) c stored_attr_exists [OF a(1)]
    by (auto simp: remove_file_def remove_ino_file_def remove_content_file_def without_file_def ino_exists_def)
  moreover have "is_dir s' = is_dir s" using s'(6) i1(3) c by (auto simp: is_dir_def fun_eq_iff)
  moreover have "dir_lookup V s ino = (\<lambda>_. None)" using c by (simp add: dir_lookup_def hash_of_def fun_eq_iff)
  then have "\<forall>d m. (d, m) \<noteq> (parent, hash_file_name (v_crypto V) name) \<longrightarrow> dir_lookup V s' d m = dir_lookup V s d m"
    using s'(8,9) l1(1) by metis
  ultimately show thesis using that [of s'] s'(2-5,7,10-12) i1(2,4) by simp
qed

subsection \<open>Properties\<close>

text \<open>
  C16: removing a file succeeds, its name is no longer found, its inode file and its content are gone,
  and every other entry of every directory, every other inode and every handle is what it was.
\<close>

theorem remove_file_unlinks:
  assumes "fs_env_ok V" "inodes_ok V s" "ino_exists s parent" "is_dir s parent" "ino \<noteq> parent"
    and "has_entry V s parent (hash_file_name (v_crypto V) name) ino k" "stored_attr V s ino = Some a" "a_kind a = RegularFile"
    and "st_contents (f_store s) ino = Some (CFile obj)"
  shows "\<exists>s'. remove_file V parent name s = (Inr (), s') \<and> find_by_name V parent name s' = (Inr None, s')
    \<and> (\<forall>i. ino_exists s' i \<longleftrightarrow> i \<noteq> ino \<and> ino_exists s i) \<and> st_contents (f_store s') ino = None
    \<and> (\<forall>d m. (d, m) \<noteq> (parent, hash_file_name (v_crypto V) name) \<longrightarrow> dir_lookup V s' d m = dir_lookup V s d m)
    \<and> handle_view s' = handle_view s"
proof -
  obtain s' where s': "remove_file V parent name s = (Inr (), s')" "handle_view s' = handle_view s"
    "ino_exists s' = (ino_exists s)(ino := False)" "st_contents (f_store s') ino = None" "is_dir s' = is_dir s"
    "hash_of (f_store s') parent (hash_file_name (v_crypto V) name) = None"
    "\<forall>d m. (d, m) \<noteq> (parent, hash_file_name (v_crypto V) name) \<longrightarrow> dir_lookup V s' d m = dir_lookup V s d m"
    by (rule remove_file_ok [OF assms]) (rule that; assumption)
  have "find_by_name V parent name s' = (Inr None, s')" by (rule find_by_name_none) (use s'(3,5,6) assms(3,4,5) in simp_all)
  with s' show ?thesis by (intro exI [of _ s']) auto
qed

lemma sample_removable:
  obtains s ino a obj where "inodes_ok sample_fs s" "ino_exists s ROOT_INODE" "is_dir s ROOT_INODE" "ino \<noteq> ROOT_INODE"
    "has_entry sample_fs s ROOT_INODE (hash_file_name (v_crypto sample_fs) ''a'') ino RegularFile" "stored_attr sample_fs s ino = Some a"
    "a_kind a = RegularFile" "st_contents (f_store s) ino = Some (CFile obj)" "file_at sample_fs s ino [] 0"
proof -
  obtain s0 ino s enc where s: "fs_new sample_fs 0 0 empty_store sample_key 1000 0 = Inr s0" "file_at sample_fs s ino [] 0" "jinv sample_fs {} {} s"
    "ino_exists s ROOT_INODE" "is_dir s ROOT_INODE"
    "has_entry sample_fs s ROOT_INODE (hash_file_name (v_crypto sample_fs) ''a'') ino RegularFile" "ino \<noteq> ROOT_INODE"
    "stored_attr sample_fs s ino = Some ((file_attr_of_create (f_time s0) sample_create)\<lparr>a_ino := ino\<rparr>)"
    by (rule sample_created [OF key_ok_sample]) (rule that; assumption)
  obtain obj where "st_contents (f_store s) ino = Some (CFile obj)" using s(2) by (auto simp: file_at_def)
  with that [OF _ s(4,5,7,6,8) _ _ s(2)] s(3) show thesis by (simp add: jinv_def file_attr_of_create_def sample_create_def)
qed

theorem remove_file_unlinks_witness:
  "\<exists>s s'. ino_exists s ROOT_INODE \<and> remove_file sample_fs ROOT_INODE ''a'' s = (Inr (), s')
     \<and> find_by_name sample_fs ROOT_INODE ''a'' s' = (Inr None, s')"
proof -
  obtain s ino a obj where s: "inodes_ok sample_fs s" "ino_exists s ROOT_INODE" "is_dir s ROOT_INODE" "ino \<noteq> ROOT_INODE"
    "has_entry sample_fs s ROOT_INODE (hash_file_name (v_crypto sample_fs) ''a'') ino RegularFile" "stored_attr sample_fs s ino = Some a"
    "a_kind a = RegularFile" "st_contents (f_store s) ino = Some (CFile obj)" by (rule sample_removable)
  show ?thesis using remove_file_unlinks [OF sample_fs_ok s] s(2) by blast
qed

text \<open>
  C17: a directory is removed only when it is empty. If it holds entries besides its own the answer is
  \<open>NotEmpty\<close>, and stored data and handles are untouched. Otherwise the removal succeeds: the name is no
  longer found, inode file and content are gone, and every entry of every other directory stays.
\<close>

theorem remove_dir_only_empty:
  assumes V: "fs_env_ok V" "inodes_ok V s" and p: "ino_exists s parent" "is_dir s parent" "ino \<noteq> parent"
    and ent: "has_entry V s parent (hash_file_name (v_crypto V) name) ino k" and a: "stored_attr V s ino = Some a" "a_kind a = Directory"
    and c: "st_contents (f_store s) ino = Some (CDir l h)" "ino \<noteq> ROOT_INODE" "2 \<le> length l" "length l < 2 ^ 64"
  shows "\<exists>s'. handle_view s' = handle_view s \<and> (if 2 < length l then remove_dir V parent name s = (Inl NotEmpty, s') \<and> f_store s' = f_store s
    else remove_dir V parent name s = (Inr (), s') \<and> find_by_name V parent name s' = (Inr None, s')
      \<and> (\<forall>i. ino_exists s' i \<longleftrightarrow> i \<noteq> ino \<and> ino_exists s i) \<and> st_contents (f_store s') ino = None
      \<and> (\<forall>d m. d \<noteq> ino \<and> (d, m) \<noteq> (parent, hash_file_name (v_crypto V) name) \<longrightarrow> dir_lookup V s' d m = dir_lookup V s d m))"
proof -
  obtain enc where e: "dir_lookup V s parent (hash_file_name (v_crypto V) name) = Some (ino, k, enc)" using ent by (auto simp: has_entry_def)
  let ?s1 = "s\<lparr>f_attr_cache := (f_attr_cache s)(ino \<mapsto> a)\<rparr>"
  have find: "find_for_removal V parent name s = (Inr a, ?s1)" by (rule find_for_removal_ok [OF V(2) p(1,2) e a(1)])
  have i1: "inodes_ok V ?s1" "ino_exists ?s1 = ino_exists s" "is_dir ?s1 = is_dir s" "handle_view ?s1 = handle_view s"
    using inodes_ok_cache [OF V(2) a(1)] by (simp_all add: is_dir_store handle_view_def fun_eq_iff)
  have l1: "dir_lookup V ?s1 = dir_lookup V s" "has_entry V ?s1 = has_entry V s"
    using dir_lookup_cong [of ?s1 s V] has_entry_cong [of ?s1 s V] by simp_all
  have ai: "a_ino a = ino" using V(2) a(1) stored_attr_exists [OF a(1)] by (auto simp: inodes_ok_def)
  have len: "fs_len ino ?s1 = (Inr (length l - 2), ?s1)" using c by (simp add: fs_len_def)
  show ?thesis
  proof (cases "2 < length l")
    case True
    then have "remove_dir V parent name s = (Inl NotEmpty, ?s1)" using find a(2) ai len by (simp add: remove_dir_def)
    with True i1(4) show ?thesis by (intro exI [of _ ?s1]) simp
  next
    case False
    obtain s' where s': "unlink_entry V parent name ino (without_file ino ?s1) = (Inr (), s')" "handle_view s' = handle_view ?s1"
      "ino_exists s' = (ino_exists ?s1)(ino := False)" "st_contents (f_store s') ino = None" "is_dir s' = (is_dir ?s1)(ino := False)"
      "hash_of (f_store s') parent (hash_file_name (v_crypto V) name) = None"
      "\<forall>d m. d \<noteq> ino \<longrightarrow> (d, m) \<noteq> (parent, hash_file_name (v_crypto V) name) \<longrightarrow> dir_lookup V s' d m = dir_lookup V ?s1 d m"
      by (rule unlink_without [OF V(1) i1(1), of parent ino name k]) (use p ent i1(2,3) l1 that in simp_all)
    have "remove_dir V parent name s = (Inr (), s')"
      using find a(2) ai len False s'(1) c stored_attr_exists [OF a(1)]
      by (auto simp: remove_dir_def remove_ino_file_def remove_content_dir_def without_file_def ino_exists_def)
    moreover have "find_by_name V parent name s' = (Inr None, s')"
      by (rule find_by_name_none) (use s'(3,5,6) i1(2,3) p in simp_all)
    ultimately show ?thesis using False s'(2-4,7) i1(2,4) l1(1) by (intro exI [of _ s']) simp
  qed
qed

theorem remove_dir_only_empty_witness:
  "\<exists>s ino s'. is_dir s ino \<and> remove_dir sample_fs ROOT_INODE ''a'' s = (Inr (), s') \<and> find_by_name sample_fs ROOT_INODE ''a'' s' = (Inr None, s')"
proof -
  obtain s0 where s0: "jinv sample_fs {} {} s0" "is_dir s0 ROOT_INODE" "ino_exists s0 ROOT_INODE" "no_orphans s0"
    "\<exists>k < v_fuel sample_fs. fresh_ino s0 (v_rand sample_fs (f_rng s0 + k))"
    "hash_of (f_store s0) ROOT_INODE (hash_file_name (v_crypto sample_fs) ''a'') = None"
    by (rule sample_new [OF key_ok_sample]) (rule that; assumption)
  let ?ca = "sample_create\<lparr>c_kind := Directory\<rparr>"
  have i0: "inodes_ok sample_fs s0" using s0(1) by (simp add: jinv_def)
  have n: "''a'' \<noteq> ''.''" "''a'' \<noteq> ''..''" by simp_all
  have k: "c_kind ?ca = Directory" by simp
  obtain ino s where s: "fresh_ino s0 ino" "inodes_ok sample_fs s" "is_dir s ROOT_INODE" "ino_exists s = (ino_exists s0)(ino := True)"
    "stored_attr sample_fs s ino = Some ((file_attr_of_create (f_time s0) ?ca)\<lparr>a_ino := ino\<rparr>)"
    "new_content sample_fs ROOT_INODE ino Directory s"
    "has_entry sample_fs s ROOT_INODE (hash_file_name (v_crypto sample_fs) ''a'') ino Directory"
    by (rule create_ok [OF sample_fs_ok i0 s0(3,2) n s0(6,4,5), of ?ca, unfolded k]) (rule that; assumption)
  obtain l h where c: "st_contents (f_store s) ino = Some (CDir l h)" "length l = 2" and d: "is_dir s ino"
    using s(6) by (auto simp: new_content_def)
  have x: "ino_exists s ROOT_INODE" "ino \<noteq> ROOT_INODE" using s(1,4) s0(3) by (auto simp: fresh_ino_def)
  have a: "a_kind ((file_attr_of_create (f_time s0) ?ca)\<lparr>a_ino := ino\<rparr>) = Directory" by (simp add: file_attr_of_create_def)
  have l: "2 \<le> length l" "length l < 2 ^ 64" "\<not> 2 < length l" using c(2) by simp_all
  from remove_dir_only_empty [OF sample_fs_ok s(2) x(1) s(3) x(2) s(7,5) a c(1) x(2) l(1,2)] l(3) d show ?thesis by auto
qed

text \<open>Setting attributes of an inode the cache knows writes its inode file, whether it exists or not.\<close>

lemma set_attr_cached:
  assumes V: "fs_env_ok V" "inodes_ok V s" and c: "f_attr_cache s ino = Some a" "a_ino a = ino"
  obtains s' where "set_attr V ino sa s = (Inr (), s')" "inodes_ok V s'" "ino_exists s' ino" "same_but_meta s s'"
    "\<forall>i. i \<noteq> ino \<longrightarrow> ino_exists s' i = ino_exists s i"
proof -
  define b where "b = (merge_attr (merge_open_handles s ino a) sa False)\<lparr>a_ctime := f_time s, a_atime := f_time s\<rparr>"
  let ?s = "s\<lparr>f_time := Suc (f_time s)\<rparr>"
  have i: "inodes_ok V ?s" using V(2) by (simp add: inodes_ok_def attr_cache_ok_def)
  have b: "a_ino b = ino" using c(2) by (simp add: b_def)
  obtain s' where s': "write_inode_to_storage V b ?s = (Inr (), s')" "inodes_ok V s'" "stored_attr V s' = (stored_attr V ?s)(ino \<mapsto> b)" "same_but_meta ?s s'"
    "\<forall>i. i \<noteq> ino \<longrightarrow> st_inodes (f_store s') i = st_inodes (f_store ?s) i"
    by (rule write_inode_ok [OF V(1) i, of b, unfolded b]) (rule that; assumption)
  have "set_attr V ino sa s = (Inr (), s')"
    using c(1) s'(1) by (simp add: set_attr_def set_attr2_def get_attr_def get_inode_from_cache_or_storage_def system_time_now_def b_def)
  moreover have "same_but_meta s ?s" by (simp add: same_but_meta_def)
  moreover have "ino_exists s' ino" using stored_attr_exists [of V s' ino] s'(3) by simp
  moreover have "\<forall>i. i \<noteq> ino \<longrightarrow> ino_exists s' i = ino_exists s i" using s'(5) by (simp add: ino_exists_def)
  ultimately show thesis using that s'(2) same_but_meta_trans [OF _ s'(4)] by blast
qed

text \<open>
  C39: a file that is removed while it is open for writing comes back as an inode without content.
  The removal deletes inode file, content and entry, but the attribute cache keeps the attributes;
  releasing the handle finds them there and writes the inode file anew. It succeeds, and leaves an
  inode that no entry names and whose content does not exist.
\<close>

theorem released_after_removal:
  assumes V: "fs_env_ok V" and w: "writing V s h ino pt p sz"
    and p: "ino_exists s parent" "is_dir s parent" "ino \<noteq> parent"
    and ent: "has_entry V s parent (hash_file_name (v_crypto V) name) ino k" "stored_attr V s ino = Some a" "a_kind a = RegularFile"
  shows "\<exists>s1 s2. remove_file V parent name s = (Inr (), s1) \<and> \<not> ino_exists s1 ino \<and> fs_release V h s1 = (Inr (), s2)
    \<and> ino_exists s2 ino \<and> st_contents (f_store s2) ino = None \<and> find_by_name V parent name s2 = (Inr None, s2)"
proof -
  obtain ctx w0 where c: "f_write_handles s h = Some ctx" "wc_ino ctx = ino" "wc_writer ctx = Some w0"
    "ws_rel (v_aead V) (f_key s) w0 pt p" "w_refresh (st_objs (f_store s) (wc_obj ctx)) w0 = w0"
    "st_contents (f_store s) ino = Some (CFile (wc_obj ctx))" "inodes_ok V s" "handles_ok s" "f_opened_read s ino = None" "f_read_handles s h = None"
    using w unfolding writing_def by blast
  obtain s1 where s1: "remove_file V parent name s = (Inr (), s1)" "inodes_ok V s1" "handle_view s1 = handle_view s"
    "ino_exists s1 = (ino_exists s)(ino := False)" "st_contents (f_store s1) ino = None" "is_dir s1 = is_dir s"
    "hash_of (f_store s1) parent (hash_file_name (v_crypto V) name) = None" "f_attr_cache s1 ino = Some a"
    "st_objs (f_store s1) = st_objs (f_store s)" "f_key s1 = f_key s"
    by (rule remove_file_ok [OF V c(7) p ent c(6)]) (rule that; assumption)
  have v: "f_write_handles s1 = f_write_handles s" "f_read_handles s1 = f_read_handles s" "f_opened_read s1 = f_opened_read s"
    using s1(3) by (simp_all add: handle_view_def)
  let ?s1 = "s1\<lparr>f_write_handles := (f_write_handles s1)(h := None)\<rparr>"
  obtain ct w1 where f: "finish_writer V (wc_obj ctx) w0 ?s1 = (Inr w1, put_obj (wc_obj ctx) ct ?s1)"
    by (rule finish_writer_ok [of V ?s1 w0 pt p "wc_obj ctx"]) (use c(4,5) s1(9,10) that in simp_all)
  let ?s2 = "put_obj (wc_obj ctx) ct ?s1"
  have i2: "inodes_ok V ?s2" using inodes_ok_cong(1) [of ?s2 s1 V] s1(2) by (simp add: put_obj_def)
  have ai: "f_attr_cache ?s2 ino = Some a" "a_ino a = ino"
    using s1(8) c(7) ent(2) stored_attr_exists [OF ent(2)] by (auto simp: put_obj_def inodes_ok_def)
  obtain s3 where s3: "set_attr V ino (set_attr_of_times_and_size (wc_attr ctx)) ?s2 = (Inr (), s3)" "ino_exists s3 ino" "same_but_meta ?s2 s3"
    "\<forall>i. i \<noteq> ino \<longrightarrow> ino_exists s3 i = ino_exists ?s2 i"
    by (rule set_attr_cached [OF V i2 ai]) (rule that; assumption)
  note m = same_but_metaD [OF s3(3)]
  let ?s = "s3\<lparr>f_opened_write := (f_opened_write s3)(ino := None)\<rparr>"
  have reset: "reset_handles V ino (Some h) True ?s = (Inr (), ?s)"
    by (rule reset_handles_none) (use m(6) c(9) v(3) in \<open>simp_all add: put_obj_def\<close>)
  have "release_write V h s1 = (Inr True, ?s)"
    using c(1,2,3) v(1) f s3(1) reset
    by (simp add: release_write_def upd_write_handles [of "\<lambda>m. m(h := None)"] upd_opened_write [of "\<lambda>m. m(ino := None)"])
  moreover have "release_read V h s1 = (Inr False, s1)" using c(10) v(2) by (simp add: release_read_def)
  moreover have "0 < h" using handles_okD(2) [OF c(8,1)] by simp
  ultimately have rel: "fs_release V h s1 = (Inr (), ?s)" by (simp add: fs_release_def bnd_def)
  have ct: "st_contents (f_store ?s) = st_contents (f_store s1)" using m(1) by (simp add: put_obj_def)
  have "ino_exists s1 parent" using s1(4) p(1,3) by simp
  then have pe: "ino_exists ?s parent" using s3(4) p(3) by (simp add: ino_exists_def put_obj_def)
  have pd: "is_dir ?s parent" "hash_of (f_store ?s) parent (hash_file_name (v_crypto V) name) = None"
    using ct s1(6,7) p(2) by (simp_all add: is_dir_def hash_of_def flip: s1(6))
  have "find_by_name V parent name ?s = (Inr None, ?s)" by (rule find_by_name_none [OF pe pd])
  then show ?thesis using s1(1,4,5) rel s3(2) ct by auto
qed


theorem released_after_removal_witness:
  "\<exists>s h ino s1 s2. fs_open sample_fs ino False True s = (Inr h, s1) \<and> remove_file sample_fs ROOT_INODE ''a'' s1 = (Inr (), s2)
     \<and> \<not> ino_exists s2 ino \<and> ino_exists (state_of (fs_release sample_fs h s2)) ino"
proof -
  obtain s ino a obj where s: "ino_exists s ROOT_INODE" "is_dir s ROOT_INODE" "ino \<noteq> ROOT_INODE"
    "has_entry sample_fs s ROOT_INODE (hash_file_name (v_crypto sample_fs) ''a'') ino RegularFile" "stored_attr sample_fs s ino = Some a"
    "a_kind a = RegularFile" "file_at sample_fs s ino [] 0" by (rule sample_removable)
  obtain h s1 where h: "fs_open sample_fs ino False True s = (Inr h, s1)" "writing sample_fs s1 h ino [] 0 0"
    "f_store s1 = f_store s" "f_key s1 = f_key s" by (rule open_write_ok [OF sample_fs_ok s(7)])
  have e: "ino_exists s1 ROOT_INODE" "is_dir s1 ROOT_INODE" "stored_attr sample_fs s1 ino = Some a"
    "has_entry sample_fs s1 ROOT_INODE (hash_file_name (v_crypto sample_fs) ''a'') ino RegularFile"
    using s(1,2,4,5) h(3,4) stored_attr_cong [OF h(3,4)] has_entry_cong [of s1 s sample_fs] by (simp_all add: ino_exists_def is_dir_def)
  from released_after_removal [OF sample_fs_ok h(2) e(1,2) s(3) e(4,3) s(6)] h(1) show ?thesis by fastforce
qed


subsection \<open>Removing a directory through its own entry\<close>

text \<open>
  The names \<open>$.\<close> and \<open>$..\<close> under which a directory keeps its own entries are accepted from
  callers. Removing \<open>$.\<close> of an empty directory finds the directory itself, deletes its inode file
  and its content, and then fails because the directory it should take the entry from is gone; the
  entries of all other directories, including the one that names it, stay.
\<close>

theorem remove_dir_of_itself:
  assumes "fs_env_ok V" "inodes_ok V s" "ino_exists s d" "is_dir s d" "dir_lookup V s d ''$.'' = Some (d, k, enc)"
    and "stored_attr V s d = Some a" "a_kind a = Directory" "result_of (fs_len d s) = Inr 0"
  shows "\<exists>s'. remove_dir V d ''$.'' s = (Inl no_entry, s') \<and> \<not> ino_exists s' d \<and> st_contents (f_store s') d = None
    \<and> (\<forall>d'. d' \<noteq> d \<longrightarrow> dir_lookup V s' d' = dir_lookup V s d')"
proof -
  have hn: "hash_file_name (v_crypto V) ''$.'' = ''$.''" by (simp add: hash_file_name_def)
  let ?s1 = "s\<lparr>f_attr_cache := (f_attr_cache s)(d \<mapsto> a)\<rparr>" and ?s = "without_file d (s\<lparr>f_attr_cache := (f_attr_cache s)(d \<mapsto> a)\<rparr>)"
  have find: "find_for_removal V d ''$.'' s = (Inr a, ?s1)"
    by (rule find_for_removal_ok [OF assms(2-4) _ assms(6)]) (simp add: hn assms(5))
  have ai: "a_ino a = d" using assms(2,6) stored_attr_exists [OF assms(6)] by (auto simp: inodes_ok_def)
  have len: "fs_len d ?s1 = (Inr 0, ?s1)" using assms(4,8) by (auto simp: fs_len_def is_dir_def split: option.splits content.splits)
  have "remove_dir V d ''$.'' s = (Inl no_entry, ?s)"
    using find ai assms(3,4,7) len by (auto simp: remove_dir_def remove_ino_file_def remove_content_dir_def unlink_entry_def
      remove_directory_entry_def without_file_def ino_exists_def is_dir_def split: option.splits content.splits)
  moreover have "\<not> ino_exists ?s d" "st_contents (f_store ?s) d = None" by (simp_all add: without_file_def ino_exists_def)
  moreover have "dir_lookup V ?s d' = dir_lookup V s d'" if "d' \<noteq> d" for d'
    by (rule dir_lookup_contents) (use that in \<open>simp_all add: without_file_def\<close>)
  ultimately show ?thesis by blast
qed

lemma sample_root_empty: "result_of (fs_len ROOT_INODE sample_root) = Inr 0"
  by code_simp

theorem remove_dir_of_itself_witness:
  "\<exists>s'. remove_dir sample_fs ROOT_INODE ''$.'' sample_root = (Inl no_entry, s') \<and> \<not> ino_exists s' ROOT_INODE"
proof -
  have e: "st_inodes empty_store = Map.empty" "st_contents empty_store = Map.empty" by (simp_all add: empty_store_def)
  obtain s where s: "fs_new sample_fs 0 0 empty_store sample_key 1000 0 = Inr s" "jinv sample_fs {} {} s" "is_dir s ROOT_INODE"
    "ino_exists s ROOT_INODE" "has_entry sample_fs s ROOT_INODE (hash_file_name (v_crypto sample_fs) ''$.'') ROOT_INODE Directory"
    by (rule fs_new_first [OF sample_fs_ok key_ok_sample e, of 0 0 1000 0]) (rule that; assumption)
  have r: "sample_root = s" using s(1) by (simp add: sample_root_def)
  obtain a where a: "stored_attr sample_fs s ROOT_INODE = Some a" using s(2,4) by (auto simp: jinv_def inodes_ok_def)
  have "map_option a_kind (stored_attr sample_fs sample_root ROOT_INODE) = Some Directory" by code_simp
  then have k: "a_kind a = Directory" using a r by simp
  obtain enc where "dir_lookup sample_fs s ROOT_INODE ''$.'' = Some (ROOT_INODE, Directory, enc)"
    using s(5) by (auto simp: has_entry_def hash_file_name_def)
  with remove_dir_of_itself [OF sample_fs_ok _ s(4,3) _ a k] s(2) sample_root_empty r show ?thesis by (auto simp: jinv_def)
qed

end
