(* ===== verification/Fs_Rename.thy ===== *)
theory Fs_Rename
  imports Fs_Remove
begin

text \<open>Renaming: an entry moves, and what the code forgets on the way.\<close>

subsection \<open>Steps\<close>

lemma set_attr_ok:
  assumes V: "fs_env_ok V" "inodes_ok V s" and i: "ino_exists s ino"
  obtains s' where "set_attr V ino sa s = (Inr (), s')" "inodes_ok V s'" "same_but_meta s s'" "ino_exists s' = ino_exists s"
    "\<forall>i. map_option a_kind (stored_attr V s' i) = map_option a_kind (stored_attr V s i)"
proof -
  obtain a where a: "stored_attr V s ino = Some a" using V(2) i by (auto simp: inodes_ok_def)
  obtain s' where s': "set_attr2 V ino sa False s = (Inr (), s')" "inodes_ok V s'" "same_but_meta s s'" "ino_exists s' = ino_exists s"
    "stored_attr V s' = (stored_attr V s)(ino \<mapsto> (merge_attr (merge_open_handles s ino a) sa False)\<lparr>a_ctime := f_time s, a_atime := f_time s\<rparr>)"
    by (rule set_attr2_ok [OF V a]) (rule that; assumption)
  then show thesis using that [of s'] a by (simp add: set_attr_def)
qed

lemma rename_checks_ok:
  assumes "ino_exists s p" "is_dir s p" "ino_exists s p'" "is_dir s p'" "hash_of (f_store s) p (hash_file_name (v_crypto V) name) \<noteq> None"
  shows "rename_checks V p name p' s = (Inr (), s)"
  using assms exists_by_name_eq [OF assms(1,2), of V name] by (simp add: rename_checks_def bnd_def)

lemma fs_rename_ok:
  assumes V: "fs_env_ok V" "inodes_ok V s" and p: "ino_exists s p" "is_dir s p" and p': "ino_exists s p'" "is_dir s p'"
    and ent: "has_entry V s p (hash_file_name (v_crypto V) name) ino k" and a: "stored_attr V s ino = Some a" "a_kind a = RegularFile"
    and free: "hash_of (f_store s) p' (hash_file_name (v_crypto V) name') = None"
  obtains s' enc where "fs_rename V p name p' name' s = (Inr (), s')" "inodes_ok V s'" "ino_exists s' = ino_exists s" "is_dir s' = is_dir s"
    "dir_lookup V s' p' (hash_file_name (v_crypto V) name') = Some (ino, RegularFile, enc)"
    "hash_of (f_store s') p (hash_file_name (v_crypto V) name) = None"
    "\<forall>d m. (d, m) \<noteq> (p, hash_file_name (v_crypto V) name) \<longrightarrow> (d, m) \<noteq> (p', hash_file_name (v_crypto V) name')
       \<longrightarrow> dir_lookup V s' d m = dir_lookup V s d m" "handle_view s' = handle_view s"
proof -
  let ?hn = "hash_file_name (v_crypto V) name" and ?hn' = "hash_file_name (v_crypto V) name'"
  obtain enc where e: "dir_lookup V s p ?hn = Some (ino, k, enc)" using ent by (auto simp: has_entry_def)
  have h: "hash_of (f_store s) p ?hn \<noteq> None" by (rule dir_lookup_hash [OF e])
  have ne: "\<not> (p = p' \<and> name = name')" "(p, ?hn) \<noteq> (p', ?hn')" using h free by auto
  have ai: "a_ino a = ino" using V(2) a(1) stored_attr_exists [OF a(1)] by (auto simp: inodes_ok_def)
  have tgt: "check_target_empty V p' name' s = (Inr (), s)" using find_by_name_none [OF p' free] by (simp add: check_target_empty_def)
  let ?s1 = "s\<lparr>f_attr_cache := (f_attr_cache s)(ino \<mapsto> a)\<rparr>"
  have find: "find_by_name V p name s = (Inr (Some a), ?s1)" by (rule find_by_name_ok [OF V(2) p e a(1)])
  have i1: "inodes_ok V ?s1" by (rule inodes_ok_cache [OF V(2) a(1)])
  have ent1: "has_entry V ?s1 p ?hn ino k" using ent has_entry_cong [of ?s1 s V] by simp
  obtain s2 enc' where s2: "remove_directory_entry V p name ?s1 = (Inr (), s2)"
    "s2 = ?s1\<lparr>f_store := st_del_ls p enc' (st_del_hash p ?hn (f_store ?s1))\<rparr>"
    by (rule remove_directory_entry_ok [OF ent1])
  have i2: "inodes_ok V s2" "ino_exists s2 = ino_exists s" "is_dir s2 = is_dir s" "stored_attr V s2 = stored_attr V s"
    using inodes_ok_cong [of s2 ?s1] i1 s2(2) by (simp_all add: is_dir_store fun_eq_iff)
  have h2: "hash_of (f_store s2) d m = (if d = p \<and> m = ?hn then None else hash_of (f_store s) d m)" for d m
    using hash_of_del s2(2) by simp
  have l2: "dir_lookup V s2 d m = (if d = p \<and> m = ?hn then None else dir_lookup V s d m)" for d m
    using dir_lookup_del [of s2 p enc' ?hn ?s1 V d m] s2(2) dir_lookup_cong [of ?s1 s V] by simp
  have d2: "is_dir s2 p'" "ino_exists s2 p'" using i2(2,3) p' by simp_all
  have ex: "exists_by_name V p' name' s2 = (Inr False, s2)" using exists_by_name_eq [OF d2(2,1), of V name'] h2 free by simp
  obtain s3 enc3 where s3: "insert_directory_entry V p' \<lparr>de_ino = ino, de_name = name', de_kind = RegularFile\<rparr> s2 = (Inr (), s3)"
    "only_contents s2 s3" "dir_lookup V s3 p' ?hn' = Some (ino, RegularFile, enc3)"
    "\<forall>d m. (d, m) \<noteq> (p', ?hn') \<longrightarrow> dir_lookup V s3 d m = dir_lookup V s2 d m" "is_dir s3 = is_dir s2"
    "\<forall>d m. (d, m) \<noteq> (p', ?hn') \<longrightarrow> hash_of (f_store s3) d m = hash_of (f_store s2) d m"
    by (rule insert_entry_frame [OF V(1) i2(1) d2(1)]) (rule that; assumption)
  let ?s4 = "s3\<lparr>f_time := Suc (f_time s3)\<rparr>"
  have i4: "inodes_ok V ?s4" "ino_exists ?s4 = ino_exists s"
    using only_contentsD(1,3) [OF s3(2)] i2(1,2) by (simp_all add: inodes_ok_def attr_cache_ok_def)
  let ?sa = "with_atime (f_time s3) (with_ctime (f_time s3) (with_mtime (f_time s3) set_attr_default))"
  obtain s5 where s5: "set_attr V p ?sa ?s4 = (Inr (), s5)" "inodes_ok V s5" "same_but_meta ?s4 s5" "ino_exists s5 = ino_exists ?s4"
    by (rule set_attr_ok [OF V(1) i4(1), of p ?sa]) (use i4(2) p(1) that in simp_all)
  obtain s6 where s6: "set_attr V p' ?sa s5 = (Inr (), s6)" "inodes_ok V s6" "same_but_meta s5 s6" "ino_exists s6 = ino_exists s5"
    by (rule set_attr_ok [OF V(1) s5(2), of p' ?sa]) (use i4(2) s5(4) p'(1) that in simp_all)
  obtain s7 where s7: "set_attr V ino (with_atime (f_time s3) (with_ctime (f_time s3) set_attr_default)) s6 = (Inr (), s7)" "inodes_ok V s7"
    "same_but_meta s6 s7" "ino_exists s7 = ino_exists s6"
    by (rule set_attr_ok [OF V(1) s6(2), of ino "with_atime (f_time s3) (with_ctime (f_time s3) set_attr_default)"])
       (use i4(2) s5(4) s6(4) stored_attr_exists [OF a(1)] that in simp_all)
  have m: "same_but_meta ?s4 s7" using same_but_meta_trans [OF same_but_meta_trans [OF s5(3) s6(3)] s7(3)] .
  have run: "bnd (exists_by_name V p' name') (\<lambda>ex.
           bnd (whenM ex (remove_directory_entry V p' name')) (\<lambda>_.
           bnd (insert_directory_entry V p' \<lparr>de_ino = ino, de_name = name', de_kind = RegularFile\<rparr>) f)) s2 = f () s3" for f
    using ex s3(1) by (simp add: bnd_def)
  show thesis
  proof (rule that)
    show "fs_rename V p name p' name' s = (Inr (), s7)"
      using rename_checks_ok [OF p p' h] tgt find s2(1) s5(1) s6(1) s7(1) a(2) ai
      unfolding fs_rename_def if_not_P [OF ne(1)] by (simp add: run system_time_now_def)
    show "inodes_ok V s7" by (rule s7(2))
    show "ino_exists s7 = ino_exists s" using s7(4) s6(4) s5(4) i4(2) by simp
    show "is_dir s7 = is_dir s" using same_but_meta_is(1) [OF m] s3(5) i2(3) by (simp add: is_dir_def fun_eq_iff)
    have l: "dir_lookup V s7 = dir_lookup V s3" using dir_lookup_cong [of s7 s3 V] same_but_metaD(1,3) [OF m] by simp
    then show "dir_lookup V s7 p' ?hn' = Some (ino, RegularFile, enc3)" using s3(3) by simp
    have "hash_of (f_store s7) p ?hn = hash_of (f_store s3) p ?hn" using same_but_metaD(1) [OF m] by (simp add: hash_of_def)
    then show "hash_of (f_store s7) p ?hn = None" using s3(6) ne(2) h2 by auto
    show "\<forall>d m. (d, m) \<noteq> (p, ?hn) \<longrightarrow> (d, m) \<noteq> (p', ?hn') \<longrightarrow> dir_lookup V s7 d m = dir_lookup V s d m"
      using l s3(4) l2 by auto
    show "handle_view s7 = handle_view s"
      using handle_view_meta [OF m] only_contentsD(4) [OF s3(2)] s2(2) by (simp add: handle_view_def)
  qed
qed

subsection \<open>Property\<close>

text \<open>
  C18: renaming a file to a free name, in the same or another directory, succeeds: the new name finds
  the file's inode, the old name is no longer found, and every other entry of every directory is
  what it was.
\<close>

theorem rename_moves_file:
  assumes "fs_env_ok V" "inodes_ok V s" "ino_exists s p" "is_dir s p" "ino_exists s p'" "is_dir s p'"
    and "has_entry V s p (hash_file_name (v_crypto V) name) ino k" "stored_attr V s ino = Some a" "a_kind a = RegularFile"
    and "hash_of (f_store s) p' (hash_file_name (v_crypto V) name') = None"
  shows "\<exists>s'. fs_rename V p name p' name' s = (Inr (), s') \<and> find_by_name V p name s' = (Inr None, s')
    \<and> (\<exists>a'. result_of (find_by_name V p' name' s') = Inr (Some a') \<and> a_ino a' = ino)
    \<and> (\<forall>d m. (d, m) \<noteq> (p, hash_file_name (v_crypto V) name) \<and> (d, m) \<noteq> (p', hash_file_name (v_crypto V) name')
       \<longrightarrow> dir_lookup V s' d m = dir_lookup V s d m)"
proof -
  obtain s' enc where s': "fs_rename V p name p' name' s = (Inr (), s')" "inodes_ok V s'" "ino_exists s' = ino_exists s" "is_dir s' = is_dir s"
    "dir_lookup V s' p' (hash_file_name (v_crypto V) name') = Some (ino, RegularFile, enc)"
    "hash_of (f_store s') p (hash_file_name (v_crypto V) name) = None"
    "\<forall>d m. (d, m) \<noteq> (p, hash_file_name (v_crypto V) name) \<longrightarrow> (d, m) \<noteq> (p', hash_file_name (v_crypto V) name')
       \<longrightarrow> dir_lookup V s' d m = dir_lookup V s d m"
    by (rule fs_rename_ok [OF assms]) (rule that; assumption)
  have ex: "ino_exists s' p" "is_dir s' p" "ino_exists s' p'" "is_dir s' p'" "ino_exists s' ino"
    using s'(3,4) assms(3-6) stored_attr_exists [OF assms(8)] by simp_all
  obtain a' where a': "stored_attr V s' ino = Some a'" "a_ino a' = ino" using s'(2) ex(5) by (auto simp: inodes_ok_def)
  have "find_by_name V p name s' = (Inr None, s')" by (rule find_by_name_none [OF ex(1,2) s'(6)])
  moreover have "result_of (find_by_name V p' name' s') = Inr (Some a')" using find_by_name_ok [OF s'(2) ex(3,4) s'(5) a'(1)] by simp
  ultimately show ?thesis using s'(1,7) a'(2) by (intro exI [of _ s'] conjI) auto
qed

theorem rename_moves_file_witness:
  "\<exists>s s' ino. fs_rename sample_fs ROOT_INODE ''a'' ROOT_INODE ''b'' s = (Inr (), s') \<and> find_by_name sample_fs ROOT_INODE ''a'' s' = (Inr None, s')
     \<and> (\<exists>a'. result_of (find_by_name sample_fs ROOT_INODE ''b'' s') = Inr (Some a') \<and> a_ino a' = ino)"
proof -
  obtain s0 ino s enc where s: "fs_new sample_fs 0 0 empty_store sample_key 1000 0 = Inr s0"
    "create sample_fs ROOT_INODE ''a'' sample_create False False s0 =
       (Inr (0, (file_attr_of_create (f_time s0) sample_create)\<lparr>a_ino := ino\<rparr>), s)" "jinv sample_fs {} {} s"
    "ino_exists s ROOT_INODE" "is_dir s ROOT_INODE"
    "has_entry sample_fs s ROOT_INODE (hash_file_name (v_crypto sample_fs) ''a'') ino RegularFile"
    "stored_attr sample_fs s ino = Some ((file_attr_of_create (f_time s0) sample_create)\<lparr>a_ino := ino\<rparr>)"
    "hash_of (f_store s) ROOT_INODE (hash_file_name (v_crypto sample_fs) ''b'') = None"
    by (rule sample_created [OF key_ok_sample]) (rule that; assumption)
  have k: "a_kind ((file_attr_of_create (f_time s0) sample_create)\<lparr>a_ino := ino\<rparr>) = RegularFile"
    by (simp add: file_attr_of_create_def sample_create_def)
  have i: "inodes_ok sample_fs s" using s(3) by (simp add: jinv_def)
  show ?thesis
    using rename_moves_file [OF sample_fs_ok i s(4,5,4,5,6,7) k s(8)] by (elim exE conjE) (intro exI conjI; assumption)
qed

end
