(* ===== verification/Arc_Hashmap.thy ===== *)
theory Arc_Hashmap
  imports Prelude "HOL-Library.AList" "HOL-Library.Multiset"
begin

text \<open>
  Model of \<open>src/arc_hashmap.rs\<close>, the table the file system keeps its locks in. An entry lives as
  long as somebody holds it: every \<open>Holder\<close> counts in the entry's reference count, and dropping a
  holder decrements the count and then purges the entries whose count is zero. The two steps of a
  drop are separate atomic actions, so other threads may run in between; the step relation
  interleaves them, for fewer than \<open>2 ^ 64\<close> holders (each occupies memory). An \<open>Arc\<close> is identified with the number of its reference count.
\<close>

subsection \<open>The table\<close>

record 'v holder =
  h_val :: 'v
  h_rc :: nat

record ('k, 'v) arc_hashmap =
  am_map :: "('k \<times> 'v \<times> nat) list"
  am_rc :: "nat \<Rightarrow> nat"
  am_next :: nat

definition am_default :: "('k, 'v) arc_hashmap" where
  "am_default = \<lparr>am_map = [], am_rc = (\<lambda>_. 0), am_next = 0\<rparr>"

definition am_get_internal :: "('v \<times> nat) option \<Rightarrow> ('k, 'v) arc_hashmap \<Rightarrow> 'v holder option \<times> ('k, 'v) arc_hashmap" where
  "am_get_internal v m = (case v of None \<Rightarrow> (None, m)
     | Some (x, rc) \<Rightarrow> (Some \<lparr>h_val = x, h_rc = rc\<rparr>, m\<lparr>am_rc := (am_rc m)(rc := Suc (am_rc m rc))\<rparr>))"

definition am_get :: "'k \<Rightarrow> ('k, 'v) arc_hashmap \<Rightarrow> 'v holder option \<times> ('k, 'v) arc_hashmap" where
  "am_get key m = am_get_internal (map_of (am_map m) key) m"

text \<open>\<open>entry(key).or_insert_with(..)\<close>: a new entry gets a fresh count of zero.\<close>

definition am_or_insert :: "'k \<Rightarrow> 'v \<Rightarrow> ('k, 'v) arc_hashmap \<Rightarrow> ('k, 'v) arc_hashmap" where
  "am_or_insert key x m = (if map_of (am_map m) key = None
     then m\<lparr>am_map := (key, x, am_next m) # am_map m, am_rc := (am_rc m)(am_next m := 0), am_next := Suc (am_next m)\<rparr>
     else m)"

definition am_get_or_insert_with :: "'k \<Rightarrow> 'v \<Rightarrow> ('k, 'v) arc_hashmap \<Rightarrow> 'v holder option \<times> ('k, 'v) arc_hashmap" where
  "am_get_or_insert_with key x m = (let m' = am_or_insert key x m in am_get_internal (map_of (am_map m') key) m')"

definition am_insert :: "'k \<Rightarrow> 'v \<Rightarrow> ('k, 'v) arc_hashmap \<Rightarrow> 'v holder option \<times> ('k, 'v) arc_hashmap" where
  "am_insert key x m = am_get_or_insert_with key x m"

definition am_purge :: "('k, 'v) arc_hashmap \<Rightarrow> ('k, 'v) arc_hashmap" where
  "am_purge m = m\<lparr>am_map := filter (\<lambda>(k, v, rc). am_rc m rc > 0) (am_map m)\<rparr>"

text \<open>The first half of \<open>drop\<close>; \<open>fetch_sub\<close> wraps at zero.\<close>

definition holder_dec :: "'v holder \<Rightarrow> ('k, 'v) arc_hashmap \<Rightarrow> ('k, 'v) arc_hashmap" where
  "holder_dec h m = m\<lparr>am_rc := (am_rc m)(h_rc h := u64_sub (am_rc m (h_rc h)) 1)\<rparr>"

definition holder_drop :: "'v holder \<Rightarrow> ('k, 'v) arc_hashmap \<Rightarrow> ('k, 'v) arc_hashmap" where
  "holder_drop h m = am_purge (holder_dec h m)"

definition am_len :: "('k, 'v) arc_hashmap \<Rightarrow> nat" where
  "am_len m = length (am_map m)"

definition am_is_empty :: "('k, 'v) arc_hashmap \<Rightarrow> bool" where
  "am_is_empty m \<longleftrightarrow> am_len m = 0"

subsection \<open>Threads\<close>

text \<open>
  The table, the holders that are alive with the key they were taken for, and the number of drops
  between their two halves.
\<close>

record ('k, 'v) arc_sys =
  as_table :: "('k, 'v) arc_hashmap"
  as_holders :: "('k \<times> 'v holder) multiset"
  as_dropping :: nat

inductive arc_step :: "('k, 'v) arc_sys \<Rightarrow> ('k, 'v) arc_sys \<Rightarrow> bool" where
  take_or_insert: "am_get_or_insert_with k x (as_table s) = (Some h, t) \<Longrightarrow> size (as_holders s) + 1 < 2 ^ 64 \<Longrightarrow>
    arc_step s (s\<lparr>as_table := t, as_holders := add_mset (k, h) (as_holders s)\<rparr>)"
| take_existing: "am_get k (as_table s) = (Some h, t) \<Longrightarrow> size (as_holders s) + 1 < 2 ^ 64 \<Longrightarrow>
    arc_step s (s\<lparr>as_table := t, as_holders := add_mset (k, h) (as_holders s)\<rparr>)"
| start_drop: "as_holders s = add_mset (k, h) hs \<Longrightarrow>
    arc_step s (s\<lparr>as_table := holder_dec h (as_table s), as_holders := hs, as_dropping := Suc (as_dropping s)\<rparr>)"
| finish_drop: "as_dropping s = Suc n \<Longrightarrow>
    arc_step s (s\<lparr>as_table := am_purge (as_table s), as_dropping := n\<rparr>)"

inductive_cases arc_stepE: "arc_step s s'"

definition arc_init :: "('k, 'v) arc_sys" where
  "arc_init = \<lparr>as_table = am_default, as_holders = {#}, as_dropping = 0\<rparr>"

definition held :: "nat \<Rightarrow> ('k \<times> 'v holder) multiset \<Rightarrow> nat" where
  "held r hs = size {#p \<in># hs. h_rc (snd p) = r#}"

text \<open>
  The invariant: every holder's entry is in the table, the counts are exact, no two entries share a
  count, keys are unique, and an entry nobody holds is about to be purged.
\<close>

definition arc_inv :: "('k, 'v) arc_sys \<Rightarrow> bool" where
  "arc_inv s \<longleftrightarrow> size (as_holders s) < 2 ^ 64
   \<and> (\<forall>(k, h) \<in># as_holders s. (k, h_val h, h_rc h) \<in> set (am_map (as_table s)))
   \<and> (\<forall>(k, v, r) \<in> set (am_map (as_table s)). r < am_next (as_table s) \<and> am_rc (as_table s) r = held r (as_holders s)
        \<and> (held r (as_holders s) > 0 \<or> as_dropping s > 0))
   \<and> distinct (map (\<lambda>(k, v, r). r) (am_map (as_table s))) \<and> distinct (map fst (am_map (as_table s)))"

lemma held_simps [simp]:
  "held r {#} = 0" "held r (add_mset (k, h) hs) = (if h_rc h = r then Suc (held r hs) else held r hs)"
  by (simp_all add: held_def)

lemma held_pos: "(k, h) \<in># hs \<Longrightarrow> 0 < held (h_rc h) hs"
  by (force simp: held_def nonempty_has_size [symmetric] filter_mset_eq_conv)

lemma held_le: "held r hs \<le> size hs"
  by (simp add: held_def size_filter_mset_lesseq)

lemma arc_invD:
  assumes "arc_inv s"
  shows "(k, h) \<in># as_holders s \<Longrightarrow> (k, h_val h, h_rc h) \<in> set (am_map (as_table s))"
    "(k, v, r) \<in> set (am_map (as_table s)) \<Longrightarrow> r < am_next (as_table s)"
    "(k, v, r) \<in> set (am_map (as_table s)) \<Longrightarrow> am_rc (as_table s) r = held r (as_holders s)"
    "(k, v, r) \<in> set (am_map (as_table s)) \<Longrightarrow> as_dropping s = 0 \<Longrightarrow> held r (as_holders s) > 0"
    "distinct (map fst (am_map (as_table s)))"
  using assms unfolding arc_inv_def by fastforce+

lemma arc_init_inv: "arc_inv arc_init"
  by (simp add: arc_inv_def arc_init_def am_default_def)

text \<open>Taking an entry that is in the table.\<close>

lemma take_inv:
  assumes "arc_inv s" "(k, x, r) \<in> set (am_map (as_table s))" "size (as_holders s) + 1 < 2 ^ 64"
  shows "arc_inv (s\<lparr>as_table := (as_table s)\<lparr>am_rc := (am_rc (as_table s))(r := Suc (am_rc (as_table s) r))\<rparr>,
      as_holders := add_mset (k, \<lparr>h_val = x, h_rc = r\<rparr>) (as_holders s)\<rparr>)"
  using assms unfolding arc_inv_def by auto

lemma held_fresh:
  assumes "arc_inv s"
  shows "held (am_next (as_table s)) (as_holders s) = 0"
proof -
  have "h_rc h < am_next (as_table s)" if "(k, h) \<in># as_holders s" for k h
    using arc_invD(1,2) [OF assms] that by blast
  then show ?thesis by (force simp: held_def filter_mset_eq_conv)
qed

text \<open>Inserting and taking a new entry.\<close>

lemma insert_inv:
  assumes inv: "arc_inv s" and new: "map_of (am_map (as_table s)) k = None" and sz: "size (as_holders s) + 1 < 2 ^ 64"
  shows "arc_inv (s\<lparr>as_table := (as_table s)\<lparr>am_map := (k, x, am_next (as_table s)) # am_map (as_table s),
       am_rc := (am_rc (as_table s))(am_next (as_table s) := Suc 0), am_next := Suc (am_next (as_table s))\<rparr>,
      as_holders := add_mset (k, \<lparr>h_val = x, h_rc = am_next (as_table s)\<rparr>) (as_holders s)\<rparr>)"
proof -
  have "k \<notin> fst ` set (am_map (as_table s))" using new by (simp add: map_of_eq_None_iff)
  moreover have "r \<noteq> am_next (as_table s)" if "(k', v, r) \<in> set (am_map (as_table s))" for k' v r
    using arc_invD(2) [OF inv that] by simp
  moreover have "\<forall>r \<in> (\<lambda>(k, v, r). r) ` set (am_map (as_table s)). r < am_next (as_table s)"
    using arc_invD(2) [OF inv] by auto
  ultimately show ?thesis
    using inv sz held_fresh [OF inv] unfolding arc_inv_def by (auto simp: less_Suc_eq)
qed

lemma dec_inv:
  assumes inv: "arc_inv s" and h: "as_holders s = add_mset (k, h) hs"
  shows "arc_inv (s\<lparr>as_table := holder_dec h (as_table s), as_holders := hs, as_dropping := Suc (as_dropping s)\<rparr>)"
proof -
  have mem: "(k, h_val h, h_rc h) \<in> set (am_map (as_table s))" using arc_invD(1) [OF inv] h by simp
  have rc: "am_rc (as_table s) (h_rc h) = Suc (held (h_rc h) hs)" using arc_invD(3) [OF inv mem] h by simp
  have "Suc (held (h_rc h) hs) < 2 ^ 64" using inv h held_le [of "h_rc h" hs] by (simp add: arc_inv_def)
  with rc have "u64_sub (am_rc (as_table s) (h_rc h)) 1 = held (h_rc h) hs" by simp
  then show ?thesis using inv h rc unfolding arc_inv_def holder_dec_def by (auto split: if_splits)
qed

lemma distinct_map_filter': "distinct (map f xs) \<Longrightarrow> distinct (map f (filter P xs))"
  by (simp add: distinct_map inj_on_def)

lemma purge_inv:
  assumes inv: "arc_inv s"
  shows "arc_inv (s\<lparr>as_table := am_purge (as_table s), as_dropping := n\<rparr>)"
proof -
  have "am_rc (as_table s) (h_rc h) > 0" if "(k, h) \<in># as_holders s" for k h
    using arc_invD(3) [OF inv arc_invD(1) [OF inv that]] held_pos [OF that] by simp
  with inv show ?thesis
    unfolding arc_inv_def am_purge_def by (auto intro!: distinct_map_filter')
qed

lemma get_or_insert_cases:
  assumes "am_get_or_insert_with k x t = (Some h, t')"
  obtains (new) "map_of (am_map t) k = None" "h = \<lparr>h_val = x, h_rc = am_next t\<rparr>"
      "t' = t\<lparr>am_map := (k, x, am_next t) # am_map t, am_rc := (am_rc t)(am_next t := Suc 0), am_next := Suc (am_next t)\<rparr>"
    | (old) y r where "map_of (am_map t) k = Some (y, r)" "h = \<lparr>h_val = y, h_rc = r\<rparr>"
      "t' = t\<lparr>am_rc := (am_rc t)(r := Suc (am_rc t r))\<rparr>"
  using assms by (cases "map_of (am_map t) k")
    (auto simp: am_get_or_insert_with_def am_or_insert_def am_get_internal_def Let_def)

lemma arc_step_inv: "arc_step s s' \<Longrightarrow> arc_inv s \<Longrightarrow> arc_inv s'"
proof (induction rule: arc_step.induct)
  case (take_or_insert k x s h t)
  from take_or_insert.hyps(1) show ?case
  proof (cases rule: get_or_insert_cases)
    case new
    with insert_inv [OF take_or_insert.prems new(1) take_or_insert.hyps(2)] show ?thesis by simp
  next
    case (old y r)
    with take_inv [OF take_or_insert.prems map_of_SomeD [OF old(1)] take_or_insert.hyps(2)] show ?thesis by simp
  qed
next
  case (take_existing k s h t)
  then obtain y r where "map_of (am_map (as_table s)) k = Some (y, r)" "h = \<lparr>h_val = y, h_rc = r\<rparr>"
      "t = (as_table s)\<lparr>am_rc := (am_rc (as_table s))(r := Suc (am_rc (as_table s) r))\<rparr>"
    by (auto simp: am_get_def am_get_internal_def split: option.splits)
  with take_inv [OF take_existing.prems map_of_SomeD take_existing.hyps(2)] show ?case by simp
next
  case (start_drop s k h hs)
  then show ?case by (intro dec_inv)
next
  case (finish_drop s n)
  then show ?case by (intro purge_inv)
qed

lemma arc_reachable_inv: "arc_step\<^sup>*\<^sup>* arc_init s \<Longrightarrow> arc_inv s"
  by (induction rule: rtranclp_induct) (auto intro: arc_init_inv arc_step_inv)

subsection \<open>Properties\<close>

text \<open>A run for the witnesses: one key is taken twice, then one of the two holders is dropped.\<close>

definition sample_h1 :: "nat holder option \<times> (nat, nat) arc_hashmap" where
  "sample_h1 = am_get_or_insert_with 1 5 am_default"

definition sample_h2 :: "nat holder option \<times> (nat, nat) arc_hashmap" where
  "sample_h2 = am_get_or_insert_with 1 7 (snd sample_h1)"

definition sample_arc :: "(nat, nat) arc_sys" where
  "sample_arc = \<lparr>as_table = snd sample_h2, as_holders = {#(1, the (fst sample_h2)), (1, the (fst sample_h1))#}, as_dropping = 0\<rparr>"

lemma sample_arc_reachable: "arc_step\<^sup>*\<^sup>* arc_init sample_arc"
proof -
  let ?s1 = "arc_init\<lparr>as_table := snd sample_h1, as_holders := {#(1, the (fst sample_h1))#}\<rparr> :: (nat, nat) arc_sys"
  have "arc_step arc_init ?s1"
    using take_or_insert [of 1 5 "arc_init :: (nat, nat) arc_sys" "the (fst sample_h1)" "snd sample_h1"]
    by (simp add: sample_h1_def arc_init_def am_default_def am_get_or_insert_with_def am_or_insert_def am_get_internal_def)
  moreover have "am_get_or_insert_with 1 7 (as_table ?s1) = (Some (the (fst sample_h2)), snd sample_h2)"
    by (simp add: sample_h2_def sample_h1_def am_default_def am_get_or_insert_with_def am_or_insert_def am_get_internal_def)
  then have "arc_step ?s1 sample_arc"
    using take_or_insert [of 1 7 ?s1 "the (fst sample_h2)" "snd sample_h2"] by (simp add: sample_arc_def arc_init_def)
  ultimately show ?thesis by (meson rtranclp.rtrancl_into_rtrancl rtranclp.rtrancl_refl)
qed

text \<open>
  C19: in every interleaving of takes and drops, all holders alive for one key hold the same value
  and the same count: the lock taken for an inode excludes every other user of that inode.
\<close>

theorem holders_share_value:
  assumes "arc_step\<^sup>*\<^sup>* arc_init s" "(k, h) \<in># as_holders s" "(k, h') \<in># as_holders s"
  shows "h = h'"
proof -
  note inv = arc_reachable_inv [OF assms(1)]
  have "map_of (am_map (as_table s)) k = Some (h_val h, h_rc h)" "map_of (am_map (as_table s)) k = Some (h_val h', h_rc h')"
    using arc_invD(1) [OF inv] assms(2,3) arc_invD(5) [OF inv] by (simp_all add: map_of_eq_Some_iff)
  then show ?thesis by simp
qed

theorem holders_share_value_witness: "the (fst sample_h2) = the (fst sample_h1)"
  by (rule holders_share_value [OF sample_arc_reachable, of 1]) (simp_all add: sample_arc_def)

text \<open>
  C31: when no drop is in progress the table holds exactly the keys that are held, so the table is
  empty once all holders are gone.
\<close>

theorem quiescent_table_exact:
  assumes "arc_step\<^sup>*\<^sup>* arc_init s" "as_dropping s = 0"
  shows "fst ` set (am_map (as_table s)) = fst ` set_mset (as_holders s)
    \<and> am_len (as_table s) = card (fst ` set_mset (as_holders s))
    \<and> (as_holders s = {#} \<longrightarrow> am_is_empty (as_table s))"
proof -
  note inv = arc_reachable_inv [OF assms(1)]
  have "\<exists>h. (k, h) \<in># as_holders s" if kv: "(k, v, r) \<in> set (am_map (as_table s))" for k v r
  proof -
    have "held r (as_holders s) > 0" using arc_invD(4) [OF inv kv assms(2)] .
    then obtain k' h where h: "(k', h) \<in># as_holders s" "h_rc h = r"
      by (auto simp: held_def nonempty_has_size [symmetric] filter_mset_eq_conv)
    then have "(k', h_val h, r) \<in> set (am_map (as_table s))" using arc_invD(1) [OF inv h(1)] by simp
    moreover have "inj_on (\<lambda>(k, v, r). r) (set (am_map (as_table s)))" using inv by (simp add: arc_inv_def distinct_map)
    ultimately have "k' = k" using kv unfolding inj_on_def by fastforce
    with h show ?thesis by blast
  qed
  then have "fst ` set (am_map (as_table s)) \<subseteq> fst ` set_mset (as_holders s)" by force
  moreover have "fst ` set_mset (as_holders s) \<subseteq> fst ` set (am_map (as_table s))"
    using arc_invD(1) [OF inv] by force
  ultimately have "fst ` set (am_map (as_table s)) = fst ` set_mset (as_holders s)" by (rule subset_antisym)
  moreover have "am_len (as_table s) = card (fst ` set (am_map (as_table s)))"
    using distinct_card [OF arc_invD(5) [OF inv]] by (simp add: am_len_def)
  ultimately show ?thesis by (auto simp: am_is_empty_def)
qed

theorem quiescent_table_exact_witness:
  "fst ` set (am_map (as_table sample_arc)) = {1} \<and> am_len (as_table sample_arc) = 1"
  using quiescent_table_exact [OF sample_arc_reachable] by (simp add: sample_arc_def)

end
