(* ===== verification/Expire_Value.thy ===== *)
theory Expire_Value
  imports Prelude "HOL-Library.Multiset"
begin

text \<open>
  Model of \<open>src/expire_value.rs\<close>, the holder of the key and of the caches: a value is provided on
  demand, kept in a cache until it expires, and remembered by a weak reference so that it is found
  as long as anybody uses it.

  An \<open>Arc\<close> is a number; \<open>ev_heap\<close> says which value it points to. It is alive while a caller, the
  cache or a running \<open>get\<close> owns it. \<open>get\<close> is asynchronous: \<open>ev_get\<close> is a call that runs alone, and
  \<open>ev_step\<close> interleaves the parts between its suspension points with those of other calls, with
  callers letting go of values, and with expiry. The provider is a parameter: its answer to the
  n-th call.
\<close>

subsection \<open>State\<close>

text \<open>The suspension points of \<open>get\<close> after the lookup has missed.\<close>

datatype get_stage = Providing | Provided nat | Cached nat

record 'v expire_value =
  ev_cache :: "nat option"
  ev_weak :: "nat option"
  ev_clients :: "nat multiset"
  ev_running :: "get_stage multiset"
  ev_heap :: "nat \<Rightarrow> 'v"
  ev_next :: nat
  ev_calls :: nat

definition ev_new :: "(nat \<Rightarrow> 'v) \<Rightarrow> 'v expire_value" where
  "ev_new h = \<lparr>ev_cache = None, ev_weak = None, ev_clients = {#}, ev_running = {#}, ev_heap = h, ev_next = 0, ev_calls = 0\<rparr>"

definition ev_alive :: "'v expire_value \<Rightarrow> nat \<Rightarrow> bool" where
  "ev_alive s i \<longleftrightarrow> i \<in># ev_clients s \<or> ev_cache s = Some i \<or> Provided i \<in># ev_running s \<or> Cached i \<in># ev_running s"

subsection \<open>Operations\<close>

definition get_from_ref_or_cache :: "'v expire_value \<Rightarrow> nat option" where
  "get_from_ref_or_cache s = (case ev_weak s of None \<Rightarrow> None
     | Some i \<Rightarrow> if ev_alive s i then Some i else ev_cache s)"

definition ev_take :: "nat \<Rightarrow> 'v expire_value \<Rightarrow> 'v expire_value" where
  "ev_take i s = s\<lparr>ev_clients := add_mset i (ev_clients s)\<rparr>"

definition ev_provide :: "(nat \<Rightarrow> 'e + 'v) \<Rightarrow> 'v expire_value \<Rightarrow> ('e + nat) \<times> 'v expire_value" where
  "ev_provide prov s = (let s' = s\<lparr>ev_calls := Suc (ev_calls s)\<rparr> in
     case prov (ev_calls s) of Inl e \<Rightarrow> (Inl e, s')
     | Inr v \<Rightarrow> (Inr (ev_next s), s'\<lparr>ev_heap := (ev_heap s)(ev_next s := v), ev_next := Suc (ev_next s)\<rparr>))"

definition ev_cache_insert :: "nat \<Rightarrow> 'v expire_value \<Rightarrow> 'v expire_value" where
  "ev_cache_insert i s = s\<lparr>ev_cache := Some i\<rparr>"

definition ev_set_weak :: "nat \<Rightarrow> 'v expire_value \<Rightarrow> 'v expire_value" where
  "ev_set_weak i s = s\<lparr>ev_weak := Some i\<rparr>"

definition ev_get :: "(nat \<Rightarrow> 'e + 'v) \<Rightarrow> ('v expire_value, 'e, nat) sem" where
  "ev_get prov = (\<lambda>s. case get_from_ref_or_cache s of
       Some i \<Rightarrow> (Inr i, ev_take i s)
     | None \<Rightarrow> (case ev_provide prov s of (Inl e, s') \<Rightarrow> (Inl e, s')
         | (Inr i, s') \<Rightarrow> (Inr i, ev_take i (ev_set_weak i (ev_cache_insert i s')))))"

definition ev_clear :: "'v expire_value \<Rightarrow> 'v expire_value" where
  "ev_clear s = s\<lparr>ev_cache := None\<rparr>"

subsection \<open>Interleavings\<close>

inductive ev_step :: "(nat \<Rightarrow> 'e + 'v) \<Rightarrow> 'v expire_value \<Rightarrow> 'v expire_value \<Rightarrow> bool" for prov where
  hit: "get_from_ref_or_cache s = Some i \<Longrightarrow> ev_step prov s (ev_take i s)"
| miss: "get_from_ref_or_cache s = None \<Longrightarrow> ev_step prov s (s\<lparr>ev_running := add_mset Providing (ev_running s)\<rparr>)"
| provide_error: "ev_running s = add_mset Providing R \<Longrightarrow> ev_provide prov s = (Inl e, s') \<Longrightarrow>
    ev_step prov s (s'\<lparr>ev_running := R\<rparr>)"
| provide: "ev_running s = add_mset Providing R \<Longrightarrow> ev_provide prov s = (Inr i, s') \<Longrightarrow>
    ev_step prov s (s'\<lparr>ev_running := add_mset (Provided i) R\<rparr>)"
| cache_insert: "ev_running s = add_mset (Provided i) R \<Longrightarrow>
    ev_step prov s ((ev_cache_insert i s)\<lparr>ev_running := add_mset (Cached i) R\<rparr>)"
| finish: "ev_running s = add_mset (Cached i) R \<Longrightarrow>
    ev_step prov s ((ev_take i (ev_set_weak i s))\<lparr>ev_running := R\<rparr>)"
| release: "ev_clients s = add_mset i C \<Longrightarrow> ev_step prov s (s\<lparr>ev_clients := C\<rparr>)"
| expire: "ev_step prov s (ev_clear s)"

inductive_cases ev_stepE: "ev_step prov s s'"

lemmas ev_defs = ev_take_def ev_cache_insert_def ev_set_weak_def ev_clear_def

text \<open>Every reference in the state was allocated for an answer of the provider.\<close>

definition provided :: "(nat \<Rightarrow> 'e + 'v) \<Rightarrow> 'v expire_value \<Rightarrow> nat \<Rightarrow> bool" where
  "provided prov s i \<longleftrightarrow> i < ev_next s \<and> (\<exists>n < ev_calls s. prov n = Inr (ev_heap s i))"

definition ev_inv :: "(nat \<Rightarrow> 'e + 'v) \<Rightarrow> 'v expire_value \<Rightarrow> bool" where
  "ev_inv prov s \<longleftrightarrow> (\<forall>i. i \<in># ev_clients s \<or> ev_cache s = Some i \<or> ev_weak s = Some i
      \<or> Provided i \<in># ev_running s \<or> Cached i \<in># ev_running s \<longrightarrow> provided prov s i)"

lemma found_provided: "ev_inv prov s \<Longrightarrow> get_from_ref_or_cache s = Some i \<Longrightarrow> provided prov s i"
  by (auto simp: get_from_ref_or_cache_def ev_inv_def split: option.splits if_splits)

lemma ev_provide_cases:
  assumes "ev_provide prov s = (r, s')"
  obtains (error) e where "r = Inl e" "s' = s\<lparr>ev_calls := Suc (ev_calls s)\<rparr>" "prov (ev_calls s) = Inl e"
    | (ok) v where "r = Inr (ev_next s)" "prov (ev_calls s) = Inr v"
      "s' = s\<lparr>ev_calls := Suc (ev_calls s), ev_heap := (ev_heap s)(ev_next s := v), ev_next := Suc (ev_next s)\<rparr>"
  using assms by (auto simp: ev_provide_def Let_def split: sum.splits)

lemma provided_mono:
  assumes "ev_provide prov s = (r, s')" "provided prov s i"
  shows "provided prov s' i"
  using assms(1) by (cases rule: ev_provide_cases) (use assms(2) in \<open>auto simp: provided_def less_Suc_eq\<close>)

lemma provided_new:
  assumes "ev_provide prov s = (Inr i, s')"
  shows "provided prov s' i"
  using assms by (cases rule: ev_provide_cases) (auto simp: provided_def)

lemma provided_cong:
  "ev_next s' = ev_next s \<Longrightarrow> ev_calls s' = ev_calls s \<Longrightarrow> ev_heap s' = ev_heap s \<Longrightarrow> provided prov s' = provided prov s"
  by (simp add: provided_def fun_eq_iff)

lemma ev_provide_frame:
  assumes "ev_provide prov s = (r, s')"
  shows "ev_clients s' = ev_clients s" "ev_cache s' = ev_cache s" "ev_weak s' = ev_weak s" "ev_running s' = ev_running s"
  using assms by (cases rule: ev_provide_cases; simp)+

lemma ev_step_inv: "ev_step prov s s' \<Longrightarrow> ev_inv prov s \<Longrightarrow> ev_inv prov s'"
proof (induction rule: ev_step.induct)
  case (hit s i)
  then show ?case using found_provided [OF hit.prems hit.hyps]
    by (auto simp: ev_inv_def ev_defs provided_cong [of "ev_take i s" s])
       (auto simp: provided_def)
next
  case (provide_error s R e s')
  note f = ev_provide_frame [OF provide_error.hyps(2)] and m = provided_mono [OF provide_error.hyps(2)]
  show ?case using provide_error.prems provide_error.hyps(1) f m
    by (auto simp: ev_inv_def provided_cong [of "s'\<lparr>ev_running := R\<rparr>" s'])
next
  case (provide s R i s')
  note f = ev_provide_frame [OF provide.hyps(2)] and m = provided_mono [OF provide.hyps(2)] and n = provided_new [OF provide.hyps(2)]
  show ?case using provide.prems provide.hyps(1) f m n
    by (auto simp: ev_inv_def provided_cong [of "s'\<lparr>ev_running := add_mset (Provided i) R\<rparr>" s'])
qed (auto simp: ev_inv_def ev_defs provided_def)

lemma ev_new_inv: "ev_inv prov (ev_new h)"
  by (simp add: ev_inv_def ev_new_def)

lemma ev_reachable_inv: "(ev_step prov)\<^sup>*\<^sup>* (ev_new h) s \<Longrightarrow> ev_inv prov s"
  by (induction rule: rtranclp_induct) (auto intro: ev_step_inv ev_new_inv)

text \<open>A value that is referenced by the weak reference and held by a caller, with no call under way.\<close>

definition ev_settled :: "nat \<Rightarrow> 'v expire_value \<Rightarrow> bool" where
  "ev_settled i s \<longleftrightarrow> ev_weak s = Some i \<and> i \<in># ev_clients s \<and> ev_running s = {#}"

lemma settled_lookup: "ev_settled i s \<Longrightarrow> get_from_ref_or_cache s = Some i"
  by (simp add: ev_settled_def get_from_ref_or_cache_def ev_alive_def)

lemma settled_get: "ev_settled i s \<Longrightarrow> ev_get prov s = (Inr i, ev_take i s)"
  by (simp add: ev_get_def settled_lookup)

lemma settled_step:
  assumes "ev_step prov s s'" "ev_settled i s" "i \<in># ev_clients s'"
  shows "ev_settled i s' \<and> ev_calls s' = ev_calls s \<and> ev_heap s' = ev_heap s"
  using assms settled_lookup [OF assms(2)] by (cases rule: ev_step.cases) (auto simp: ev_settled_def ev_defs)

lemma ev_get_settles:
  assumes "ev_get prov s = (Inr i, s')" "ev_running s = {#}" "get_from_ref_or_cache s = None \<or> ev_weak s = Some i"
  shows "ev_settled i s'"
  using assms by (auto simp: ev_get_def ev_settled_def ev_defs split: option.splits prod.splits sum.splits
      dest: ev_provide_frame(4))

text \<open>
  Without concurrent calls the cache never holds anything but the value of the weak reference.
\<close>

definition ev_alone :: "'v expire_value \<Rightarrow> bool" where
  "ev_alone s \<longleftrightarrow> ev_running s = {#} \<and> (\<forall>i. ev_cache s = Some i \<longrightarrow> ev_weak s = Some i)"

lemma alone_lookup: "ev_alone s \<Longrightarrow> get_from_ref_or_cache s = Some i \<Longrightarrow> ev_weak s = Some i"
  by (auto simp: ev_alone_def get_from_ref_or_cache_def split: option.splits if_splits)

lemma alone_get_settles:
  assumes "ev_alone s" "ev_get prov s = (Inr i, s')"
  shows "ev_settled i s'"
proof (rule ev_get_settles [OF assms(2)])
  show "ev_running s = {#}" using assms(1) by (simp add: ev_alone_def)
  show "get_from_ref_or_cache s = None \<or> ev_weak s = Some i"
    using assms alone_lookup [OF assms(1)] by (cases "get_from_ref_or_cache s") (auto simp: ev_get_def)
qed

subsection \<open>Properties\<close>

text \<open>
  In every interleaving of calls, releases and expiries, a value a caller holds is one the
  provider has delivered.
\<close>

theorem held_value_was_provided:
  assumes "(ev_step prov)\<^sup>*\<^sup>* (ev_new h) s" "i \<in># ev_clients s"
  shows "\<exists>n < ev_calls s. prov n = Inr (ev_heap s i)"
  using ev_reachable_inv [OF assms(1)] assms(2) by (auto simp: ev_inv_def provided_def)

theorem held_value_was_provided_witness:
  "\<exists>n < ev_calls (state_of (ev_get Inr (ev_new (\<lambda>_. 7)))). (Inr n :: nat + nat)
     = Inr (ev_heap (state_of (ev_get Inr (ev_new (\<lambda>_. 7)) :: (nat + nat) \<times> nat expire_value)) 0)"
proof -
  let ?p = "Inr :: nat \<Rightarrow> nat + nat" and ?s0 = "ev_new (\<lambda>_. 7) :: nat expire_value"
  let ?s1 = "?s0\<lparr>ev_running := {#Providing#}\<rparr>"
  let ?s2 = "?s0\<lparr>ev_calls := 1, ev_heap := (\<lambda>_. 7)(0 := 0), ev_next := 1, ev_running := {#Provided 0#}\<rparr>"
  let ?s3 = "?s2\<lparr>ev_cache := Some 0, ev_running := {#Cached 0#}\<rparr>"
  let ?s4 = "?s3\<lparr>ev_weak := Some 0, ev_clients := {#0#}, ev_running := {#}\<rparr>"
  have "ev_step ?p ?s0 ?s1" using miss [of ?s0 ?p] by (simp add: get_from_ref_or_cache_def ev_new_def)
  moreover have "ev_step ?p ?s1 ?s2" using provide [of ?s1 "{#}" ?p] by (simp add: ev_provide_def ev_new_def)
  moreover have "ev_step ?p ?s2 ?s3" using cache_insert [of ?s2 0 "{#}" ?p] by (simp add: ev_defs)
  moreover have "ev_step ?p ?s3 ?s4" using finish [of ?s3 0 "{#}" ?p] by (simp add: ev_defs ev_new_def)
  ultimately have "(ev_step ?p)\<^sup>*\<^sup>* ?s0 ?s4" by (meson converse_rtranclp_into_rtranclp rtranclp.rtrancl_refl)
  from held_value_was_provided [OF this, of 0] show ?thesis
    by (simp add: ev_get_def get_from_ref_or_cache_def ev_provide_def ev_defs ev_new_def)
qed



end
