(* ===== verification/Fs_Util.thy ===== *)
theory Fs_Util
  imports Std_IO "HOL-Library.AList"
begin

text \<open>
  Model of \<open>src/fs_util.rs\<close>: moving the content of a directory into another. The source and the
  destination are separate trees; the entries of a directory are in the order \<open>read_dir\<close> lists
  them. Every call that can fail is written with its failure, and a failing move leaves both trees
  as far as it had come. \<open>open_atomic_write\<close> only sets options of the \<open>atomic_write_file\<close> crate; its
  effect is the replacement modelled where it is committed.
\<close>

subsection \<open>Trees\<close>

datatype node = FNode bytes | DNode "(string \<times> node) list"

type_synonym entries = "(string \<times> node) list"

text \<open>\<open>fs::rename\<close> of a file onto a path of the destination directory.\<close>

definition rename_file_to :: "string \<Rightarrow> bytes \<Rightarrow> entries \<Rightarrow> io_error + entries" where
  "rename_file_to n b dst = (case map_of dst n of
     Some (DNode _) \<Rightarrow> Inl (IoErr IsADirectory ''Is a directory'') | _ \<Rightarrow> Inr (AList.update n (FNode b) dst))"

text \<open>\<open>fs::create_dir_all\<close>: the entries of the directory that is there afterwards.\<close>

definition create_dir_all :: "string \<Rightarrow> entries \<Rightarrow> io_error + entries" where
  "create_dir_all n dst = (case map_of dst n of
     Some (DNode es) \<Rightarrow> Inr es | Some (FNode _) \<Rightarrow> Inl (IoErr AlreadyExists ''File exists'') | None \<Rightarrow> Inr [])"

text \<open>\<open>fs::remove_dir\<close> on a path that holds a directory with these entries, or nothing.\<close>

definition remove_dir_path :: "entries option \<Rightarrow> io_error + unit" where
  "remove_dir_path d = (case d of None \<Rightarrow> Inl (IoErr NotFound ''No such file or directory'')
     | Some es \<Rightarrow> if es = [] then Inr () else Inl (IoErr DirectoryNotEmpty ''Directory not empty''))"

subsection \<open>Moving\<close>

text \<open>
  \<open>move_entries\<close> is the loop over the entries, \<open>move_dir\<close> a whole call of \<open>rename_dir_content\<close> on
  a source directory: what is left of the source (\<open>None\<close>: it is gone) and the destination.
\<close>

fun move_entries :: "entries \<Rightarrow> entries \<Rightarrow> (io_error + unit) \<times> entries \<times> entries"
  and move_dir :: "entries \<Rightarrow> entries \<Rightarrow> (io_error + unit) \<times> entries option \<times> entries" where
  "move_entries [] dst = (Inr (), [], dst)"
| "move_entries ((n, FNode b) # es) dst =
     (case rename_file_to n b dst of Inl e \<Rightarrow> (Inl e, (n, FNode b) # es, dst)
      | Inr dst' \<Rightarrow> move_entries es dst')"
| "move_entries ((n, DNode cs) # es) dst =
     (case create_dir_all n dst of Inl e \<Rightarrow> (Inl e, (n, DNode cs) # es, dst)
      | Inr ds \<Rightarrow> (case move_dir cs ds of (r, left, ds') \<Rightarrow>
          (let dst' = AList.update n (DNode ds') dst;
               rest = (case left of None \<Rightarrow> es | Some cs' \<Rightarrow> (n, DNode cs') # es)
           in case r of Inl e \<Rightarrow> (Inl e, rest, dst')
              | Inr _ \<Rightarrow> (case remove_dir_path left of Inl e \<Rightarrow> (Inl e, rest, dst')
                  | Inr _ \<Rightarrow> move_entries es dst'))))"
| "move_dir cs dst =
     (case move_entries cs dst of (Inl e, cs', dst') \<Rightarrow> (Inl e, Some cs', dst')
      | (Inr _, cs', dst') \<Rightarrow> (case remove_dir_path (Some cs') of Inl e \<Rightarrow> (Inl e, Some cs', dst')
          | Inr _ \<Rightarrow> (Inr (), None, dst')))"

text \<open>
  \<open>rename_dir_content(src, dst)\<close>: what the two paths hold before and after. A destination that is a
  file makes every access below it fail.
\<close>

definition rename_dir_content :: "node option \<Rightarrow> node option \<Rightarrow> (io_error + unit) \<times> node option \<times> node option" where
  "rename_dir_content src dst = (case src of
     Some (DNode es) \<Rightarrow> (case dst of
         Some (FNode b) \<Rightarrow> if es = [] then (Inr (), None, dst)
            else (Inl (IoErr NotADirectory ''Not a directory''), src, dst)
       | _ \<Rightarrow> (let ds = (case dst of Some (DNode ds) \<Rightarrow> ds | _ \<Rightarrow> []) in
           case move_dir es ds of (r, left, ds') \<Rightarrow> (r, map_option DNode left, Some (DNode ds'))))
   | _ \<Rightarrow> (Inl (IoErr NotFound ''source directory does not exist''), src, dst))"

subsection \<open>Lemmas\<close>

definition all_files :: "entries \<Rightarrow> bool" where
  "all_files es \<longleftrightarrow> (\<forall>(n, x) \<in> set es. \<exists>b. x = FNode b)"

definition no_clash :: "entries \<Rightarrow> entries \<Rightarrow> bool" where
  "no_clash es dst \<longleftrightarrow> (\<forall>(n, x) \<in> set es. \<forall>ds. map_of dst n \<noteq> Some (DNode ds))"

lemma move_dir_ok_gone: "move_dir cs dst = (Inr u, left, dst') \<Longrightarrow> left = None"
  by (auto split: prod.splits sum.splits)

lemma move_entries_subdir: "(n, DNode cs) \<in> set es \<Longrightarrow> isl (fst (move_entries es dst))"
proof (induction es arbitrary: dst)
  case (Cons e es)
  obtain m x where e: "e = (m, x)" by (cases e)
  show ?case
  proof (cases x)
    case (FNode b)
    with Cons e show ?thesis by (auto split: sum.splits)
  next
    case (DNode cs')
    have "remove_dir_path left \<noteq> Inr ()" if "move_dir cs' ds = (Inr (), left, ds')" for ds left ds'
      using move_dir_ok_gone [OF that] by (simp add: remove_dir_path_def)
    with e DNode show ?thesis by (auto simp: Let_def simp del: move_dir.simps split: sum.splits prod.splits)
  qed
qed simp

lemma move_entries_files:
  assumes "all_files es" "no_clash es dst" "distinct (map fst es)"
  shows "\<exists>dst'. move_entries es dst = (Inr (), [], dst') \<and> map_of dst' = map_of dst ++ map_of es"
  using assms
proof (induction es arbitrary: dst)
  case (Cons e es)
  obtain n b where e: "e = (n, FNode b)" using Cons.prems(1) by (auto simp: all_files_def)
  let ?d = "AList.update n (FNode b) dst"
  have r: "rename_file_to n b dst = Inr ?d"
    using Cons.prems(2) e by (auto simp: rename_file_to_def no_clash_def split: option.split node.split)
  have "no_clash es ?d" using Cons.prems(2) e by (fastforce simp: no_clash_def update_conv' split: if_splits)
  moreover have "all_files es" "distinct (map fst es)" using Cons.prems(1,3) by (simp_all add: all_files_def)
  ultimately obtain dst' where d: "move_entries es ?d = (Inr (), [], dst')" "map_of dst' = map_of ?d ++ map_of es"
    using Cons.IH by blast
  have "map_of ?d ++ map_of es = map_of dst ++ map_of (e # es)"
  proof -
    have "map_of es n = None" using Cons.prems(3) e by (simp add: map_of_eq_None_iff)
    then show ?thesis using e by (auto simp: update_conv' fun_eq_iff map_add_def split: option.split)
  qed
  with d(2) have "map_of dst' = map_of dst ++ map_of (e # es)" by (rule trans)
  moreover have "move_entries (e # es) dst = (Inr (), [], dst')" using d(1) r e by simp
  ultimately show ?case by blast
qed simp

subsection \<open>Properties\<close>

text \<open>
  C35: a directory of files is moved completely when no name is taken by a directory: the source is
  gone and every name of the destination means the moved file, or what it meant before.
\<close>

theorem rename_dir_content_files:
  assumes "all_files es" "distinct (map fst es)" "no_clash es ds"
  shows "\<exists>ds'. rename_dir_content (Some (DNode es)) (Some (DNode ds)) = (Inr (), None, Some (DNode ds'))
    \<and> map_of ds' = map_of ds ++ map_of es"
proof -
  obtain ds' where "move_entries es ds = (Inr (), [], ds')" "map_of ds' = map_of ds ++ map_of es"
    using move_entries_files [OF assms(1,3,2)] by blast
  then show ?thesis by (simp add: rename_dir_content_def remove_dir_path_def)
qed

theorem rename_dir_content_files_witness:
  "\<exists>ds'. rename_dir_content (Some (DNode [(''a'', FNode [1]), (''b'', FNode [2])])) (Some (DNode [(''b'', FNode [3]), (''c'', DNode [])]))
      = (Inr (), None, Some (DNode ds')) \<and> map_of ds' = map_of [(''b'', FNode [3]), (''c'', DNode [])] ++ map_of [(''a'', FNode [1]), (''b'', FNode [2])]"
  by (rule rename_dir_content_files) (simp_all add: all_files_def no_clash_def)

text \<open>
  C40: a source with a subdirectory is never moved successfully: the recursive call removes the
  moved subdirectory, and the removal that follows it fails.
\<close>

theorem rename_dir_content_fails_on_subdirectory:
  assumes "(n, DNode cs) \<in> set es"
  shows "isl (result_of (rename_dir_content (Some (DNode es)) dst))"
proof -
  have "isl (fst (move_dir es ds))" for ds
    using move_entries_subdir [OF assms, of ds] by (auto split: prod.splits sum.splits)
  moreover have "es \<noteq> []" using assms by auto
  ultimately show ?thesis
    by (auto simp: rename_dir_content_def Let_def simp del: move_dir.simps split: option.splits node.splits prod.splits) (metis fst_conv)+
qed

theorem rename_dir_content_fails_on_subdirectory_witness:
  "isl (result_of (rename_dir_content (Some (DNode [(''d'', DNode [])])) None))"
  by (rule rename_dir_content_fails_on_subdirectory [of "''d''" "[]"]) simp

end
