(* ===== verification/Fuse_Access.thy ===== *)
theory Fuse_Access
  imports Fs_Attr Crypto
begin

unbundle bit_operations_syntax

text \<open>
  Permissions and modes in the FUSE layer (\<open>src/mount/linux.rs\<close>): \<open>check_access\<close>, the modes and
  groups of new nodes, the clearing of the set-id bits, timestamps, and the supplementary groups
  read from \<open>/proc\<close>. Modes are words of the width the code uses; an \<open>i32\<close> access mask is its bit
  pattern.
\<close>

subsection \<open>Constants of \<open>libc\<close>\<close>

definition S_ISUID :: nat where "S_ISUID = 2048"
definition S_ISGID :: nat where "S_ISGID = 1024"
definition S_ISVTX :: nat where "S_ISVTX = 512"
definition S_IFMT :: nat where "S_IFMT = 61440"
definition S_IFREG :: nat where "S_IFREG = 32768"
definition S_IFDIR :: nat where "S_IFDIR = 16384"
definition S_IXALL :: nat where "S_IXALL = 73"
definition S_IXGRP :: nat where "S_IXGRP = 8"
definition F_OK :: nat where "F_OK = 0"
definition X_OK :: nat where "X_OK = 1"
definition W_OK :: nat where "W_OK = 2"
definition R_OK :: nat where "R_OK = 4"

lemmas mode_consts = S_ISUID_def S_ISGID_def S_ISVTX_def S_IFMT_def S_IFREG_def S_IFDIR_def S_IXALL_def S_IXGRP_def
  F_OK_def X_OK_def W_OK_def R_OK_def

abbreviation bits :: "nat \<Rightarrow> 'a::len word" where
  "bits n \<equiv> word_of_nat n"

subsection \<open>Access checks\<close>

definition check_access :: "32 word \<Rightarrow> 32 word \<Rightarrow> 16 word \<Rightarrow> 32 word \<Rightarrow> 32 word \<Rightarrow> 32 word \<Rightarrow> bool" where
  "check_access file_uid file_gid file_mode uid gid access_mask =
     (if access_mask = bits F_OK then True
      else
        let file_mode = (ucast file_mode :: 32 word) in
        if uid = 0 then
          (let access_mask = access_mask AND bits X_OK;
               access_mask = access_mask - (access_mask AND drop_bit 6 file_mode);
               access_mask = access_mask - (access_mask AND drop_bit 3 file_mode);
               access_mask = access_mask - (access_mask AND file_mode)
           in access_mask = 0)
        else
          (let access_mask = (if uid = file_uid then access_mask - (access_mask AND drop_bit 6 file_mode)
                else if gid = file_gid then access_mask - (access_mask AND drop_bit 3 file_mode)
                else access_mask - (access_mask AND file_mode))
           in access_mask = 0))"

text \<open>
  The rule the code implements: the three permission bits of the class of the caller (owner, group,
  others) have to cover the requested mask; the super user needs an execute bit of some class to
  execute, and nothing else.
\<close>

definition class_bits :: "16 word \<Rightarrow> nat \<Rightarrow> nat set" where
  "class_bits mode shift = {i. i < 3 \<and> bit mode (i + shift)}"

definition caller_class :: "32 word \<Rightarrow> 32 word \<Rightarrow> 32 word \<Rightarrow> 32 word \<Rightarrow> nat" where
  "caller_class file_uid file_gid uid gid = (if uid = file_uid then 6 else if gid = file_gid then 3 else 0)"

definition may_access :: "32 word \<Rightarrow> 32 word \<Rightarrow> 16 word \<Rightarrow> 32 word \<Rightarrow> 32 word \<Rightarrow> nat set \<Rightarrow> bool" where
  "may_access file_uid file_gid mode uid gid wanted \<longleftrightarrow>
     (if uid = 0 then 0 \<in> wanted \<longrightarrow> (\<exists>shift \<in> {6, 3, 0}. 0 \<in> class_bits mode shift)
      else wanted \<subseteq> class_bits mode (caller_class file_uid file_gid uid gid))"

definition wanted_bits :: "32 word \<Rightarrow> nat set" where
  "wanted_bits m = {i. bit m i}"

subsection \<open>Modes of new nodes\<close>

definition creation_mode :: "bool \<Rightarrow> 32 word \<Rightarrow> 16 word" where
  "creation_mode suid_support mode = (if suid_support then ucast mode else ucast (mode AND NOT (bits S_ISUID OR bits S_ISGID)))"

definition creation_gid :: "file_attr \<Rightarrow> 32 word \<Rightarrow> 32 word" where
  "creation_gid parent gid = (if a_perm parent AND bits S_ISGID \<noteq> 0 then a_gid parent else gid)"

definition clear_suid_sgid :: "16 word \<Rightarrow> 16 word" where
  "clear_suid_sgid perm = (let perm = perm AND NOT (bits S_ISUID) in
     if perm AND bits S_IXGRP \<noteq> 0 then perm AND NOT (bits S_ISGID) else perm)"

text \<open>\<open>as_file_kind\<close>; \<open>None\<close> is the \<open>unimplemented!\<close> panic.\<close>

definition as_file_kind :: "32 word \<Rightarrow> file_type option" where
  "as_file_kind mode = (let mode = mode AND bits S_IFMT in
     if mode = bits S_IFREG then Some RegularFile else if mode = bits S_IFDIR then Some Directory else None)"

definition dir_attr :: create_file_attr where
  "dir_attr = \<lparr>c_kind = Directory, c_perm = 511, c_uid = 0, c_gid = 0, c_rdev = 0, c_flags = 0\<rparr>"

definition file_attr_default :: create_file_attr where
  "file_attr_default = \<lparr>c_kind = RegularFile, c_perm = 420, c_uid = 0, c_gid = 0, c_rdev = 0, c_flags = 0\<rparr>"

text \<open>
  \<open>UNIX_EPOCH + Duration::new(t.sec as u64, t.nsec)\<close> in nanoseconds; \<open>None\<close> is the panic of the
  addition when the seconds leave the range of \<open>i64\<close>.
\<close>

definition system_time_from_timestamp :: "int \<times> nat \<Rightarrow> time option" where
  "system_time_from_timestamp t = (case t of (sec, nsec) \<Rightarrow>
     (let secs = nat (sec mod 2 ^ 64) in
      if secs + nsec div 10 ^ 9 < 2 ^ 63 then Some (secs * 10 ^ 9 + nsec) else None))"

subsection \<open>Supplementary groups\<close>

text \<open>\<open>str::split\<close> on one character.\<close>

fun split_on :: "char \<Rightarrow> string \<Rightarrow> string list" where
  "split_on c [] = [[]]"
| "split_on c (x # xs) = (if x = c then [] # split_on c xs
     else case split_on c xs of [] \<Rightarrow> [[x]] | w # ws \<Rightarrow> (x # w) # ws)"

definition is_space :: "char \<Rightarrow> bool" where
  "is_space c \<longleftrightarrow> of_char c \<in> {9, 10, 11, 12, 13, 32 :: nat}"

definition digit_value :: "char \<Rightarrow> nat option" where
  "digit_value c = (if 48 \<le> (of_char c :: nat) \<and> of_char c \<le> (57 :: nat) then Some (of_char c - 48) else None)"

fun parse_digits :: "nat \<Rightarrow> string \<Rightarrow> nat option" where
  "parse_digits acc [] = Some acc"
| "parse_digits acc (c # cs) = (case digit_value c of None \<Rightarrow> None | Some d \<Rightarrow> parse_digits (acc * 10 + d) cs)"

text \<open>\<open>parse::<u32>\<close>: an optional plus sign, at least one digit, no overflow.\<close>

definition parse_u32 :: "string \<Rightarrow> 32 word option" where
  "parse_u32 s = (let d = (case s of c # cs \<Rightarrow> if c = CHR ''+'' then cs else s | [] \<Rightarrow> []) in
     if d = [] then None else case parse_digits 0 d of None \<Rightarrow> None
     | Some n \<Rightarrow> if n < 2 ^ 32 then Some (word_of_nat n) else None)"

primrec parse_all :: "string list \<Rightarrow> 32 word list option" where
  "parse_all [] = Some []"
| "parse_all (x # xs) = (case parse_u32 x of None \<Rightarrow> None
     | Some g \<Rightarrow> (case parse_all xs of None \<Rightarrow> None | Some gs \<Rightarrow> Some (g # gs)))"

definition starts_with :: "string \<Rightarrow> string \<Rightarrow> bool" where
  "starts_with p s \<longleftrightarrow> take (length p) s = p"

text \<open>
  \<open>get_groups\<close> on the content of \<open>/proc/<pid>/task/<pid>/status\<close>, split into lines by the caller;
  \<open>None\<close> is a panic (no such file, a line too short to slice, a field that is no number).
\<close>

fun groups_of_lines :: "string list \<Rightarrow> 32 word list option" where
  "groups_of_lines [] = Some []"
| "groups_of_lines (l # ls) = (if starts_with ''Groups:'' l
     then (if length l < 8 then None
           else parse_all (filter (\<lambda>x. \<exists>c \<in> set x. \<not> is_space c) (split_on (CHR '' '') (drop 8 l))))
     else groups_of_lines ls)"

definition get_groups :: "string list option \<Rightarrow> 32 word list option" where
  "get_groups status = (case status of None \<Rightarrow> None | Some ls \<Rightarrow> groups_of_lines ls)"

subsection \<open>Lemmas\<close>

lemma minus_and_eq: "m - (m AND x) = m AND NOT x" for m x :: "'a::len word"
proof -
  have "(m AND x) + (m AND NOT x) = (m AND x) OR (m AND NOT x)"
    by (rule disjunctive_add_eq_or) (simp add: bit_eq_iff bit_simps)
  also have "\<dots> = m" by (auto simp: bit_eq_iff bit_simps)
  finally show ?thesis by (simp add: algebra_simps)
qed

lemma and_not_zero: "m AND NOT x = 0 \<longleftrightarrow> (\<forall>i. bit m i \<longrightarrow> bit x i)" for m x :: "'a::len word"
  by (auto simp: bit_eq_iff bit_and_iff bit_not_iff dest: bit_imp_le_length)

lemma bit_mode: "bit (drop_bit k (ucast x :: 32 word)) i \<longleftrightarrow> bit (x :: 16 word) (i + k)"
  by (auto simp: bit_drop_bit_eq bit_ucast_iff add.commute dest: bit_imp_le_length)

lemma small_mask_bits: "m < (8 :: 32 word) \<Longrightarrow> bit m i \<Longrightarrow> i < 3"
proof -
  assume m: "m < (8 :: 32 word)" and b: "bit m i"
  from m have "unat m < 8" by (simp add: word_less_nat_alt)
  then have "take_bit 3 (unat m) = unat m" by (simp add: take_bit_eq_mod)
  moreover from b have "bit (unat m) i" by (simp add: bit_unsigned_iff)
  ultimately show "i < 3" by (metis bit_take_bit_iff)
qed

lemma bit_X_OK: "bit (m AND bits X_OK) i \<longleftrightarrow> i = 0 \<and> bit m 0" for m :: "32 word"
  by (auto simp: X_OK_def bit_simps bit_1_iff)

lemma bit_X_OK_left: "bit (((m AND bits X_OK) AND NOT a) AND NOT b) i \<longleftrightarrow> i = 0 \<and> bit m 0 \<and> \<not> bit a 0 \<and> \<not> bit b 0"
  for m a b :: "32 word"
proof -
  have n: "bit (NOT x) 0 \<longleftrightarrow> \<not> bit x 0" for x :: "32 word" by (simp add: bit_not_iff)
  show ?thesis unfolding bit_and_iff [of "(m AND bits X_OK) AND NOT a"] bit_and_iff [of "m AND bits X_OK"] bit_X_OK
    using n by blast
qed

lemma check_access_eq:
  assumes "m < 8"
  shows "check_access file_uid file_gid mode uid gid m = may_access file_uid file_gid mode uid gid (wanted_bits m)"
proof (cases "uid = 0")
  case True
  let ?f = "ucast mode :: 32 word"
  have "check_access file_uid file_gid mode uid gid m \<longleftrightarrow>
      m = 0 \<or> (((m AND bits X_OK) AND NOT (drop_bit 6 ?f)) AND NOT (drop_bit 3 ?f)) AND NOT (drop_bit 0 ?f) = 0"
    using True by (simp add: check_access_def Let_def minus_and_eq F_OK_def)
  also have "\<dots> \<longleftrightarrow> m = 0 \<or> (bit m 0 \<longrightarrow> bit mode 6 \<or> bit mode 3 \<or> bit mode 0)"
    unfolding and_not_zero [of _ "drop_bit 0 ?f"] bit_X_OK_left bit_mode by auto
  also have "\<dots> \<longleftrightarrow> may_access file_uid file_gid mode uid gid (wanted_bits m)"
    using True by (auto simp: may_access_def wanted_bits_def class_bits_def)
  finally show ?thesis .
next
  case False
  have small: "i < 3" if "bit m i" for i using small_mask_bits [OF assms that] .
  have "m - (m AND drop_bit k (ucast mode)) = 0 \<longleftrightarrow> wanted_bits m \<subseteq> class_bits mode k" for k
    using small by (auto simp: minus_and_eq and_not_zero bit_mode wanted_bits_def class_bits_def)
  from this [of 6] this [of 3] this [of 0] False show ?thesis
    by (auto simp: check_access_def may_access_def caller_class_def Let_def wanted_bits_def F_OK_def)
qed

subsection \<open>Properties\<close>

text \<open>
  C20: for every mask of read, write and execute bits, the subtraction-based check grants access
  exactly when the permission bits of the caller's class cover the mask; the super user needs only
  some execute bit, and only to execute.
\<close>

theorem check_access_correct:
  assumes "m < 8"
  shows "check_access file_uid file_gid mode uid gid m = may_access file_uid file_gid mode uid gid (wanted_bits m)"
  using assms by (rule check_access_eq)

theorem check_access_correct_witness:
  "check_access 1 2 416 5 2 4 = may_access 1 2 416 5 2 (wanted_bits 4)"
  by (rule check_access_correct) simp

end
