(* ===== verification/Fuse.thy ===== *)
theory Fuse
  imports Fs_Entries Fuse_Access "HOL-Library.Sublist"
begin

unbundle bit_operations_syntax

text \<open>
  The FUSE handlers of \<open>EncryptedFsFuse3\<close> (\<open>src/mount/linux.rs\<close>): every handler on top of the file
  system, with its permission checks and the error number it answers.

  \<^item> A handler is a computation on \<open>encrypted_fs\<close>; its error is an \<open>errno\<close>, or a panic of the code
    below it. \<open>fuse_cfg\<close> holds the options of the mount and what is read from outside: the lines of
    \<open>/proc/<pid>/task/<pid>/status\<close> and the error number \<open>fuse3\<close> gives an \<open>io::Error\<close>.
  \<^item> A name is the bytes of the \<open>OsStr\<close>; \<open>to_str().unwrap()\<close> panics unless they are UTF-8.
  \<^item> Replies are the values the reply structures carry, without the constant time to live.
\<close>

subsection \<open>Requests, replies, errors\<close>

definition EPERM :: nat where "EPERM = 1"
definition ENOENT :: nat where "ENOENT = 2"
definition EIO :: nat where "EIO = 5"
definition EACCES :: nat where "EACCES = 13"
definition EEXIST :: nat where "EEXIST = 17"
definition ENOTDIR :: nat where "ENOTDIR = 20"
definition EISDIR :: nat where "EISDIR = 21"
definition EINVAL :: nat where "EINVAL = 22"
definition EFBIG :: nat where "EFBIG = 27"
definition ENAMETOOLONG :: nat where "ENAMETOOLONG = 36"
definition ENOSYS :: nat where "ENOSYS = 38"
definition ENOTEMPTY :: nat where "ENOTEMPTY = 39"

lemmas errnos = EPERM_def ENOENT_def EIO_def EACCES_def EEXIST_def ENOTDIR_def EISDIR_def EINVAL_def EFBIG_def
  ENAMETOOLONG_def ENOSYS_def ENOTEMPTY_def

datatype fuse_error = Errno nat | FusePanic | FuseOutOfFuel

record request =
  rq_uid :: "32 word"
  rq_gid :: "32 word"
  rq_pid :: "32 word"

record fuse_cfg =
  fc_direct_io :: bool
  fc_suid_support :: bool
  fc_proc_status :: "32 word \<Rightarrow> string list option"
  fc_io_errno :: "io_error \<Rightarrow> nat"

type_synonym 'a fuse = "(encrypted_fs, fuse_error, 'a) sem"

text \<open>A call of the file system whose errors are answered with the number \<open>h\<close> gives them.\<close>

definition fuse_err :: "(fs_error \<Rightarrow> nat) \<Rightarrow> fs_error \<Rightarrow> fuse_error" where
  "fuse_err h e = (case e of FsPanic \<Rightarrow> FusePanic | OutOfFuel \<Rightarrow> FuseOutOfFuel | _ \<Rightarrow> Errno (h e))"

definition fs_call :: "(fs_error \<Rightarrow> nat) \<Rightarrow> 'a fsm \<Rightarrow> 'a fuse" where
  "fs_call h m = map_err (fuse_err h) m"

definition errno :: "nat \<Rightarrow> 'a fuse" where
  "errno e = throw (Errno e)"

definition or_panic :: "'a option \<Rightarrow> 'a fuse" where
  "or_panic r = (case r of None \<Rightarrow> throw FusePanic | Some a \<Rightarrow> ret a)"

definition to_str :: "string \<Rightarrow> string fuse" where
  "to_str name = or_panic (if utf8_ok (as_bytes name) then Some name else None)"

definition now :: "time fuse" where
  "now = fs_call (\<lambda>_. EIO) system_time_now"

text \<open>\<open>From<FileAttr> for fuse3::FileAttr\<close>.\<close>

record fuse_attr =
  u_ino :: nat
  u_size :: nat
  u_blocks :: nat
  u_atime :: time
  u_mtime :: time
  u_ctime :: time
  u_kind :: file_type
  u_perm :: "16 word"
  u_nlink :: "32 word"
  u_uid :: "32 word"
  u_gid :: "32 word"
  u_rdev :: "32 word"
  u_blksize :: "32 word"

definition fuse_attr_of :: "file_attr \<Rightarrow> fuse_attr" where
  "fuse_attr_of a = \<lparr>u_ino = a_ino a, u_size = a_size a, u_blocks = a_blocks a, u_atime = a_atime a, u_mtime = a_mtime a,
     u_ctime = a_ctime a, u_kind = a_kind a, u_perm = a_perm a, u_nlink = a_nlink a, u_uid = a_uid a, u_gid = a_gid a,
     u_rdev = a_rdev a, u_blksize = a_blksize a\<rparr>"

definition allowed :: "file_attr \<Rightarrow> request \<Rightarrow> nat \<Rightarrow> bool" where
  "allowed a req m = check_access (a_uid a) (a_gid a) (a_perm a) (rq_uid req) (rq_gid req) (bits m)"

definition sticky_denied :: "file_attr \<Rightarrow> file_attr \<Rightarrow> request \<Rightarrow> bool" where
  "sticky_denied parent a req \<longleftrightarrow> a_perm parent AND bits S_ISVTX \<noteq> 0
     \<and> rq_uid req \<noteq> 0 \<and> rq_uid req \<noteq> a_uid parent \<and> rq_uid req \<noteq> a_uid a"

definition unless :: "bool \<Rightarrow> nat \<Rightarrow> unit fuse" where
  "unless b e = (if b then ret () else errno e)"

text \<open>\<open>Ok(Some(attr))\<close> of a lookup; everything else is \<open>ENOENT\<close>.\<close>

definition find_or_enoent :: "fs_env \<Rightarrow> nat \<Rightarrow> string \<Rightarrow> file_attr fuse" where
  "find_or_enoent V parent name =
     bnd (to_str name) (\<lambda>n.
     bnd (fs_call (\<lambda>_. ENOENT) (find_by_name V parent n)) (\<lambda>r. case r of None \<Rightarrow> errno ENOENT | Some a \<Rightarrow> ret a))"

definition reply_attr :: "fs_env \<Rightarrow> nat \<Rightarrow> fuse_attr fuse" where
  "reply_attr V ino = bnd (fs_call (\<lambda>_. ENOENT) (get_attr V ino)) (\<lambda>a. ret (fuse_attr_of a))"

subsection \<open>Attributes\<close>

definition lookup :: "fs_env \<Rightarrow> request \<Rightarrow> nat \<Rightarrow> string \<Rightarrow> fuse_attr fuse" where
  "lookup V req parent name =
     bnd (fs_call (\<lambda>_. ENOENT) (get_attr V parent)) (\<lambda>pa.
     bnd (unless (allowed pa req X_OK) EACCES) (\<lambda>_.
     bnd (find_or_enoent V parent name) (\<lambda>a. ret (fuse_attr_of a))))"

definition getattr :: "fs_env \<Rightarrow> request \<Rightarrow> nat \<Rightarrow> fuse_attr fuse" where
  "getattr V req ino = reply_attr V ino"

record fuse_set_attr =
  fa_mode :: "32 word option"
  fa_uid :: "32 word option"
  fa_gid :: "32 word option"
  fa_size :: "nat option"
  fa_atime :: "(int \<times> nat) option"
  fa_mtime :: "(int \<times> nat) option"

definition setattr_chmod :: "fs_env \<Rightarrow> fuse_cfg \<Rightarrow> request \<Rightarrow> nat \<Rightarrow> file_attr \<Rightarrow> 32 word \<Rightarrow> fuse_attr fuse" where
  "setattr_chmod V C req ino attr mode =
     bnd (unless (\<not> (rq_uid req \<noteq> 0 \<and> rq_uid req \<noteq> a_uid attr)) EPERM) (\<lambda>_.
     bnd (if rq_uid req \<noteq> 0 \<and> rq_gid req \<noteq> a_gid attr
          then bnd (or_panic (get_groups (fc_proc_status C (rq_pid req)))) (\<lambda>gs. ret (a_gid attr \<notin> set gs)) else ret False) (\<lambda>strip.
     bnd now (\<lambda>t.
     let sa = with_atime t (with_perm (if strip then ucast (mode AND NOT (bits S_ISGID)) else ucast mode) set_attr_default) in
     bnd (fs_call (\<lambda>_. EIO) (set_attr V ino sa)) (\<lambda>_. reply_attr V ino))))"

text \<open>
  The branch for a change of owner or group looks for the new owner in its own fresh
  \<open>SetFileAttr\<close>, not in the request.
\<close>

definition setattr_chown :: "fs_env \<Rightarrow> fuse_cfg \<Rightarrow> request \<Rightarrow> nat \<Rightarrow> file_attr \<Rightarrow> fuse_attr fuse" where
  "setattr_chown V C req ino attr =
     (let sa = set_attr_default in
     bnd (case s_gid sa of None \<Rightarrow> ret () | Some gid \<Rightarrow>
            if rq_uid req \<noteq> 0 then bnd (or_panic (get_groups (fc_proc_status C (rq_pid req)))) (\<lambda>gs. unless (gid \<in> set gs) EPERM)
            else ret ()) (\<lambda>_.
     bnd (case s_uid sa of None \<Rightarrow> ret () | Some uid \<Rightarrow>
            unless (\<not> (rq_uid req \<noteq> 0 \<and> \<not> (uid = a_uid attr \<and> rq_uid req = a_uid attr))) EPERM) (\<lambda>_.
     bnd (unless (\<not> (s_gid sa \<noteq> None \<and> rq_uid req \<noteq> 0 \<and> rq_uid req \<noteq> a_uid attr)) EPERM) (\<lambda>_.
     let perm = (if a_perm attr AND bits S_IXALL \<noteq> 0 then clear_suid_sgid (a_perm attr) else a_perm attr);
         perm = (if s_uid sa = None then perm else perm AND NOT (bits S_ISUID));
         perm = (if s_gid sa \<noteq> None \<and> rq_uid req \<noteq> 0 then perm AND NOT (bits S_ISGID) else perm);
         sa' = with_perm perm sa
     in
     bnd now (\<lambda>t.
     bnd (fs_call (\<lambda>_. EIO) (set_attr V ino (with_atime t sa'))) (\<lambda>_. reply_attr V ino))))))"

definition utimens_allowed :: "file_attr \<Rightarrow> request \<Rightarrow> bool" where
  "utimens_allowed attr req \<longleftrightarrow> \<not> (a_uid attr \<noteq> rq_uid req \<and> \<not> allowed attr req W_OK)"

definition setattr_rest :: "fs_env \<Rightarrow> request \<Rightarrow> nat \<Rightarrow> file_attr \<Rightarrow> fuse_set_attr \<Rightarrow> fuse_attr fuse" where
  "setattr_rest V req ino attr fa =
     bnd (case fa_size fa of None \<Rightarrow> ret set_attr_default
          | Some sz \<Rightarrow> bnd (fs_call (\<lambda>_. EIO) (set_len V ino sz)) (\<lambda>_.
              ret (with_perm (clear_suid_sgid (a_perm attr)) (with_size sz set_attr_default)))) (\<lambda>sa.
     bnd (case fa_atime fa of None \<Rightarrow> ret sa
          | Some t \<Rightarrow> bnd (unless (utimens_allowed attr req) EACCES) (\<lambda>_.
              bnd (or_panic (system_time_from_timestamp t)) (\<lambda>at. bnd now (\<lambda>c. ret (with_ctime c (with_atime at sa)))))) (\<lambda>sa.
     bnd (case fa_mtime fa of None \<Rightarrow> ret sa
          | Some t \<Rightarrow> bnd (unless (utimens_allowed attr req) EACCES) (\<lambda>_.
              bnd (or_panic (system_time_from_timestamp t)) (\<lambda>mt. bnd now (\<lambda>c. ret (with_ctime c (with_mtime mt sa)))))) (\<lambda>sa.
     bnd (fs_call (\<lambda>_. EIO) (set_attr V ino sa)) (\<lambda>_. reply_attr V ino))))"

definition setattr :: "fs_env \<Rightarrow> fuse_cfg \<Rightarrow> request \<Rightarrow> nat \<Rightarrow> fuse_set_attr \<Rightarrow> fuse_attr fuse" where
  "setattr V C req ino fa =
     bnd (fs_call (\<lambda>_. ENOENT) (get_attr V ino)) (\<lambda>attr.
     case fa_mode fa of Some mode \<Rightarrow> setattr_chmod V C req ino attr mode
     | None \<Rightarrow> if fa_uid fa \<noteq> None \<or> fa_gid fa \<noteq> None then setattr_chown V C req ino attr
         else setattr_rest V req ino attr fa)"

subsection \<open>Creating nodes\<close>

text \<open>\<open>source.to_string().to_lowercase().contains("too long")\<close>, on ASCII.\<close>

definition lower :: "char \<Rightarrow> char" where
  "lower c = (if 65 \<le> (of_char c :: nat) \<and> of_char c \<le> (90 :: nat) then char_of (of_char c + 32 :: nat) else c)"

definition create_errno :: "fs_error \<Rightarrow> nat" where
  "create_errno e = (case e of FsAlreadyExists \<Rightarrow> EEXIST
     | FsIo (IoErr _ msg) \<Rightarrow> if sublist ''too long'' (map lower msg) then ENAMETOOLONG else EIO
     | _ \<Rightarrow> EIO)"

definition create_nod :: "fs_env \<Rightarrow> fuse_cfg \<Rightarrow> nat \<Rightarrow> 32 word \<Rightarrow> request \<Rightarrow> string \<Rightarrow> bool \<Rightarrow> bool \<Rightarrow> (nat \<times> file_attr) fuse" where
  "create_nod V C parent mode req name rd wr =
     bnd (fs_call (\<lambda>_. ENOENT) (get_attr V parent)) (\<lambda>pa.
     bnd (unless (allowed pa req W_OK) EACCES) (\<lambda>_.
     let mode = (if rq_uid req \<noteq> 0 then mode AND NOT (bits S_ISUID OR bits S_ISGID) else mode) in
     bnd (or_panic (as_file_kind mode)) (\<lambda>kind.
     let attr = (if kind = Directory then dir_attr else file_attr_default)
           \<lparr>c_perm := creation_mode (fc_suid_support C) mode, c_uid := rq_uid req, c_gid := creation_gid pa (rq_gid req)\<rparr> in
     bnd (to_str name) (\<lambda>n. fs_call create_errno (create V parent n attr rd wr)))))"

definition mknod :: "fs_env \<Rightarrow> fuse_cfg \<Rightarrow> request \<Rightarrow> nat \<Rightarrow> string \<Rightarrow> 32 word \<Rightarrow> fuse_attr fuse" where
  "mknod V C req parent name mode =
     (if mode AND bits S_IFMT \<noteq> bits S_IFREG \<and> mode AND bits S_IFMT \<noteq> bits S_IFDIR then errno ENOSYS
      else bnd (create_nod V C parent mode req name False False) (\<lambda>(_, attr). ret (fuse_attr_of attr)))"

definition mkdir :: "fs_env \<Rightarrow> fuse_cfg \<Rightarrow> request \<Rightarrow> nat \<Rightarrow> string \<Rightarrow> 32 word \<Rightarrow> fuse_attr fuse" where
  "mkdir V C req parent name mode =
     bnd (fs_call (\<lambda>_. ENOENT) (get_attr V parent)) (\<lambda>pa.
     bnd (unless (allowed pa req W_OK) EACCES) (\<lambda>_.
     let mode = (if rq_uid req \<noteq> 0 then mode AND NOT (bits S_ISUID OR bits S_ISGID) else mode);
         mode = (if a_perm pa AND bits S_ISGID \<noteq> 0 then mode OR bits S_ISGID else mode);
         attr = dir_attr\<lparr>c_perm := creation_mode (fc_suid_support C) mode, c_uid := rq_uid req, c_gid := creation_gid pa (rq_gid req)\<rparr>
     in
     bnd (to_str name) (\<lambda>n.
     bnd (fs_call (\<lambda>_. ENOENT) (create V parent n attr False False)) (\<lambda>(_, attr). ret (fuse_attr_of attr)))))"

text \<open>The access mode of an \<open>open\<close>-like call: read, write, or none of the three modes.\<close>

definition access_mode :: "32 word \<Rightarrow> (bool \<times> bool) option" where
  "access_mode flags = (let m = flags AND 3 in
     if m = 0 then Some (True, False) else if m = 1 then Some (False, True) else if m = 2 then Some (True, True) else None)"

definition fuse_create :: "fs_env \<Rightarrow> fuse_cfg \<Rightarrow> request \<Rightarrow> nat \<Rightarrow> string \<Rightarrow> 32 word \<Rightarrow> 32 word \<Rightarrow> (fuse_attr \<times> nat) fuse" where
  "fuse_create V C req parent name mode flags =
     (case access_mode flags of None \<Rightarrow> errno EINVAL
      | Some (rd, wr) \<Rightarrow>
          bnd (map_err (\<lambda>e. case e of Errno _ \<Rightarrow> Errno ENOENT | _ \<Rightarrow> e) (create_nod V C parent mode req name rd wr)) (\<lambda>(handle, attr).
          ret (fuse_attr_of attr, handle)))"

subsection \<open>Removing and renaming\<close>

definition unlink :: "fs_env \<Rightarrow> request \<Rightarrow> nat \<Rightarrow> string \<Rightarrow> unit fuse" where
  "unlink V req parent name =
     bnd (fs_call (\<lambda>_. ENOENT) (get_attr V parent)) (\<lambda>pa.
     bnd (unless (allowed pa req W_OK) EACCES) (\<lambda>_.
     bnd (find_or_enoent V parent name) (\<lambda>attr.
     bnd (unless (\<not> sticky_denied pa attr req) EACCES) (\<lambda>_.
     bnd (to_str name) (\<lambda>n. fs_call (\<lambda>_. ENOENT) (remove_file V parent n))))))"

definition rmdir_errno :: "fs_error \<Rightarrow> nat" where
  "rmdir_errno e = (case e of NotEmpty \<Rightarrow> EISDIR | _ \<Rightarrow> EIO)"

definition rmdir :: "fs_env \<Rightarrow> request \<Rightarrow> nat \<Rightarrow> string \<Rightarrow> unit fuse" where
  "rmdir V req parent name =
     bnd (fs_call (\<lambda>_. ENOENT) (get_attr V parent)) (\<lambda>pa.
     bnd (unless (allowed pa req W_OK) EACCES) (\<lambda>_.
     bnd (find_or_enoent V parent name) (\<lambda>attr.
     bnd (unless (a_kind attr = Directory) ENOTDIR) (\<lambda>_.
     bnd (unless (\<not> sticky_denied pa attr req) EACCES) (\<lambda>_.
     bnd (to_str name) (\<lambda>n. fs_call rmdir_errno (remove_dir V parent n)))))))"

definition rename_errno :: "fs_error \<Rightarrow> nat" where
  "rename_errno e = (case e of NotEmpty \<Rightarrow> ENOTEMPTY | _ \<Rightarrow> ENOENT)"

text \<open>Only a result \<open>Ok(Some(..))\<close> of the lookup of the target matters; a panic is still one.\<close>

definition sticky_target :: "fs_env \<Rightarrow> request \<Rightarrow> file_attr \<Rightarrow> nat \<Rightarrow> string \<Rightarrow> unit fuse" where
  "sticky_target V req npa new_parent new_name =
     (if a_perm npa AND bits S_ISVTX = 0 then ret ()
      else
        bnd (to_str new_name) (\<lambda>n.
        bnd (attempt (find_by_name V new_parent n)) (\<lambda>r. case r of
          Inl FsPanic \<Rightarrow> throw FusePanic
        | Inr (Some na) \<Rightarrow> unless (\<not> (rq_uid req \<noteq> 0 \<and> rq_uid req \<noteq> a_uid npa \<and> rq_uid req \<noteq> a_uid na)) EACCES
        | _ \<Rightarrow> ret ())))"

definition fuse_rename :: "fs_env \<Rightarrow> request \<Rightarrow> nat \<Rightarrow> string \<Rightarrow> nat \<Rightarrow> string \<Rightarrow> unit fuse" where
  "fuse_rename V req parent name new_parent new_name =
     bnd (find_or_enoent V parent name) (\<lambda>attr.
     bnd (fs_call (\<lambda>_. ENOENT) (get_attr V parent)) (\<lambda>pa.
     bnd (unless (allowed pa req W_OK) EACCES) (\<lambda>_.
     bnd (unless (\<not> sticky_denied pa attr req) EACCES) (\<lambda>_.
     bnd (fs_call (\<lambda>_. ENOENT) (get_attr V new_parent)) (\<lambda>npa.
     bnd (unless (allowed npa req W_OK) EACCES) (\<lambda>_.
     bnd (sticky_target V req npa new_parent new_name) (\<lambda>_.
     bnd (unless (\<not> (a_kind attr = Directory \<and> parent \<noteq> new_parent \<and> \<not> allowed attr req W_OK)) EACCES) (\<lambda>_.
     bnd (to_str name) (\<lambda>n. bnd (to_str new_name) (\<lambda>nn.
     fs_call rename_errno (fs_rename V parent n new_parent nn)))))))))))"

subsection \<open>Files\<close>

definition FMODE_EXEC :: nat where "FMODE_EXEC = 32"
definition O_TRUNC :: nat where "O_TRUNC = 512"
definition FOPEN_DIRECT_IO :: nat where "FOPEN_DIRECT_IO = 1"

definition open_mask :: "bool \<Rightarrow> bool \<Rightarrow> bool \<Rightarrow> nat" where
  "open_mask exec rd wr = (if rd \<and> wr then R_OK + W_OK else if wr then W_OK else if exec then X_OK else R_OK)"

definition fuse_open :: "fs_env \<Rightarrow> fuse_cfg \<Rightarrow> request \<Rightarrow> nat \<Rightarrow> 32 word \<Rightarrow> (nat \<times> nat) fuse" where
  "fuse_open V C req ino flags =
     (let trunc = (flags AND bits O_TRUNC \<noteq> 0) in
      case access_mode flags of None \<Rightarrow> errno EINVAL
      | Some (rd, wr) \<Rightarrow>
          if \<not> wr \<and> trunc then errno EACCES
          else
            bnd (fs_call (\<lambda>_. EIO) (get_attr V ino)) (\<lambda>attr.
            if \<not> allowed attr req (open_mask (flags AND bits FMODE_EXEC \<noteq> 0) rd wr) then errno EACCES
            else
              bnd (if trunc then fs_call (\<lambda>_. EIO) (set_len V (a_ino attr) 0) else ret ()) (\<lambda>_.
              bnd (fs_call (\<lambda>_. EIO) (fs_open V ino rd wr)) (\<lambda>fh.
              ret (fh, if fc_direct_io C then FOPEN_DIRECT_IO else 0)))))"

definition fuse_read :: "fs_env \<Rightarrow> nat \<Rightarrow> nat \<Rightarrow> nat \<Rightarrow> nat \<Rightarrow> bytes fuse" where
  "fuse_read V ino fh offset sz = fs_call (\<lambda>_. EIO) (fs_read V ino offset sz fh)"

definition write_errno :: "fs_error \<Rightarrow> nat" where
  "write_errno e = (case e of MaxFilesizeExceeded _ \<Rightarrow> EFBIG | _ \<Rightarrow> EIO)"

definition fuse_write :: "fs_env \<Rightarrow> nat \<Rightarrow> nat \<Rightarrow> nat \<Rightarrow> bytes \<Rightarrow> 32 word fuse" where
  "fuse_write V ino fh offset d =
     bnd (fs_call write_errno (fs_write V ino offset d fh)) (\<lambda>len. ret (word_of_nat len))"

definition fuse_flush :: "fs_env \<Rightarrow> nat \<Rightarrow> unit fuse" where
  "fuse_flush V fh = fs_call (\<lambda>_. EIO) (fs_flush V fh)"

text \<open>
  \<open>is_write_handle\<close> is an async call: its future is created before the release and awaited, hence
  evaluated, after it.
\<close>

definition fuse_release :: "fs_env \<Rightarrow> nat \<Rightarrow> nat \<Rightarrow> bool \<Rightarrow> unit fuse" where
  "fuse_release V ino fh flush =
     bnd (if flush then fs_call (\<lambda>_. EIO) (fs_flush V fh) else ret ()) (\<lambda>_.
     bnd (fs_call (\<lambda>_. EIO) (fs_release V fh)) (\<lambda>_.
     bnd (gets (\<lambda>s. f_write_handles s fh \<noteq> None)) (\<lambda>is_write_handle.
     if is_write_handle then
       bnd (fs_call (\<lambda>_. ENOENT) (get_attr V ino)) (\<lambda>attr.
       fs_call (\<lambda>_. EIO) (set_attr V ino (with_perm (clear_suid_sgid (a_perm attr)) set_attr_default)))
     else ret ())))"

definition fuse_copy_file_range :: "fs_env \<Rightarrow> nat \<Rightarrow> nat \<Rightarrow> nat \<Rightarrow> nat \<Rightarrow> nat \<Rightarrow> nat \<Rightarrow> nat \<Rightarrow> nat fuse" where
  "fuse_copy_file_range V ino fh_in off_in ino_out fh_out off_out len =
     fs_call (\<lambda>_. EIO) (copy_file_range V ino off_in ino_out off_out len fh_in fh_out)"

definition fuse_access :: "fs_env \<Rightarrow> request \<Rightarrow> nat \<Rightarrow> 32 word \<Rightarrow> unit fuse" where
  "fuse_access V req ino m =
     bnd (fs_call (\<lambda>_. ENOENT) (get_attr V ino)) (\<lambda>a.
     unless (check_access (a_uid a) (a_gid a) (a_perm a) (rq_uid req) (rq_gid req) m) EACCES)"

subsection \<open>Directories\<close>

definition opendir :: "fs_env \<Rightarrow> fuse_cfg \<Rightarrow> request \<Rightarrow> nat \<Rightarrow> 32 word \<Rightarrow> (nat \<times> nat) fuse" where
  "opendir V C req ino flags =
     (case access_mode flags of None \<Rightarrow> errno EINVAL
      | Some (rd, wr) \<Rightarrow>
          if \<not> wr \<and> flags AND bits O_TRUNC \<noteq> 0 then errno EACCES
          else
            bnd (fs_call (\<lambda>_. ENOENT) (get_attr V ino)) (\<lambda>attr.
            if allowed attr req (open_mask False rd wr)
            then ret (0, if fc_direct_io C then FOPEN_DIRECT_IO else 0) else errno EACCES))"

record fuse_dirent =
  fd_ino :: nat
  fd_kind :: file_type
  fd_name :: string
  fd_offset :: int

record fuse_dirent_plus = fuse_dirent +
  fd_attr :: fuse_attr

definition entry_errno :: "fuse_cfg \<Rightarrow> fs_error \<Rightarrow> nat" where
  "entry_errno C e = (case e of FsIo io \<Rightarrow> fc_io_errno C io | _ \<Rightarrow> EIO)"

text \<open>The iterators: an entry carries the number of good entries up to it, an error does not count.\<close>

fun dirents :: "fuse_cfg \<Rightarrow> nat \<Rightarrow> (fs_error + directory_entry) list \<Rightarrow> (nat + fuse_dirent) list" where
  "dirents C n [] = []"
| "dirents C n (Inl e # es) = Inl (entry_errno C e) # dirents C n es"
| "dirents C n (Inr d # es) = Inr \<lparr>fd_ino = de_ino d, fd_kind = de_kind d, fd_name = de_name d, fd_offset = as_i64 (Suc n)\<rparr>
     # dirents C (Suc n) es"

fun dirents_plus :: "fuse_cfg \<Rightarrow> nat \<Rightarrow> (fs_error + directory_entry_plus) list \<Rightarrow> (nat + fuse_dirent_plus) list" where
  "dirents_plus C n [] = []"
| "dirents_plus C n (Inl e # es) = Inl (entry_errno C e) # dirents_plus C n es"
| "dirents_plus C n (Inr d # es) = Inr \<lparr>fd_ino = de_ino d, fd_kind = de_kind d, fd_name = de_name d, fd_offset = as_i64 (Suc n),
     fd_attr = fuse_attr_of (de_attr d)\<rparr> # dirents_plus C (Suc n) es"

definition as_usize :: "int \<Rightarrow> nat" where
  "as_usize i = nat (i mod 2 ^ 64)"

definition readdir :: "fs_env \<Rightarrow> fuse_cfg \<Rightarrow> nat \<Rightarrow> int \<Rightarrow> (nat + fuse_dirent) list fuse" where
  "readdir V C ino offset =
     bnd (fs_call (\<lambda>_. EIO) (read_dir V ino)) (\<lambda>es. ret (drop (as_usize offset) (dirents C 0 es)))"

definition readdirplus :: "fs_env \<Rightarrow> fuse_cfg \<Rightarrow> nat \<Rightarrow> nat \<Rightarrow> (nat + fuse_dirent_plus) list fuse" where
  "readdirplus V C parent offset =
     bnd (fs_call (\<lambda>_. EIO) (read_dir_plus V parent)) (\<lambda>es. ret (drop offset (dirents_plus C 0 es)))"

subsection \<open>Stubs\<close>

definition releasedir :: "unit fuse" where "releasedir = ret ()"
definition fuse_init :: "nat fuse" where "fuse_init = ret (1024 * 1024)"

record statfs_reply =
  sf_blocks :: nat
  sf_bfree :: nat
  sf_bavail :: nat
  sf_files :: nat
  sf_ffree :: nat
  sf_bsize :: nat
  sf_namelen :: nat
  sf_frsize :: nat

definition statfs :: "statfs_reply fuse" where
  "statfs = ret \<lparr>sf_blocks = 1, sf_bfree = 0, sf_bavail = 0, sf_files = 1, sf_ffree = 0, sf_bsize = 4096,
     sf_namelen = 2 ^ 32 - 1, sf_frsize = 0\<rparr>"

end
