(* ===== verification/Fs_Resize.thy ===== *)
theory Fs_Resize
  imports Fs_Files
begin

text \<open>
  Changing the length of a file: \<open>set_len\<close> copies the kept part through a decrypting reader into an
  encrypting writer, appends zeros and commits the new file.
\<close>

subsection \<open>The new content\<close>

interpretation resize_pipe: io_pipe "ring_read E" "r_rem E pt" "r_inv E ct pt" "ring_write E" "w_content E" "\<lambda>w. w_inv E w \<and> w_key w = key"
  for E ct pt key
  by unfold_locales

lemma resize_content_ok:
  assumes V: "fs_env_ok V" "key_ok V key" and f: "enc_file (v_aead V) key ct pt" and len: "min old sz \<le> length pt"
  obtains ct' where "resize_content V seed key ct old sz = Inr ct'"
    "enc_file (v_aead V) key ct' (take (min old sz) pt @ replicate (sz - old) 0)"
proof -
  let ?E = "v_aead V"
  have E: "aead_ok ?E" using V(1) by (rule v_aead_ok)
  obtain r where r: "create_read (v_crypto V) (stream_of ct) (v_cipher V) key = Inr r" "ring_crypto_read_new ?E (stream_of ct) key = Inr r"
    using V(2) by (simp add: create_read_def v_aead_def ring_crypto_read_new_def Let_def key_len_def key_ok_def)
  obtain w where w: "create_write (v_crypto V) seed (stream_of []) (v_cipher V) key = Inr w" "ring_crypto_write_new ?E seed (stream_of []) key = Inr w"
    using V(2) by (simp add: create_write_def v_aead_def ring_crypto_write_new_def Let_def key_len_def key_ok_def)
  note ri = r_inv_new [OF E f r(2)] and wi = w_inv_new [OF E w(2)]
  define n where "n = (if sz > old then old else sz)"
  have n: "n = min old sz" "n \<le> length pt" using len by (auto simp: n_def)
  obtain r1 w1 where c: "copy_exact (ring_read ?E) (ring_write ?E) n (r, w) = (Inr (), (r1, w1))"
    "w_content ?E w1 = take n pt" "w_inv ?E w1" "w_key w1 = key"
    using resize_pipe.copy_exact_ok [OF ri(1), of w key n] wi ri(2) n(2) by auto
  obtain w2 where z: "whenM (sz > old) (fill_zeros (ring_write ?E) (sz - old)) w1 = (Inr (), w2)"
    "w_content ?E w2 = take n pt @ replicate (sz - old) 0" "w_inv ?E w2" "w_key w2 = key"
    using crypto_writer.fill_zeros_ok [of ?E w1 key "sz - old"] c(2-4) by (cases "sz > old") (auto simp: whenM_def)
  obtain out w3 where fin: "ring_finish ?E w2 = (Inr out, w3)" "enc_file ?E key (sdata out) (take n pt @ replicate (sz - old) 0)"
    using ring_finish_ok [OF z(3)] z(2,4) by auto
  have "resize_content V seed key ct old sz = Inr (sdata out)"
    using r(1) w(1) c(1) z(1) fin(1) by (simp add: resize_content_def flip: n_def)
  with that fin(2) n(1) show thesis by simp
qed

subsection \<open>\<open>set_len\<close> on a closed file\<close>

text \<open>What the content step leaves: the file has its new plaintext, everything else is as before.\<close>

definition has_content :: "fs_env \<Rightarrow> encrypted_fs \<Rightarrow> nat \<Rightarrow> bytes \<Rightarrow> bool" where
  "has_content V s ino pt \<longleftrightarrow> (\<exists>obj. st_contents (f_store s) ino = Some (CFile obj) \<and> enc_file (v_aead V) (f_key s) (st_objs (f_store s) obj) pt)"

lemma new_content_step:
  assumes V: "fs_env_ok V" "key_ok V (f_key s)" and f: "has_content V s ino pt"
  obtains s' where "(if n = 0 then create_content_file ino
       else bnd (open_content ino) (\<lambda>obj.
            bnd create_rng (\<lambda>seed.
            bnd (gets (\<lambda>s. (st_objs (f_store s) obj, f_key s))) (\<lambda>(ct, key).
            bnd (lift_err io_err (resize_content V seed key ct (length pt) n)) (\<lambda>ct'.
            commit_content_file ino ct'))))) s = (Inr (), s')"
    "has_content V s' ino (take n pt @ replicate (n - length pt) 0)" "same_core s s'" "f_time s' = f_time s"
    "\<forall>i. i \<noteq> ino \<longrightarrow> st_contents (f_store s') i = st_contents (f_store s) i"
proof -
  obtain obj where o: "st_contents (f_store s) ino = Some (CFile obj)" "enc_file (v_aead V) (f_key s) (st_objs (f_store s) obj) pt"
    using f by (auto simp: has_content_def)
  show thesis
  proof (cases "n = 0")
    case True
    have "enc_file (v_aead V) (f_key s) [] []" using v_aead_ok [OF V(1)] by simp
    with True o(1) show ?thesis
      by (intro that [of "put_obj obj [] s"]) (simp_all add: create_content_file_def has_content_def put_obj_def same_core_def handle_view_def)
  next
    case False
    have le: "min (length pt) n \<le> length pt" by simp
    obtain ct' where c: "resize_content V (f_rng s) (f_key s) (st_objs (f_store s) obj) (length pt) n = Inr ct'"
      "enc_file (v_aead V) (f_key s) ct' (take (min (length pt) n) pt @ replicate (n - length pt) 0)"
      by (rule resize_content_ok [OF V o(2) le])
    have t: "take (min (length pt) n) pt = take n pt" by (simp add: min_def)
    let ?st = "(f_store s)\<lparr>st_contents := (st_contents (f_store s))(ino \<mapsto> CFile (st_next_obj (f_store s))),
       st_objs := (st_objs (f_store s))(st_next_obj (f_store s) := ct'), st_next_obj := Suc (st_next_obj (f_store s))\<rparr>"
    show ?thesis
      by (rule that [of "s\<lparr>f_rng := Suc (f_rng s), f_store := ?st\<rparr>"])
        (use False o(1) c t in \<open>simp_all add: open_content_def create_rng_def lift_err_def commit_content_file_def
           has_content_def same_core_def handle_view_def\<close>)
  qed
qed

lemma file_at_alt:
  "file_at V s ino pt sz \<longleftrightarrow> inodes_ok V s \<and> handles_ok s \<and> f_opened_read s ino = None \<and> f_opened_write s ino = None
     \<and> has_content V s ino pt \<and> map_option a_size (stored_attr V s ino) = Some sz"
  by (auto simp: file_at_def has_content_def)

lemma has_content_meta: "same_but_meta s s' \<Longrightarrow> has_content V s' ino pt = has_content V s ino pt"
  by (simp add: has_content_def same_but_metaD)

lemma get_inode_stored: "stored_attr V s ino = Some a \<Longrightarrow> get_inode_from_storage V ino s = (Inr a, s)"
  by (auto simp: stored_attr_def get_inode_from_storage_def split: option.splits sum.splits)

lemma get_attr_closed:
  assumes "inodes_ok V s" "stored_attr V s ino = Some a" "f_opened_read s ino = None" "f_opened_write s ino = None"
  obtains s' where "get_attr V ino s = (Inr a, s')" "inodes_ok V s'" "stored_attr V s' = stored_attr V s" "same_but_meta s s'" "f_store s' = f_store s"
  by (rule get_attr_ok [OF assms(1,2), unfolded merge_no_handles [OF assms(3,4)]]) (rule that; assumption)

text \<open>The attributes after the content: the new size is recorded, and nobody's handle has to be reset.\<close>

lemma record_size:
  assumes V: "fs_env_ok V" "inodes_ok V s" and a: "stored_attr V s ino = Some a" and n: "f_opened_read s ino = None" "f_opened_write s ino = None"
  obtains s' a' where "bnd system_time_now (\<lambda>now.
       bnd (set_attr2 V ino (with_atime now (with_ctime now (with_mtime now (with_size sz set_attr_default)))) True) (\<lambda>_.
       bnd (get_inode_from_storage V ino) (\<lambda>_.
       bnd (get_attr V ino) (\<lambda>attr.
       bnd (reset_handles V (a_ino attr) None False) (\<lambda>_.
       bnd (get_inode_from_storage V ino) (\<lambda>_.
       bnd (get_attr V ino) (\<lambda>_. ret ()))))))) s = (Inr (), s')"
    "inodes_ok V s'" "stored_attr V s' = (stored_attr V s)(ino \<mapsto> a')" "a_size a' = sz" "a_kind a' = a_kind a" "a_perm a' = a_perm a"
    "same_but_meta s s'"
proof -
  let ?s1 = "s\<lparr>f_time := Suc (f_time s)\<rparr>"
  define sa where "sa = with_atime (f_time s) (with_ctime (f_time s) (with_mtime (f_time s) (with_size sz set_attr_default)))"
  have i1: "inodes_ok V ?s1" "stored_attr V ?s1 ino = Some a" using V(2) a by (simp_all add: inodes_ok_def attr_cache_ok_def)
  have mg: "merge_open_handles ?s1 ino a = a" by (rule merge_no_handles) (use n in simp_all)
  define a' where "a' = (merge_attr a sa True)\<lparr>a_ctime := f_time ?s1, a_atime := f_time ?s1\<rparr>"
  obtain s2 where s2: "set_attr2 V ino sa True ?s1 = (Inr (), s2)" "inodes_ok V s2" "stored_attr V s2 = (stored_attr V ?s1)(ino \<mapsto> a')" "same_but_meta ?s1 s2"
    by (rule set_attr2_ok [OF V(1) i1, of sa True, unfolded mg, folded a'_def]) (rule that; assumption)
  have n2: "f_opened_read s2 ino = None" "f_opened_write s2 ino = None" and st2: "stored_attr V s2 ino = Some a'"
    using same_but_metaD [OF s2(4)] n s2(3) by simp_all
  obtain s3 where s3: "get_attr V ino s2 = (Inr a', s3)" "inodes_ok V s3" "stored_attr V s3 = stored_attr V s2" "same_but_meta s2 s3"
    by (rule get_attr_closed [OF s2(2) st2 n2]) (rule that; assumption)
  have n3: "f_opened_read s3 ino = None" "f_opened_write s3 ino = None" and st3: "stored_attr V s3 ino = Some a'"
    using same_but_metaD [OF s3(4)] n2 s3(3) st2 by simp_all
  have ino: "a_ino a' = ino" using s3(2) st3 stored_attr_exists [OF st3] by (auto simp: inodes_ok_def)
  have rs: "reset_handles V ino None False s3 = (Inr (), s3)" by (rule reset_handles_none) (use n3 in simp_all)
  obtain s4 where s4: "get_attr V ino s3 = (Inr a', s4)" "inodes_ok V s4" "stored_attr V s4 = stored_attr V s3" "same_but_meta s3 s4"
    by (rule get_attr_closed [OF s3(2) st3 n3]) (rule that; assumption)
  have m1: "same_but_meta s ?s1" by (simp add: same_but_meta_def)
  have m: "same_but_meta s s4" using same_but_meta_trans [OF same_but_meta_trans [OF same_but_meta_trans [OF m1 s2(4)] s3(4)] s4(4)] .
  show thesis
  proof (rule that [OF _ s4(2) _ _ _ _ m])
    show "stored_attr V s4 = (stored_attr V s)(ino \<mapsto> a')" using s4(3) s3(3) s2(3) by simp
    show "a_size a' = sz" "a_kind a' = a_kind a" "a_perm a' = a_perm a" by (simp_all add: a'_def sa_def merge_attr_def set_attr_defs)
  qed (use s2(1) [unfolded sa_def] get_inode_stored [OF st2] s3(1) ino rs get_inode_stored [OF st3] s4(1) in \<open>simp add: system_time_now_def\<close>)
qed

lemma set_len_ok:
  assumes V: "fs_env_ok V" and f: "file_at V s ino pt (length pt)" and a: "stored_attr V s ino = Some a" "a_kind a = RegularFile"
  obtains s' a' where "set_len V ino n s = (Inr (), s')" "file_at V s' ino (take n pt @ replicate (n - length pt) 0) n"
    "stored_attr V s' = (stored_attr V s)(ino \<mapsto> a')" "a_kind a' = a_kind a" "a_perm a' = a_perm a"
    "\<forall>i. i \<noteq> ino \<longrightarrow> st_contents (f_store s') i = st_contents (f_store s) i" "handle_view s' = handle_view s"
proof -
  have F: "inodes_ok V s" "handles_ok s" "f_opened_read s ino = None" "f_opened_write s ino = None" "has_content V s ino pt" "a_size a = length pt"
    using f a(1) by (simp_all add: file_at_alt)
  obtain s1 where s1: "get_attr V ino s = (Inr a, s1)" "inodes_ok V s1" "stored_attr V s1 = stored_attr V s" "same_but_meta s s1"
    by (rule get_attr_closed [OF F(1) a(1) F(3,4)]) (rule that; assumption)
  note m1 = same_but_metaD [OF s1(4)]
  have hv1: "handle_view s1 = handle_view s" by (rule handle_view_meta [OF s1(4)])
  have c1: "has_content V s1 ino pt" using F(5) has_content_meta [OF s1(4)] by simp
  show thesis
  proof (cases "n = length pt")
    case True
    have "set_len V ino n s = (Inr (), s1)" using s1(1) a(2) F(6) True by (simp add: set_len_def)
    moreover have "handles_ok s1" using F(2) hv1 by (simp add: handles_ok_def handle_view_def)
    then have "file_at V s1 ino (take n pt @ replicate (n - length pt) 0) n"
      using s1(2,3) m1 F c1 a(1) True by (simp add: file_at_alt)
    moreover have "stored_attr V s1 = (stored_attr V s)(ino \<mapsto> a)" using s1(3) a(1) by (simp add: fun_upd_idem)
    ultimately show ?thesis using that [of s1 a] m1(1) hv1 by simp
  next
    case False
    have k: "key_ok V (f_key s1)" using s1(2) by (simp add: inodes_ok_def)
    have fl: "flush_and_reset_writers V ino s1 = (Inr (), s1)" using F(4) m1(7) by (simp add: flush_and_reset_writers_def)
    define m where "m = (if n = 0 then create_content_file ino
       else bnd (open_content ino) (\<lambda>obj.
            bnd create_rng (\<lambda>seed.
            bnd (gets (\<lambda>s. (st_objs (f_store s) obj, f_key s))) (\<lambda>(ct, key).
            bnd (lift_err io_err (resize_content V seed key ct (a_size a) n)) (\<lambda>ct'.
            commit_content_file ino ct')))))"
    obtain s2 where s2: "m s1 = (Inr (), s2)"
      "has_content V s2 ino (take n pt @ replicate (n - length pt) 0)" "same_core s1 s2"
      "\<forall>i. i \<noteq> ino \<longrightarrow> st_contents (f_store s2) i = st_contents (f_store s1) i"
      by (rule new_content_step [OF V k c1, of n, folded F(6), folded m_def, unfolded F(6)]) (rule that; assumption)
    have i2: "inodes_ok V s2" "stored_attr V s2 = stored_attr V s1" "handle_view s2 = handle_view s1"
      using s2(3) s1(2) inodes_ok_cong(1,2) [of s2 s1 V] by (simp_all add: same_core_def)
    have n2: "f_opened_read s2 ino = None" "f_opened_write s2 ino = None" and a2: "stored_attr V s2 ino = Some a"
      using i2(2,3) hv1 F(3,4) s1(3) a(1) by (simp_all add: handle_view_def)
    obtain s3 a' where s3: "bnd system_time_now (\<lambda>now.
       bnd (set_attr2 V ino (with_atime now (with_ctime now (with_mtime now (with_size n set_attr_default)))) True) (\<lambda>_.
       bnd (get_inode_from_storage V ino) (\<lambda>_.
       bnd (get_attr V ino) (\<lambda>attr.
       bnd (reset_handles V (a_ino attr) None False) (\<lambda>_.
       bnd (get_inode_from_storage V ino) (\<lambda>_.
       bnd (get_attr V ino) (\<lambda>_. ret ()))))))) s2 = (Inr (), s3)"
      "inodes_ok V s3" "stored_attr V s3 = (stored_attr V s2)(ino \<mapsto> a')" "a_size a' = n" "a_kind a' = a_kind a" "a_perm a' = a_perm a"
      "same_but_meta s2 s3" by (rule record_size [OF V i2(1) a2 n2, of n]) (rule that; assumption)
    have h3: "handle_view s3 = handle_view s" using handle_view_meta [OF s3(7)] i2(3) hv1 by simp
    then have "handles_ok s3" "f_opened_read s3 ino = None" "f_opened_write s3 ino = None"
      using F(2-4) by (simp_all add: handles_ok_def handle_view_def)
    then have "file_at V s3 ino (take n pt @ replicate (n - length pt) 0) n"
      using s3(2-4) s2(2) has_content_meta [OF s3(7)] by (simp add: file_at_alt)
    moreover have "set_len V ino n s = (Inr (), s3)"
      unfolding set_len_def bnd_Inr [of "get_attr V ino", OF s1(1)] m_def [symmetric] using a(2) F(6) False fl s2(1) s3(1) by simp
    moreover have "\<forall>i. i \<noteq> ino \<longrightarrow> st_contents (f_store s3) i = st_contents (f_store s) i" using s2(4) same_but_metaD(1) [OF s3(7)] m1(1) by simp
    ultimately show ?thesis using that [of s3 a'] s3(3,5,6) i2(2) s1(3) h3 by simp
  qed
qed

subsection \<open>Property\<close>



end
