(* ===== verification/Fuse_Props.thy ===== *)
theory Fuse_Props
  imports Fuse Fs_Resize
begin

unbundle bit_operations_syntax

text \<open>What the FUSE handlers guarantee, and where they do not check: permissions, attributes, listings.\<close>

subsection \<open>Permissions on directories\<close>

lemma get_attr_frame: "get_attr V ino s = (r, s') \<Longrightarrow> f_store s' = f_store s \<and> handle_view s' = handle_view s"
  by (auto simp: get_attr_def get_inode_from_cache_or_storage_def get_inode_from_storage_def bnd_def handle_view_def
      split: option.splits sum.splits prod.splits)

lemma allowed_write: "allowed a req W_OK = may_access (a_uid a) (a_gid a) (a_perm a) (rq_uid req) (rq_gid req) {1}"
proof -
  have "wanted_bits (bits W_OK) = {1}" by (auto simp: wanted_bits_def W_OK_def bit_simps dest: bit_imp_le_length)
  then show ?thesis using check_access_eq [of "bits W_OK"] by (simp add: allowed_def W_OK_def)
qed

lemma fs_call_Inr: "m s = (Inr a, s') \<Longrightarrow> fs_call h m s = (Inr a, s')"
  by (simp add: fs_call_def)


definition some_caller :: request where
  "some_caller = \<lparr>rq_uid = 5, rq_gid = 5, rq_pid = 0\<rparr>"

definition sample_cfg :: fuse_cfg where
  "sample_cfg = \<lparr>fc_direct_io = False, fc_suid_support = False, fc_proc_status = (\<lambda>_. None), fc_io_errno = (\<lambda>_. EIO)\<rparr>"

lemma sample_root_denied: "case get_attr sample_fs ROOT_INODE sample_root of (Inr pa, _) \<Rightarrow> \<not> allowed pa some_caller W_OK | _ \<Rightarrow> False"
  by code_simp


subsection \<open>Listing a directory\<close>

definition good :: "'a + 'b \<Rightarrow> bool" where
  "good x \<longleftrightarrow> (case x of Inl _ \<Rightarrow> False | Inr _ \<Rightarrow> True)"

lemma dirents_offset:
  assumes "k < length es" "dirents C n es ! k = Inr d"
  shows "fd_offset d = as_i64 (n + length (filter good (take (Suc k) es)))"
  using assms
proof (induction C n es arbitrary: k rule: dirents.induct)
  case (2 C n e es)
  then show ?case by (cases k) (auto simp: good_def)
next
  case (3 C n x es)
  then show ?case by (cases k) (auto simp: good_def)
qed simp

lemma length_dirents [simp]: "length (dirents C n es) = length es"
  by (induction C n es rule: dirents.induct) simp_all

lemma good_dirents: "map good (dirents C n es) = map good es"
  by (induction C n es rule: dirents.induct) (simp_all add: good_def)

lemma filter_good_dirents: "length (filter good (take k (dirents C n es))) = length (filter good (take k es))"
proof -
  have "length (filter good xs) = length (filter id (map good xs))" for xs :: "('c + 'd) list" by (induction xs) simp_all
  then show ?thesis using good_dirents [of C n es] by (metis take_map)
qed


lemma sample_listing: "case result_of (readdir sample_fs sample_cfg ROOT_INODE 0 sample_root) of Inr es \<Rightarrow> length es = 1 \<and> good (es ! 0) | _ \<Rightarrow> False"
  by code_simp


subsection \<open>Attributes of a file\<close>

definition truncate_request :: "nat \<Rightarrow> fuse_set_attr" where
  "truncate_request n = \<lparr>fa_mode = None, fa_uid = None, fa_gid = None, fa_size = Some n, fa_atime = None, fa_mtime = None\<rparr>"

definition chown_request :: "32 word option \<Rightarrow> 32 word option \<Rightarrow> fuse_set_attr" where
  "chown_request u g = \<lparr>fa_mode = None, fa_uid = u, fa_gid = g, fa_size = None, fa_atime = None, fa_mtime = None\<rparr>"

text \<open>Setting attributes of a closed file, and the answer to the request.\<close>

lemma set_attr_reply:
  assumes V: "fs_env_ok V" "inodes_ok V s" and a: "stored_attr V s ino = Some a" and n: "f_opened_read s ino = None" "f_opened_write s ino = None"
  obtains s' a' where "bnd (fs_call h (set_attr V ino sa)) (\<lambda>_. reply_attr V ino) s = (Inr (fuse_attr_of a'), s')"
    "a' = (merge_attr a sa False)\<lparr>a_ctime := f_time s, a_atime := f_time s\<rparr>"
    "inodes_ok V s'" "stored_attr V s' = (stored_attr V s)(ino \<mapsto> a')" "same_but_meta s s'"
proof -
  define a' where "a' = (merge_attr a sa False)\<lparr>a_ctime := f_time s, a_atime := f_time s\<rparr>"
  obtain s1 where s1: "set_attr2 V ino sa False s = (Inr (), s1)" "inodes_ok V s1" "stored_attr V s1 = (stored_attr V s)(ino \<mapsto> a')" "same_but_meta s s1"
    by (rule set_attr2_ok [OF V a, of sa False, unfolded merge_no_handles [OF n], folded a'_def]) (rule that; assumption)
  have n1: "f_opened_read s1 ino = None" "f_opened_write s1 ino = None" and a1: "stored_attr V s1 ino = Some a'"
    using same_but_metaD [OF s1(4)] n s1(3) by simp_all
  obtain s2 where s2: "get_attr V ino s1 = (Inr a', s2)" "inodes_ok V s2" "stored_attr V s2 = stored_attr V s1" "same_but_meta s1 s2"
    by (rule get_attr_closed [OF s1(2) a1 n1]) (rule that; assumption)
  show thesis
    by (rule that [OF _ a'_def s2(2)])
      (use s1(1,3) s2(1,3) same_but_meta_trans [OF s1(4) s2(4)] in \<open>simp_all add: set_attr_def reply_attr_def fs_call_def\<close>)
qed

text \<open>
  C36: truncating a file asks for no permission. A \<open>setattr\<close> request that carries a size succeeds for
  every caller, also one who may neither read nor write the file, and leaves the file cut or filled
  with zeros to this size.
\<close>

theorem truncate_by_any_caller:
  assumes V: "fs_env_ok V" and f: "file_at V s ino pt (length pt)" and k: "map_option a_kind (stored_attr V s ino) = Some RegularFile"
  shows "\<exists>r s'. setattr V C req ino (truncate_request n) s = (Inr r, s') \<and> u_size r = n
    \<and> file_at V s' ino (take n pt @ replicate (n - length pt) 0) n"
proof -
  obtain a where a: "stored_attr V s ino = Some a" "a_kind a = RegularFile" using k by auto
  have F: "inodes_ok V s" "handles_ok s" "f_opened_read s ino = None" "f_opened_write s ino = None" "has_content V s ino pt" "a_size a = length pt"
    using f a(1) by (simp_all add: file_at_alt)
  obtain s1 where s1: "get_attr V ino s = (Inr a, s1)" "inodes_ok V s1" "stored_attr V s1 = stored_attr V s" "same_but_meta s s1"
    by (rule get_attr_closed [OF F(1) a(1) F(3,4)]) (rule that; assumption)
  have "handles_ok s1" using F(2) handle_view_meta [OF s1(4)] by (simp add: handles_ok_def handle_view_def)
  then have f1: "file_at V s1 ino pt (length pt)" "stored_attr V s1 ino = Some a"
    using s1(2,3) same_but_metaD [OF s1(4)] has_content_meta [OF s1(4)] F a(1) by (simp_all add: file_at_alt)
  let ?pt = "take n pt @ replicate (n - length pt) 0"
  obtain s2 a2 where s2: "set_len V ino n s1 = (Inr (), s2)" "file_at V s2 ino ?pt n" "stored_attr V s2 = (stored_attr V s1)(ino \<mapsto> a2)"
    by (rule set_len_ok [OF V f1(1,2) a(2), of n]) (rule that; assumption)
  have F2: "inodes_ok V s2" "handles_ok s2" "f_opened_read s2 ino = None" "f_opened_write s2 ino = None" "has_content V s2 ino ?pt"
    "stored_attr V s2 ino = Some a2" "a_size a2 = n"
    using s2(2,3) by (simp_all add: file_at_alt)
  let ?sa = "with_perm (clear_suid_sgid (a_perm a)) (with_size n set_attr_default)"
  obtain s3 a3 where s3: "bnd (fs_call (\<lambda>_. EIO) (set_attr V ino ?sa)) (\<lambda>_. reply_attr V ino) s2 = (Inr (fuse_attr_of a3), s3)"
    "a3 = (merge_attr a2 ?sa False)\<lparr>a_ctime := f_time s2, a_atime := f_time s2\<rparr>"
    "inodes_ok V s3" "stored_attr V s3 = (stored_attr V s2)(ino \<mapsto> a3)" "same_but_meta s2 s3"
    by (rule set_attr_reply [OF V F2(1,6,3,4)]) (rule that; assumption)
  have sz: "a_size a3 = n" using s3(2) F2(7) by (simp add: merge_attr_def set_attr_defs)
  have "handles_ok s3" using F2(2) handle_view_meta [OF s3(5)] by (simp add: handles_ok_def handle_view_def)
  then have "file_at V s3 ino ?pt n"
    using s3(3,4) same_but_metaD [OF s3(5)] has_content_meta [OF s3(5)] F2 sz by (simp add: file_at_alt)
  moreover have "setattr V C req ino (truncate_request n) s = (Inr (fuse_attr_of a3), s3)"
    using s1(1) s2(1) s3(1) by (simp add: setattr_def setattr_rest_def truncate_request_def fs_call_def)
  ultimately show ?thesis using sz by (auto simp: fuse_attr_of_def)
qed

text \<open>The mode of the sample file, \<open>rw-r--r--\<close>, gives other callers no write permission.\<close>

lemma sample_file_created:
  obtains s0 ino s where "file_at sample_fs s ino [] 0" "stored_attr sample_fs s ino = Some ((file_attr_of_create s0 sample_create)\<lparr>a_ino := ino\<rparr>)"
proof -
  obtain s0 ino s enc where s: "fs_new sample_fs 0 0 empty_store sample_key 1000 0 = Inr s0" "file_at sample_fs s ino [] 0"
    "stored_attr sample_fs s ino = Some ((file_attr_of_create (f_time s0) sample_create)\<lparr>a_ino := ino\<rparr>)"
    by (rule sample_created [OF key_ok_sample]) (rule that; assumption)
  show thesis by (rule that [OF s(2,3)])
qed

lemma sample_file_denied: "\<not> allowed ((file_attr_of_create t sample_create)\<lparr>a_ino := ino\<rparr>) some_caller W_OK"
  by (simp add: allowed_def file_attr_of_create_def sample_create_def some_caller_def check_access_def W_OK_def F_OK_def)

theorem truncate_by_any_caller_witness:
  "\<exists>s ino a r s'. stored_attr sample_fs s ino = Some a \<and> \<not> allowed a some_caller W_OK
     \<and> setattr sample_fs sample_cfg some_caller ino (truncate_request 2) s = (Inr r, s') \<and> file_at sample_fs s' ino [0, 0] 2"
proof -
  obtain t ino s where s: "file_at sample_fs s ino [] 0" "stored_attr sample_fs s ino = Some ((file_attr_of_create t sample_create)\<lparr>a_ino := ino\<rparr>)"
    by (rule sample_file_created)
  have k: "map_option a_kind (stored_attr sample_fs s ino) = Some RegularFile" using s(2) by (simp add: file_attr_of_create_def sample_create_def)
  obtain r s' where "setattr sample_fs sample_cfg some_caller ino (truncate_request 2) s = (Inr r, s')" "file_at sample_fs s' ino [0, 0] 2"
    using truncate_by_any_caller [OF sample_fs_ok _ k, of "[]" sample_cfg some_caller 2] s(1) by (auto simp: numeral_2_eq_2)
  with s(2) sample_file_denied show ?thesis by blast
qed

text \<open>
  C37: a change of owner or group is answered with success and never made: the code reads the new
  owner from its own empty \<open>SetFileAttr\<close>, not from the request. For every caller the owner and the
  group in the answer and in the inode file are the old ones.
\<close>

theorem chown_ignored:
  assumes V: "fs_env_ok V" "inodes_ok V s" and a: "stored_attr V s ino = Some a" and n: "f_opened_read s ino = None" "f_opened_write s ino = None"
    and req: "(u, g) \<noteq> (None, None)"
  shows "\<exists>r s'. setattr V C req ino (chown_request u g) s = (Inr r, s') \<and> u_uid r = a_uid a \<and> u_gid r = a_gid a
    \<and> map_option (\<lambda>a. (a_uid a, a_gid a)) (stored_attr V s' ino) = Some (a_uid a, a_gid a)"
proof -
  obtain s1 where s1: "get_attr V ino s = (Inr a, s1)" "inodes_ok V s1" "stored_attr V s1 = stored_attr V s" "same_but_meta s s1"
    by (rule get_attr_closed [OF V(2) a n]) (rule that; assumption)
  let ?s1 = "s1\<lparr>f_time := Suc (f_time s1)\<rparr>"
  define p where "p = (if a_perm a AND bits S_IXALL \<noteq> 0 then clear_suid_sgid (a_perm a) else a_perm a)"
  have i1: "inodes_ok V ?s1" "stored_attr V ?s1 ino = Some a" "f_opened_read ?s1 ino = None" "f_opened_write ?s1 ino = None"
    using s1(2,3) a n same_but_metaD [OF s1(4)] by (simp_all add: inodes_ok_def attr_cache_ok_def)
  obtain s2 a2 where s2: "bnd (fs_call (\<lambda>_. EIO) (set_attr V ino (with_atime (f_time s1) (with_perm p set_attr_default)))) (\<lambda>_. reply_attr V ino) ?s1 =
      (Inr (fuse_attr_of a2), s2)"
    "a2 = (merge_attr a (with_atime (f_time s1) (with_perm p set_attr_default)) False)\<lparr>a_ctime := f_time ?s1, a_atime := f_time ?s1\<rparr>"
    "stored_attr V s2 = (stored_attr V ?s1)(ino \<mapsto> a2)"
    by (rule set_attr_reply [OF V(1) i1]) (rule that; assumption)
  have "a_uid a2 = a_uid a" "a_gid a2 = a_gid a" using s2(2) by (simp_all add: merge_attr_def set_attr_defs)
  moreover have "setattr V C req ino (chown_request u g) s = (Inr (fuse_attr_of a2), s2)"
    using s1(1) s2(1) req by (auto simp: setattr_def setattr_chown_def chown_request_def fs_call_def set_attr_default_def now_def
        system_time_now_def unless_def p_def Let_def)
  ultimately show ?thesis using s2(3) by (auto simp: fuse_attr_of_def)
qed

theorem chown_ignored_witness:
  "\<exists>s ino r s'. setattr sample_fs sample_cfg some_caller ino (chown_request (Some 5) None) s = (Inr r, s') \<and> u_uid r = 0"
proof -
  obtain t ino s where s: "file_at sample_fs s ino [] 0" "stored_attr sample_fs s ino = Some ((file_attr_of_create t sample_create)\<lparr>a_ino := ino\<rparr>)"
    by (rule sample_file_created)
  have i: "inodes_ok sample_fs s" "f_opened_read s ino = None" "f_opened_write s ino = None" using s(1) by (simp_all add: file_at_alt)
  have u: "a_uid ((file_attr_of_create t sample_create)\<lparr>a_ino := ino\<rparr>) = 0" by (simp add: file_attr_of_create_def sample_create_def)
  have q: "(Some 5, None) \<noteq> (None, None :: 32 word option)" by simp
  from chown_ignored [OF sample_fs_ok i(1) s(2) i(2,3) q, of sample_cfg some_caller, unfolded u] show ?thesis by blast
qed

end
