(* ===== verification/Fuse_Files.thy ===== *)
theory Fuse_Files
  imports Fuse_Props
begin

unbundle bit_operations_syntax

text \<open>Opening and deleting through the FUSE handlers: who may, and what a caller who may not can change.\<close>

subsection \<open>Opening\<close>

text \<open>The permission bits an \<open>open\<close> needs: bit 1 is write, bit 2 is read, bit 0 is execute.\<close>

definition open_needs :: "bool \<Rightarrow> bool \<Rightarrow> nat set" where
  "open_needs exec wr = (if wr then {1} else if exec then {0} else {2})"

lemma bit_four: "bit (4 :: 32 word) i \<longleftrightarrow> i = 2"
proof
  assume b: "bit (4 :: 32 word) i"
  then have "i < 3" by (intro small_mask_bits [of 4]) simp_all
  then have "i = 0 \<or> i = 1 \<or> i = 2" by linarith
  with b show "i = 2" by auto
qed simp

lemma wanted_single: "wanted_bits (bits X_OK) = {0}" "wanted_bits (bits W_OK) = {1}" "wanted_bits (bits R_OK) = {2}"
proof -
  have "bits R_OK = (4 :: 32 word)" by code_simp
  then show "wanted_bits (bits R_OK) = {2}" by (simp only: wanted_bits_def bit_four singleton_conv)
qed (auto simp: wanted_bits_def X_OK_def W_OK_def bit_simps dest: bit_imp_le_length)

lemma allowed_open:
  "allowed a req (open_mask exec (\<not> wr) wr) = may_access (a_uid a) (a_gid a) (a_perm a) (rq_uid req) (rq_gid req) (open_needs exec wr)"
  using check_access_eq [of "bits X_OK"] check_access_eq [of "bits W_OK"] check_access_eq [of "bits R_OK"] wanted_single
  by (simp add: allowed_def open_mask_def open_needs_def X_OK_def W_OK_def R_OK_def)

lemma file_at_meta:
  assumes "file_at V s ino pt sz" "inodes_ok V s'" "stored_attr V s' = stored_attr V s" "same_but_meta s s'"
  shows "file_at V s' ino pt sz"
proof -
  have "handles_ok s'" using assms(1) handle_view_meta [OF assms(4)] by (simp add: file_at_def handles_ok_def handle_view_def)
  with assms show ?thesis using same_but_metaD [OF assms(4)] by (simp add: file_at_def)
qed

text \<open>
  C21: a file is opened exactly by those who may. For a closed file and a request to open it for
  reading, for execution or for writing, without truncation: a caller whom the permission bits grant
  the access gets a handle that stands at the start of the file's content; any other caller gets
  \<open>EACCES\<close>, and neither the stored data nor the open handles change.
\<close>

theorem open_permission:
  assumes V: "fs_env_ok V" and f: "file_at V s ino pt sz" and a: "stored_attr V s ino = Some a"
    and fl: "access_mode flags = Some (\<not> wr, wr)" "flags AND bits O_TRUNC = 0"
  shows "if may_access (a_uid a) (a_gid a) (a_perm a) (rq_uid req) (rq_gid req) (open_needs (flags AND bits FMODE_EXEC \<noteq> 0) wr)
    then \<exists>h s'. fuse_open V C req ino flags s = (Inr (h, if fc_direct_io C then FOPEN_DIRECT_IO else 0), s')
        \<and> (if wr then writing V s' h ino pt 0 sz else reading V s' h ino pt 0 sz)
    else \<exists>s'. fuse_open V C req ino flags s = (Inl (Errno EACCES), s') \<and> f_store s' = f_store s \<and> handle_view s' = handle_view s"
proof -
  have F: "inodes_ok V s" "f_opened_read s ino = None" "f_opened_write s ino = None" using f by (simp_all add: file_at_def)
  obtain s1 where s1: "get_attr V ino s = (Inr a, s1)" "inodes_ok V s1" "stored_attr V s1 = stored_attr V s" "same_but_meta s s1"
    by (rule get_attr_closed [OF F(1) a F(2,3)]) (rule that; assumption)
  note f1 = file_at_meta [OF f s1(2-4)]
  note g = fs_call_Inr [of "get_attr V ino", OF s1(1)]
  have run: "fuse_open V C req ino flags s =
      (if allowed a req (open_mask (flags AND bits FMODE_EXEC \<noteq> 0) (\<not> wr) wr)
       then bnd (fs_call (\<lambda>_. EIO) (fs_open V ino (\<not> wr) wr)) (\<lambda>fh. ret (fh, if fc_direct_io C then FOPEN_DIRECT_IO else 0)) s1
       else (Inl (Errno EACCES), s1))"
    using g fl by (simp add: fuse_open_def Let_def errno_def)
  obtain h s' where h: "fs_open V ino (\<not> wr) wr s1 = (Inr h, s')" "if wr then writing V s' h ino pt 0 sz else reading V s' h ino pt 0 sz"
  proof (cases wr)
    case True
    then show thesis using open_write_ok [OF V f1] that by (metis (full_types))
  next
    case False
    then show thesis using open_read_ok [OF V f1] that by (metis (full_types))
  qed
  have call: "fs_call (\<lambda>_. EIO) (fs_open V ino (\<not> wr) wr) s1 = (Inr h, s')" using h(1) by (simp add: fs_call_def)
  show ?thesis
  proof (cases "allowed a req (open_mask (flags AND bits FMODE_EXEC \<noteq> 0) (\<not> wr) wr)")
    case True
    then have "fuse_open V C req ino flags s = (Inr (h, if fc_direct_io C then FOPEN_DIRECT_IO else 0), s')"
      using run call by (simp add: bnd_def)
    then show ?thesis using h(2) True [unfolded allowed_open] by auto
  next
    case False
    then have "fuse_open V C req ino flags s = (Inl (Errno EACCES), s1)" using run by simp
    then show ?thesis using False [unfolded allowed_open] get_attr_frame [OF s1(1)] by simp
  qed
qed

theorem open_permission_witness:
  "\<exists>s ino h s1 s2. fuse_open sample_fs sample_cfg some_caller ino 0 s = (Inr (h, 0), s1) \<and> reading sample_fs s1 h ino [] 0 0
     \<and> fuse_open sample_fs sample_cfg some_caller ino 1 s = (Inl (Errno EACCES), s2) \<and> f_store s2 = f_store s"
proof -
  obtain t ino s where s: "file_at sample_fs s ino [] 0" "stored_attr sample_fs s ino = Some ((file_attr_of_create t sample_create)\<lparr>a_ino := ino\<rparr>)"
    by (rule sample_file_created)
  let ?a = "(file_attr_of_create t sample_create)\<lparr>a_ino := ino\<rparr>"
  have a: "a_uid ?a = 0" "a_gid ?a = 0" "a_perm ?a = 420" by (simp_all add: file_attr_of_create_def sample_create_def)
  have m: "may_access 0 0 420 (rq_uid some_caller) (rq_gid some_caller) {2}" "\<not> may_access 0 0 420 (rq_uid some_caller) (rq_gid some_caller) {1}"
    by (simp_all add: may_access_def some_caller_def class_bits_def caller_class_def bit_numeral_rec)
  have fl: "access_mode 0 = Some (\<not> False, False)" "access_mode 1 = Some (\<not> True, True)" "(0 :: 32 word) AND bits O_TRUNC = 0" "(1 :: 32 word) AND bits O_TRUNC = 0"
    "(0 :: 32 word) AND bits FMODE_EXEC = 0" "fc_direct_io sample_cfg = False" by code_simp+
  obtain h s1 where "fuse_open sample_fs sample_cfg some_caller ino 0 s = (Inr (h, 0), s1)" "reading sample_fs s1 h ino [] 0 0"
    using open_permission [OF sample_fs_ok s fl(1,3), of some_caller sample_cfg] m(1) fl(5,6) unfolding a by (auto simp: open_needs_def)
  moreover obtain s2 where "fuse_open sample_fs sample_cfg some_caller ino 1 s = (Inl (Errno EACCES), s2)" "f_store s2 = f_store s"
    using open_permission [OF sample_fs_ok s fl(2,4), of some_caller sample_cfg] m(2) unfolding a by (auto simp: open_needs_def)
  ultimately show ?thesis by blast
qed

subsection \<open>Directories with the sticky bit\<close>

lemma find_by_name_frame: "find_by_name V parent name s = (r, s') \<Longrightarrow> f_store s' = f_store s \<and> handle_view s' = handle_view s"
  by (auto simp: find_by_name_def get_inode_from_cache_or_storage_def get_inode_from_storage_def bnd_def handle_view_def
      split: if_splits option.splits sum.splits prod.splits content.splits)

lemma find_or_enoent_found:
  "utf8_ok (as_bytes name) \<Longrightarrow> find_by_name V parent name s = (Inr (Some a), s') \<Longrightarrow> find_or_enoent V parent name s = (Inr a, s')"
  by (simp add: find_or_enoent_def to_str_def or_panic_def fs_call_def)

text \<open>The attributes of a directory and of an entry of it, asked for in either order.\<close>

lemma attr_and_entry:
  assumes i: "inodes_ok V s" and d: "ino_exists s parent" "is_dir s parent" "f_opened_read s parent = None" "f_opened_write s parent = None"
    and pa: "stored_attr V s parent = Some pa"
    and e: "dir_lookup V s parent (hash_file_name (v_crypto V) name) = Some (ino, k, enc)" and a: "stored_attr V s ino = Some a"
  obtains s1 s2 t1 t2 where "get_attr V parent s = (Inr pa, s1)" "find_by_name V parent name s1 = (Inr (Some a), s2)"
    "find_by_name V parent name s = (Inr (Some a), t1)" "get_attr V parent t1 = (Inr pa, t2)"
proof -
  obtain s1 where s1: "get_attr V parent s = (Inr pa, s1)" "inodes_ok V s1" "stored_attr V s1 = stored_attr V s" "same_but_meta s s1" "f_store s1 = f_store s"
    by (rule get_attr_closed [OF i pa d(3,4)]) (rule that; assumption)
  note m = same_but_metaD [OF s1(4)]
  have d1: "ino_exists s1 parent" "is_dir s1 parent" "dir_lookup V s1 = dir_lookup V s"
    using d(1,2) s1(5) dir_lookup_cong [OF m(1,3)] by (simp_all add: ino_exists_def is_dir_def)
  let ?t1 = "s\<lparr>f_attr_cache := (f_attr_cache s)(ino \<mapsto> a)\<rparr>"
  have it: "inodes_ok V ?t1" "stored_attr V ?t1 = stored_attr V s" using i a by (auto simp: inodes_ok_def attr_cache_ok_def)
  obtain t2 where t2: "get_attr V parent ?t1 = (Inr pa, t2)"
    by (rule get_attr_closed [OF it(1), of parent pa]) (use it(2) pa d in simp_all)
  show thesis
    by (rule that [OF s1(1) find_by_name_ok [OF s1(2) d1(1,2)] find_by_name_ok [OF i d(1,2) e a] t2]) (use d1(3) s1(3) e a in simp_all)
qed


text \<open>A root directory with mode 1777 that holds the file \<open>a\<close> of user 0.\<close>

lemma sample_sticky_root:
  obtains s ino enc pa a where "inodes_ok sample_fs s" "ino_exists s ROOT_INODE" "is_dir s ROOT_INODE" "f_opened_read s ROOT_INODE = None"
    "f_opened_write s ROOT_INODE = None" "stored_attr sample_fs s ROOT_INODE = Some pa" "a_perm pa = 1023" "a_uid pa = 0"
    "dir_lookup sample_fs s ROOT_INODE (hash_file_name (v_crypto sample_fs) ''a'') = Some (ino, RegularFile, enc)"
    "stored_attr sample_fs s ino = Some a" "a_uid a = 0"
proof -
  obtain s0 where s0: "fs_new sample_fs 0 0 empty_store sample_key 1000 0 = Inr s0" "jinv sample_fs {} {} s0" "is_dir s0 ROOT_INODE"
    "ino_exists s0 ROOT_INODE" "no_orphans s0" "\<exists>k < v_fuel sample_fs. fresh_ino s0 (v_rand sample_fs (f_rng s0 + k))"
    "hash_of (f_store s0) ROOT_INODE (hash_file_name (v_crypto sample_fs) ''a'') = None"
    by (rule sample_new [OF key_ok_sample]) (rule that; assumption)
  have i0: "inodes_ok sample_fs s0" using s0(2) by (simp add: jinv_def hinv_def)
  have n: "''a'' \<noteq> ''.''" "''a'' \<noteq> ''..''" by simp_all
  have k: "c_kind sample_create = RegularFile" by (simp add: sample_create_def)
  obtain ino s enc where s: "fresh_ino s0 ino" "inodes_ok sample_fs s" "handle_view s = handle_view s0"
    "stored_attr sample_fs s ino = Some ((file_attr_of_create (f_time s0) sample_create)\<lparr>a_ino := ino\<rparr>)"
    "dir_lookup sample_fs s ROOT_INODE (hash_file_name (v_crypto sample_fs) ''a'') = Some (ino, RegularFile, enc)"
    "ino_exists s = (ino_exists s0)(ino := True)" "is_dir s ROOT_INODE"
    by (rule create_ok [OF sample_fs_ok i0 s0(4,3) n s0(7,5,6), of sample_create, unfolded k]) (rule that; assumption)
  have root: "ino_exists s ROOT_INODE" "ino \<noteq> ROOT_INODE" using s(1,6) s0(4) by (auto simp: fresh_ino_def)
  have h: "f_opened_read s ROOT_INODE = None" "f_opened_write s ROOT_INODE = None"
    using s(3) fs_new_handles [OF s0(1)] by (simp_all add: handle_view_def)
  obtain ra where ra: "stored_attr sample_fs s ROOT_INODE = Some ra" using s(2) root(1) by (auto simp: inodes_ok_def)
  let ?sa = "set_attr_default\<lparr>s_perm := Some 1023, s_uid := Some 0\<rparr>"
  obtain s' where s': "inodes_ok sample_fs s'" "same_but_meta s s'" "ino_exists s' = ino_exists s"
    "stored_attr sample_fs s' = (stored_attr sample_fs s)(ROOT_INODE \<mapsto> (merge_attr (merge_open_handles s ROOT_INODE ra) ?sa False)\<lparr>a_ctime := f_time s, a_atime := f_time s\<rparr>)"
    by (rule set_attr2_ok [OF sample_fs_ok s(2) ra, of ?sa False]) (rule that; assumption)
  note m = same_but_metaD [OF s'(2)]
  have r: "stored_attr sample_fs s' ino = Some ((file_attr_of_create (f_time s0) sample_create)\<lparr>a_ino := ino\<rparr>)" using s(4) s'(4) root(2) by simp
  obtain pa where pa: "stored_attr sample_fs s' ROOT_INODE = Some pa" "a_perm pa = 1023" "a_uid pa = 0"
    using s'(4) by (simp add: merge_attr_def opt_set_def)
  have d: "ino_exists s' ROOT_INODE" "is_dir s' ROOT_INODE" "f_opened_read s' ROOT_INODE = None" "f_opened_write s' ROOT_INODE = None"
    using root(1) s(7) s'(3) h m by (simp_all add: is_dir_def)
  show thesis
    by (rule that [OF s'(1) d pa _ r]) (use s(5) dir_lookup_cong [OF m(1,3), of sample_fs] in \<open>simp_all add: file_attr_of_create_def sample_create_def\<close>)
qed


end
