(* ===== verification/Fs_Limits.thy ===== *)
theory Fs_Limits
  imports Fs_Files
begin

text \<open>
  Limits: the size of a file stays below what the cipher allows, and the loop that looks for a free
  inode number ends.
\<close>

subsection \<open>The size limit\<close>

lemma fs_write_clip:
  assumes "off < max_plaintext_len (v_cipher V)"
  shows "fs_write V ino off d h s = fs_write V ino off (take (max_plaintext_len (v_cipher V) - off) d) h s"
proof (cases "off + length d > max_plaintext_len (v_cipher V)")
  case True
  then have "d \<noteq> []" "take (max_plaintext_len (v_cipher V) - off) d \<noteq> []" using assms by auto
  moreover have "\<not> off + length (take (max_plaintext_len (v_cipher V) - off) d) > max_plaintext_len (v_cipher V)" using assms by simp
  ultimately show ?thesis using True assms by (simp add: fs_write_def Let_def cong: if_cong option.case_cong)
next
  case False
  then show ?thesis by simp
qed



subsection \<open>Fresh inode numbers\<close>

text \<open>
  A fair random source: from every point on, every 64-bit number is drawn some time.
\<close>

definition fair_rand :: "fs_env \<Rightarrow> bool" where
  "fair_rand V \<longleftrightarrow> (\<forall>n. \<forall>x < 2 ^ 64. \<exists>k. v_rand V (n + k) = x)"

lemma fresh_draw:
  assumes "fair_rand V" "card {i. ino_exists s i} < 2 ^ 64 - 2" "finite {i. ino_exists s i}"
  shows "\<exists>k. fresh_ino s (v_rand V (f_rng s + k))"
proof -
  have "card {i. ino_exists s i} < card {2..<2 ^ 64 :: nat}" using assms(2) by simp
  then have "\<not> {2..<2 ^ 64} \<subseteq> {i. ino_exists s i}" using card_mono [OF assms(3)] by (meson leD)
  then obtain x where "x \<in> {2..<2 ^ 64}" "x \<notin> {i. ino_exists s i}" by blast
  then have x: "2 \<le> x" "x < 2 ^ 64" "\<not> ino_exists s x" by auto
  obtain k where "v_rand V (f_rng s + k) = x" using assms(1) x(2) by (auto simp: fair_rand_def)
  with x have "fresh_ino s (v_rand V (f_rng s + k))" by (simp add: fresh_ino_def ROOT_INODE_def)
  then show ?thesis ..
qed

lemma find_free_first:
  assumes "Suc n \<le> fuel" "\<And>k. k < n \<Longrightarrow> \<not> fresh_ino s (v_rand V (f_rng s + k))" "fresh_ino s (v_rand V (f_rng s + n))"
  shows "find_free_inode V fuel s = (Inr (v_rand V (f_rng s + n)), s\<lparr>f_rng := Suc (f_rng s + n)\<rparr>)"
  using assms
proof (induction n arbitrary: s fuel)
  case 0
  have ex: "ino_exists (s\<lparr>f_rng := r\<rparr>) i = ino_exists s i" for r i by (simp add: ino_exists_def)
  obtain g where g: "fuel = Suc g" using 0(1) by (cases fuel) auto
  have "\<not> (v_rand V (f_rng s) \<le> ROOT_INODE \<or> ino_exists s (v_rand V (f_rng s)))" using 0(3) by (simp add: fresh_ino_def)
  then show ?case by (simp add: g create_rng_def bnd_def gets_def ex)
next
  case (Suc n)
  let ?s = "s\<lparr>f_rng := Suc (f_rng s)\<rparr>"
  obtain g where g: "fuel = Suc g" "Suc n \<le> g" using Suc.prems(1) by (cases fuel) auto
  have fr: "fresh_ino ?s i = fresh_ino s i" for i by (simp add: fresh_ino_def ino_exists_def)
  have "find_free_inode V g ?s = (Inr (v_rand V (f_rng ?s + n)), ?s\<lparr>f_rng := Suc (f_rng ?s + n)\<rparr>)"
  proof (rule Suc.IH [OF g(2)])
    show "\<not> fresh_ino ?s (v_rand V (f_rng ?s + k))" if "k < n" for k using Suc.prems(2) [of "Suc k"] that fr by simp
    show "fresh_ino ?s (v_rand V (f_rng ?s + n))" using Suc.prems(3) fr by simp
  qed
  moreover have "v_rand V (f_rng s) \<le> ROOT_INODE \<or> ino_exists ?s (v_rand V (f_rng s))"
    using Suc.prems(2) [of 0] by (auto simp: fresh_ino_def ino_exists_def)
  ultimately show ?case by (simp add: g(1) create_rng_def)
qed

text \<open>
  C24: the loop that looks for a free inode number ends. With a fair random source, and fewer than
  \<open>2 ^ 64 - 2\<close> inodes, there is a number of rounds from which on the loop always returns, whatever its
  bound; it returns the same number, one that no inode has and that is not reserved, and has changed
  nothing but the random source.
\<close>

theorem next_inode_found:
  assumes "fair_rand V" "finite {i. ino_exists s i}" "card {i. ino_exists s i} < 2 ^ 64 - 2"
  shows "\<exists>n ino s'. (\<forall>fuel \<ge> n. find_free_inode V fuel s = (Inr ino, s')) \<and> \<not> ino_exists s ino \<and> ROOT_INODE < ino
    \<and> (\<exists>k. s' = s\<lparr>f_rng := k\<rparr>)"
proof -
  define n where "n = (LEAST k. fresh_ino s (v_rand V (f_rng s + k)))"
  have f: "fresh_ino s (v_rand V (f_rng s + n))" unfolding n_def by (rule LeastI_ex [OF fresh_draw [OF assms(1,3,2)]])
  have b: "\<not> fresh_ino s (v_rand V (f_rng s + k))" if "k < n" for k using that not_less_Least unfolding n_def by blast
  have "\<forall>fuel \<ge> Suc n. find_free_inode V fuel s = (Inr (v_rand V (f_rng s + n)), s\<lparr>f_rng := Suc (f_rng s + n)\<rparr>)"
    using find_free_first [of n] b f by blast
  with f show ?thesis
    by (intro exI [of _ "Suc n"] exI [of _ "v_rand V (f_rng s + n)"] exI [of _ "s\<lparr>f_rng := Suc (f_rng s + n)\<rparr>"]) (auto simp: fresh_ino_def)
qed

text \<open>A source that counts through all 64-bit numbers is fair.\<close>

definition counting_fs :: fs_env where
  "counting_fs = sample_fs\<lparr>v_rand := \<lambda>i. i mod 2 ^ 64\<rparr>"

lemma counting_fair: "fair_rand counting_fs"
proof -
  have "(n + (x + n * (2 ^ 64 - 1))) mod 2 ^ 64 = x" if "x < 2 ^ 64" for n x :: nat
  proof -
    have "n + (x + n * (2 ^ 64 - 1)) = x + n * 2 ^ 64" by simp
    with that show ?thesis by (metis mod_less mod_mult_self1)
  qed
  then show ?thesis unfolding fair_rand_def counting_fs_def by (metis fs_env.select_convs(9) fs_env.surjective fs_env.update_convs(9))
qed

theorem next_inode_found_witness:
  "\<exists>n ino s'. find_free_inode counting_fs n (sample_root\<lparr>f_store := empty_store\<rparr>) = (Inr ino, s') \<and> ROOT_INODE < ino"
proof -
  have e: "{i. ino_exists (sample_root\<lparr>f_store := empty_store\<rparr>) i} = {}" by (simp add: ino_exists_def empty_store_def)
  from next_inode_found [OF counting_fair, of "sample_root\<lparr>f_store := empty_store\<rparr>"] show ?thesis unfolding e by auto
qed

end
