(* ===== verification/Fs_Shared.thy ===== *)
theory Fs_Shared
  imports Fs_Files
begin

text \<open>
  One writer and several readers of the same file: what the readers see while the file is written,
  and what they see once the writer is released.
\<close>


text \<open>A writer of the sample file system with the bytes 0, 0, 7 in its buffer, beside one reader.\<close>

lemma sample_shared:
  obtains s ino h r where "shared sample_fs s h ino [0, 0, 7] 3 3 [r]"
proof -
  obtain s0 ino s enc where "fs_new sample_fs 0 0 empty_store sample_key 1000 0 = Inr s0" and s: "file_at sample_fs s ino [] 0"
    by (rule sample_created [OF key_ok_sample])
  obtain h s1 where h: "writing sample_fs s1 h ino [] 0 0" by (rule open_write_ok [OF sample_fs_ok s])
  have g: "ws_seek_guard (e_block_size (v_aead sample_fs)) [] 0 2" by (simp add: ws_seek_guard_def)
  have ne: "[7 :: byte] \<noteq> []" by simp
  have m: "2 + length [7 :: byte] \<le> max_plaintext_len (v_cipher sample_fs)" by (simp add: max_plaintext_len_def)
  have len: "write_len sample_fs 2 [7] = 1" by (simp add: write_len_def v_aead_def)
  have pt: "written [] 2 (take 1 [7]) = [0, 0, 7 :: byte]" by (simp add: written_def overlay_def numeral_2_eq_2)
  obtain s2 where w: "writing sample_fs s2 h ino [0, 0, 7] 3 3"
    by (rule fs_write_ok [OF h g ne m, unfolded len pt]) simp
  then have sh: "shared sample_fs s2 h ino [0, 0, 7] 3 3 []" by (simp add: writing_shared)
  obtain r s3 where "shared sample_fs s3 h ino [0, 0, 7] 3 3 (List.insert r [])" by (rule open_beside_ok [OF sample_fs_ok sh])
  with that show thesis by simp
qed




end
