(* ===== verification/Fs_Copy.thy ===== *)
theory Fs_Copy
  imports Fs_Shared
begin

text \<open>
  Copying a range from one open file to another, or within one, and writing whole buffers: what
  \<open>copy_file_range\<close> and \<open>write_all_bytes_to_fs\<close> do when the bytes fit into one block of the
  destination, and what the second does when they do not.
\<close>

subsection \<open>Copying a range\<close>


text \<open>A file of the sample file system with the bytes 0, 0, 7.\<close>

lemma sample_file_at:
  obtains s ino where "file_at sample_fs s ino [0, 0, 7] 3"
proof -
  obtain s ino h r where s: "shared sample_fs s h ino [0, 0, 7] 3 3 [r]" by (rule sample_shared)
  have r: "r \<in> set [r]" "removeAll r [r] = []" by simp_all
  obtain s1 where s1: "shared sample_fs s1 h ino [0, 0, 7] 3 3 []" "f_opened_read s1 ino = None"
    by (rule release_beside_ok [OF sample_fs_ok s r(1), unfolded r(2)]) (use that in simp)
  show thesis by (rule release_write_ok [OF sample_fs_ok, of s1 h ino "[0, 0, 7]" 3 3]) (use s1 that in \<open>simp_all add: writing_shared\<close>)
qed


subsection \<open>Buffers longer than a block\<close>

lemma not_dvd_between: "i * b < n \<Longrightarrow> n < i * b + b \<Longrightarrow> \<not> b dvd (n :: nat)"
  by (auto elim!: dvdE) (metis Suc_eq_plus1 add.commute mult.commute mult_Suc mult_less_cancel2 not_less_eq)

text \<open>
  \<open>write_all_bytes_to_fs\<close> destroys data that does not fit into one block. When the rest of the
  block at the offset is shorter than the buffer, the call reports success, but its second round
  writes the remaining bytes at the same offset again: what the file then holds at the offset is the
  end of the buffer, not its beginning.
\<close>

theorem write_all_overwrites_itself:
  assumes V: "fs_env_ok V" and w: "writing V s h ino pt p sz" and guard: "ws_seek_guard (e_block_size (v_aead V)) pt p off"
    and d: "off + length d \<le> max_plaintext_len (v_cipher V)" and k: "k = e_block_size (v_aead V) - off mod e_block_size (v_aead V)"
      "k < length d" "length d < 2 * k"
  shows "\<exists>s' pt' sz'. write_all_bytes_to_fs V ino off d h s = (Inr (), s') \<and> writing V s' h ino pt' (off + length d - k) sz'
    \<and> take (length d - k) (drop off pt') = drop k d"
proof -
  let ?B = "e_block_size (v_aead V)" and ?d2 = "drop k d"
  define pt1 where "pt1 = written pt off (take k d)"
  define pt2 where "pt2 = written pt1 off ?d2"
  have sh0: "shared V s h ino pt p sz []" using w by (simp add: writing_shared)
  have B: "0 < ?B" using sh0 by (rule sharedE) (rule ws_rel_block)
  have d0: "d \<noteq> []" using k(2) by auto
  have k0: "0 < k" "k \<le> ?B" "off mod ?B + k = ?B" using B k(1) by simp_all
  have len: "write_len V off d = k" "write_len V off ?d2 = length d - k" using k by (simp_all add: write_len_def)
  obtain s1 where s1: "fs_write V ino off d h s = (Inr k, s1)" "writing V s1 h ino pt1 (off + k) (max (off + k) sz)"
    unfolding pt1_def by (rule fs_write_ok [OF w guard d0 d, unfolded len])
  have l1: "length pt1 = max (off + k) (length pt)" using k(2) by (simp add: pt1_def written_def overlay_def)
  have "off div ?B * ?B \<le> off" by simp
  then have "off div ?B * ?B < length pt1" using l1 k0(1) by linarith
  then have g1: "ws_seek_guard ?B pt1 (off + k) off" by (simp add: ws_seek_guard_def)
  have d2: "?d2 \<noteq> []" "off + length ?d2 \<le> max_plaintext_len (v_cipher V)" using k(2) d by simp_all
  obtain s2 sz2 where s2: "fs_write V ino off ?d2 h s1 = (Inr (length d - k), s2)" "writing V s2 h ino pt2 (off + (length d - k)) sz2"
    by (rule fs_write_ok [OF s1(2) g1 d2, unfolded len]) (use that in \<open>simp add: pt2_def\<close>)
  define q where "q = off div ?B * ?B"
  have "off = q + off mod ?B" by (simp add: q_def)
  then have "q < off + (length d - k)" "off + (length d - k) < q + ?B" using k0 k(2,3) by linarith+
  then have nd: "\<not> ?B dvd off + (length d - k)" unfolding q_def by (rule not_dvd_between)
  have sh: "shared V s2 h ino pt2 (off + (length d - k)) sz2 []" "f_opened_read s2 ino = None" using s2(2) by (simp_all add: writing_shared)
  have fl: "ws_flush_guard ?B pt2 (off + (length d - k))" using nd by (simp add: ws_flush_guard_def)
  obtain s3 where s3: "fs_flush V h s2 = (Inr (), s3)" "shared V s3 h ino pt2 (off + (length d - k)) sz2 []" "f_opened_read s3 = f_opened_read s2"
    by (rule fs_flush_shared [OF V sh(1) fl])
  have "write_all_bytes_loop V ino off d h 0 s = (Inr (), s2)"
    using s1(1) s2(1) k(2) k0(1) by (simp add: write_all_bytes_loop.simps [of V ino off d h 0] write_all_bytes_loop.simps [of V ino off d h k])
  then have "write_all_bytes_to_fs V ino off d h s = (Inr (), s3)" using s3(1) by (simp add: write_all_bytes_to_fs_def bnd_def)
  moreover have "writing V s3 h ino pt2 (off + (length d - k)) sz2" using s3(2,3) sh(2) by (simp add: writing_shared)
  moreover have "take (length d - k) (drop off pt2) = ?d2" using l1 k(2) by (simp add: pt2_def written_def overlay_def)
  ultimately show ?thesis using k(2) by (metis Nat.add_diff_assoc less_imp_le)
qed

theorem write_all_overwrites_itself_witness:
  "\<exists>s s' h ino pt' sz'. write_all_bytes_to_fs sample_fs ino 0 (replicate 16 1 @ [2, 3, 4]) h s = (Inr (), s')
     \<and> writing sample_fs s' h ino pt' 3 sz' \<and> take 3 pt' = [2, 3, 4]"
proof -
  obtain s ino where s: "file_at sample_fs s ino [0, 0, 7] 3" by (rule sample_file_at)
  obtain h s1 where h: "writing sample_fs s1 h ino [0, 0, 7] 0 3" by (rule open_write_ok [OF sample_fs_ok s])
  let ?d = "replicate 16 1 @ [2, 3, 4 :: byte]"
  have g: "ws_seek_guard (e_block_size (v_aead sample_fs)) [0, 0, 7] 0 0" "0 + length ?d \<le> max_plaintext_len (v_cipher sample_fs)"
    "16 = e_block_size (v_aead sample_fs) - 0 mod e_block_size (v_aead sample_fs)" "16 < length ?d" "length ?d < 2 * 16"
    by (simp_all add: ws_seek_guard_def max_plaintext_len_def v_aead_def)
  from write_all_overwrites_itself [OF sample_fs_ok h g] show ?thesis by force
qed

subsection \<open>A failed open\<close>

text \<open>
  A file that is being written cannot be opened for reading and writing, but the attempt leaves a
  read handle behind: the call fails with \<open>AlreadyOpenForWrite\<close>, and a new handle, whose number the
  caller never learns, is registered as a reader of the file.
\<close>

theorem failed_open_leaves_reader:
  assumes "fs_env_ok V" "shared V s h ino pt p sz l"
  shows "\<exists>s'. fs_open V ino True True s = (Inl AlreadyOpenForWrite, s') \<and> f_current_handle s \<notin> set l
    \<and> shared V s' h ino pt p sz (f_current_handle s # l)"
proof -
  obtain r s' where r: "fs_open V ino True False s = (Inr r, s')" "shared V s' h ino pt p sz (List.insert r l)"
    by (rule open_beside_ok [OF assms])
  have o: "f_opened_write s' ino = Some h" "\<not> is_dir s ino" using r(2) assms(2) by (auto simp: is_dir_def elim!: sharedE)
  have rd: "open_for_read V ino True s = (Inr (Some r), s')" "r = f_current_handle s"
    using r(1) o(2) by (auto simp: fs_open_def open_for_read_def open_for_write_def next_handle_def elim!: bnd_InrE split: option.splits)
  then have op: "fs_open V ino True True s = (Inl AlreadyOpenForWrite, s')"
    using o by (simp add: fs_open_def open_for_write_def)
  have "f_current_handle s \<notin> set l"
  proof
    assume "f_current_handle s \<in> set l"
    then obtain c where "f_read_handles s (f_current_handle s) = Some c" "handles_ok s" using assms(2) by (blast elim: sharedE)
    then show False using handles_okD(4) by blast
  qed
  with op r(2) rd(2) show ?thesis by auto
qed

theorem failed_open_leaves_reader_witness:
  "\<exists>s s' h ino r. shared sample_fs s h ino [0, 0, 7] 3 3 [r] \<and> fs_open sample_fs ino True True s = (Inl AlreadyOpenForWrite, s')
     \<and> shared sample_fs s' h ino [0, 0, 7] 3 3 [f_current_handle s, r]"
proof -
  obtain s ino h r where s: "shared sample_fs s h ino [0, 0, 7] 3 3 [r]" by (rule sample_shared)
  from failed_open_leaves_reader [OF sample_fs_ok s] s show ?thesis by blast
qed

end
