(* ===== verification/Key_Management.thy ===== *)
theory Key_Management
  imports Fs_Entries Sample_FS "HOL-Library.List_Lexorder" "HOL-Library.Char_ord"
begin

text \<open>
  The data directory and the master key (\<open>src/encryptedfs.rs\<close>): checking and creating the
  structure of the data directory, reading or creating the key, changing the password, and the
  start of the file system that composes them.

  \<^item> \<open>data_dir\<close> is what these functions see of the directory: what the path is, the names in it, and
    the files of its subdirectory \<open>security\<close>.
  \<^item> The key is random, stored encrypted under a key derived from the password and a stored salt.
  \<^item> \<open>key_env\<close> adds to \<open>fs_env\<close> the \<open>bincode\<close> encoding of \<open>Vec<u8>\<close> and the random bytes.
\<close>

subsection \<open>Parameters and state\<close>

record key_env =
  kv_fs :: fs_env
  kv_ser_vec :: "bytes \<Rightarrow> bytes list"
  kv_de_vec :: "bytes \<Rightarrow> bytes option"
  kv_fill :: "nat \<Rightarrow> nat \<Rightarrow> bytes"

definition key_env_ok :: "key_env \<Rightarrow> bool" where
  "key_env_ok KV \<longleftrightarrow> fs_env_ok (kv_fs KV) \<and> (\<forall>b. kv_de_vec KV (concat (kv_ser_vec KV b)) = Some b)
     \<and> (\<forall>i n. length (kv_fill KV i n) = n)"

abbreviation kv_crypto :: "key_env \<Rightarrow> crypto_env" where
  "kv_crypto KV \<equiv> v_crypto (kv_fs KV)"

abbreviation kv_cipher :: "key_env \<Rightarrow> cipher" where
  "kv_cipher KV \<equiv> v_cipher (kv_fs KV)"

datatype path_kind = PMissing | PFile | PDir

record data_dir =
  dd_kind :: path_kind
  dd_entries :: "string list"
  dd_security :: "string \<rightharpoonup> bytes"
  dd_rng :: nat

type_synonym 'a ddm = "(data_dir, fs_error, 'a) sem"

definition INODES_DIR :: string where "INODES_DIR = ''inodes''"
definition CONTENTS_DIR :: string where "CONTENTS_DIR = ''contents''"
definition SECURITY_DIR :: string where "SECURITY_DIR = ''security''"
definition KEY_ENC_FILENAME :: string where "KEY_ENC_FILENAME = ''key.enc''"
definition KEY_SALT_FILENAME :: string where "KEY_SALT_FILENAME = ''key.salt''"

lemmas dir_names = INODES_DIR_def CONTENTS_DIR_def SECURITY_DIR_def KEY_ENC_FILENAME_def KEY_SALT_FILENAME_def

definition dd_random :: "nat ddm" where
  "dd_random = (\<lambda>s. (Inr (dd_rng s), s\<lparr>dd_rng := Suc (dd_rng s)\<rparr>))"

definition put_security :: "string \<Rightarrow> bytes \<Rightarrow> unit ddm" where
  "put_security n d = modif (dd_security_update (\<lambda>m. m(n \<mapsto> d)))"

subsection \<open>Structure of the data directory\<close>

definition check_structure :: "bool \<Rightarrow> unit ddm" where
  "check_structure ignore_empty = bnd (gets (\<lambda>s. s)) (\<lambda>s.
     if dd_kind s \<noteq> PDir then throw InvalidDataDirStructure
     else if dd_entries s = [] \<and> ignore_empty then ret ()
     else if length (dd_entries s) \<noteq> 3 then throw InvalidDataDirStructure
     else if sort (dd_entries s) \<noteq> sort [INODES_DIR, CONTENTS_DIR, SECURITY_DIR]
          \<or> dd_security s KEY_ENC_FILENAME = None \<or> dd_security s KEY_SALT_FILENAME = None
       then throw InvalidDataDirStructure
     else ret ())"

definition ensure_dir :: "string \<Rightarrow> unit ddm" where
  "ensure_dir n = modif (\<lambda>s. if n \<in> set (dd_entries s) then s else s\<lparr>dd_entries := dd_entries s @ [n]\<rparr>)"

definition ensure_structure_created :: "unit ddm" where
  "ensure_structure_created =
     bnd (gets dd_kind) (\<lambda>k.
     bnd (if k \<noteq> PMissing then check_structure True
          else modif (\<lambda>s. s\<lparr>dd_kind := PDir, dd_entries := []\<rparr>)) (\<lambda>_.
     for_each ensure_dir [INODES_DIR, CONTENTS_DIR, SECURITY_DIR]))"

subsection \<open>The key\<close>

definition read_or_create_salt :: "key_env \<Rightarrow> bytes ddm" where
  "read_or_create_salt KV =
     bnd (gets (\<lambda>s. dd_security s KEY_SALT_FILENAME)) (\<lambda>f. case f of
       Some d \<Rightarrow> (case kv_de_vec KV d of None \<Rightarrow> throw InvalidPassword | Some salt \<Rightarrow> ret salt)
     | None \<Rightarrow>
         bnd dd_random (\<lambda>r.
         let salt = kv_fill KV r 16 in
         bnd (put_security KEY_SALT_FILENAME (concat (kv_ser_vec KV salt))) (\<lambda>_. ret salt)))"

text \<open>\<open>bincode::deserialize_from(crypto::create_read(file, cipher, derived))\<close>; every error is a wrong password.\<close>

definition read_key :: "key_env \<Rightarrow> bytes \<Rightarrow> bytes \<Rightarrow> fs_error + bytes" where
  "read_key KV derived ct =
     (case load_meta (kv_fs KV) (kv_de_vec KV) derived ct of
        Inl e \<Rightarrow> Inl (if e = FsPanic then FsPanic else InvalidPassword) | Inr key \<Rightarrow> Inr key)"

text \<open>The second half of \<open>read_or_create_key\<close>: open the stored key, or create one.\<close>

definition load_or_make_key :: "key_env \<Rightarrow> bytes \<Rightarrow> bytes ddm" where
  "load_or_make_key KV derived =
     bnd (gets (\<lambda>s. dd_security s KEY_ENC_FILENAME)) (\<lambda>f. case f of
       Some ct \<Rightarrow> lift (read_key KV derived ct)
     | None \<Rightarrow>
         bnd dd_random (\<lambda>r.
         let key = kv_fill KV r (key_len (kv_crypto KV) (kv_cipher KV)) in
         bnd (put_security KEY_ENC_FILENAME []) (\<lambda>_.
         bnd dd_random (\<lambda>seed.
         bnd (lift_err io_err (write_pieces (kv_crypto KV) seed (kv_cipher KV) derived (kv_ser_vec KV key))) (\<lambda>ct.
         bnd (put_security KEY_ENC_FILENAME ct) (\<lambda>_. ret key))))))"

definition read_or_create_key :: "key_env \<Rightarrow> string \<Rightarrow> bytes ddm" where
  "read_or_create_key KV password =
     bnd (read_or_create_salt KV) (\<lambda>salt.
     bnd (lift_err crypto_err (derive_key (kv_crypto KV) password (kv_cipher KV) salt)) (load_or_make_key KV))"

definition provide_key :: "key_env \<Rightarrow> string option \<Rightarrow> bytes ddm" where
  "provide_key KV get_password =
     (case get_password of None \<Rightarrow> throw InvalidPassword | Some password \<Rightarrow> read_or_create_key KV password)"

definition passwd :: "key_env \<Rightarrow> string \<Rightarrow> string \<Rightarrow> unit ddm" where
  "passwd KV old_password new_password =
     bnd (check_structure False) (\<lambda>_.
     bnd (gets dd_security) (\<lambda>sec.
     case sec KEY_SALT_FILENAME of None \<Rightarrow> throw no_entry
     | Some d \<Rightarrow> (case kv_de_vec KV d of None \<Rightarrow> throw SerializeError
        | Some salt \<Rightarrow>
            bnd (lift_err crypto_err (derive_key (kv_crypto KV) old_password (kv_cipher KV) salt)) (\<lambda>initial_key.
            case sec KEY_ENC_FILENAME of None \<Rightarrow> throw no_entry
            | Some ct \<Rightarrow>
                bnd (lift (read_key KV initial_key ct)) (\<lambda>key.
                bnd (lift_err crypto_err (derive_key (kv_crypto KV) new_password (kv_cipher KV) salt)) (\<lambda>new_key.
                bnd dd_random (\<lambda>seed.
                bnd (lift_err crypto_err (serialize_encrypt_into (kv_crypto KV) seed (kv_ser_vec KV key) (kv_cipher KV) new_key)) (\<lambda>ct'.
                put_security KEY_ENC_FILENAME ct'))))))))"

text \<open>\<open>EncryptedFs::new\<close>: structure, password check, root directory.\<close>

definition encrypted_fs_new ::
  "key_env \<Rightarrow> string option \<Rightarrow> 32 word \<Rightarrow> 32 word \<Rightarrow> store \<Rightarrow> time \<Rightarrow> nat \<Rightarrow> encrypted_fs ddm" where
  "encrypted_fs_new KV get_password uid gid st now rng =
     bnd ensure_structure_created (\<lambda>_.
     bnd (provide_key KV get_password) (\<lambda>key.
     lift (fs_new (kv_fs KV) uid gid st key now rng)))"

subsection \<open>Lemmas\<close>

lemma key_env_okD:
  assumes "key_env_ok KV"
  shows "crypto_ok (kv_crypto KV)" "kv_de_vec KV (concat (kv_ser_vec KV b)) = Some b" "length (kv_fill KV i n) = n"
  using assms fs_env_okD(1) by (auto simp: key_env_ok_def)

lemma derive_key_length:
  "crypto_ok K \<Longrightarrow> derive_key K p c salt = Inr dk \<Longrightarrow> length dk = key_len K c"
  by (auto simp: derive_key_def crypto_ok_def split: sum.splits)

text \<open>A key sealed under a derived key is read back.\<close>

lemma seal_key_ok:
  assumes "key_env_ok KV" "length dk = key_len (kv_crypto KV) (kv_cipher KV)"
  obtains ct where "write_pieces (kv_crypto KV) seed (kv_cipher KV) dk (kv_ser_vec KV key) = Inr ct"
    "read_key KV dk ct = Inr key"
proof -
  obtain ct where ct: "write_pieces (kv_crypto KV) seed (kv_cipher KV) dk (kv_ser_vec KV key) = Inr ct"
      "read_to_end (kv_crypto KV) (kv_cipher KV) dk ct = Inr (concat (kv_ser_vec KV key))"
    using write_pieces_ok [OF key_env_okD(1) [OF assms(1)] assms(2)] by metis
  then have "read_key KV dk ct = Inr key"
    using key_env_okD(2) [OF assms(1)] by (simp add: read_key_def load_meta_def)
  with that ct(1) show thesis by blast
qed

text \<open>The directory stores \<open>key\<close>, to be opened with \<open>password\<close>.\<close>

definition holds_key :: "key_env \<Rightarrow> data_dir \<Rightarrow> string \<Rightarrow> bytes \<Rightarrow> bool" where
  "holds_key KV s password key \<longleftrightarrow> (\<exists>d salt dk ct. dd_security s KEY_SALT_FILENAME = Some d \<and> kv_de_vec KV d = Some salt
     \<and> derive_key (kv_crypto KV) password (kv_cipher KV) salt = Inr dk
     \<and> dd_security s KEY_ENC_FILENAME = Some ct \<and> read_key KV dk ct = Inr key)"

lemma file_names_differ [simp]: "KEY_ENC_FILENAME \<noteq> KEY_SALT_FILENAME" "KEY_SALT_FILENAME \<noteq> KEY_ENC_FILENAME"
  by (simp_all add: dir_names)

lemma read_held_key: "holds_key KV s p key \<Longrightarrow> read_or_create_key KV p s = (Inr key, s)"
  by (auto simp: holds_key_def read_or_create_key_def load_or_make_key_def read_or_create_salt_def lift_err_def)

lemma read_or_create_salt_ok:
  assumes "key_env_ok KV" "read_or_create_salt KV s = (Inr salt, s')"
  shows "\<exists>d. dd_security s' KEY_SALT_FILENAME = Some d \<and> kv_de_vec KV d = Some salt"
    "dd_security s' KEY_ENC_FILENAME = dd_security s KEY_ENC_FILENAME" "dd_entries s' = dd_entries s" "dd_kind s' = dd_kind s"
  using assms(2) key_env_okD(2) [OF assms(1)]
  by (auto simp: read_or_create_salt_def dd_random_def put_security_def Let_def split: option.splits)

lemma created_key_held:
  assumes KV: "key_env_ok KV" and run: "read_or_create_key KV p s = (Inr key, s')"
  shows "holds_key KV s' p key \<and> dd_entries s' = dd_entries s \<and> dd_kind s' = dd_kind s"
proof -
  obtain salt s1 where s1: "read_or_create_salt KV s = (Inr salt, s1)"
    and run1: "bnd (lift_err crypto_err (derive_key (kv_crypto KV) p (kv_cipher KV) salt)) (load_or_make_key KV) s1 = (Inr key, s')"
    using run unfolding read_or_create_key_def by (rule bnd_InrE)
  obtain dk where dk: "derive_key (kv_crypto KV) p (kv_cipher KV) salt = Inr dk"
    using run1 by (cases "derive_key (kv_crypto KV) p (kv_cipher KV) salt") (auto simp: lift_err_def)
  have run2: "load_or_make_key KV dk s1 = (Inr key, s')" using run1 dk by (simp add: lift_err_def)
  note salt = read_or_create_salt_ok [OF KV s1]
  show ?thesis
  proof (cases "dd_security s1 KEY_ENC_FILENAME")
    case (Some ct)
    with run2 have "s' = s1" "read_key KV dk ct = Inr key" by (auto simp: load_or_make_key_def)
    with Some dk salt show ?thesis unfolding holds_key_def by blast
  next
    case None
    let ?key = "kv_fill KV (dd_rng s1) (key_len (kv_crypto KV) (kv_cipher KV))"
    obtain ct where ct: "write_pieces (kv_crypto KV) (Suc (dd_rng s1)) (kv_cipher KV) dk (kv_ser_vec KV ?key) = Inr ct"
      "read_key KV dk ct = Inr ?key" by (rule seal_key_ok [OF KV derive_key_length [OF key_env_okD(1) [OF KV] dk]])
    let ?s = "s1\<lparr>dd_rng := Suc (Suc (dd_rng s1)), dd_security := (dd_security s1)(KEY_ENC_FILENAME \<mapsto> ct)\<rparr>"
    have "s' = ?s" "key = ?key"
      using None run2 ct(1) by (auto simp: load_or_make_key_def lift_err_def dd_random_def put_security_def Let_def)
    moreover have "holds_key KV ?s p ?key" using salt(1) dk ct(2) by (auto simp: holds_key_def)
    ultimately show ?thesis using salt(3,4) by simp
  qed
qed

text \<open>A fresh directory gets a key whenever a key can be derived from the password.\<close>

lemma create_key_total:
  assumes KV: "key_env_ok KV" and fresh: "dd_security s KEY_SALT_FILENAME = None" "dd_security s KEY_ENC_FILENAME = None"
    and dk: "derive_key (kv_crypto KV) p (kv_cipher KV) (kv_fill KV (dd_rng s) 16) = Inr dk"
  obtains s' where "read_or_create_key KV p s = (Inr (kv_fill KV (Suc (dd_rng s)) (key_len (kv_crypto KV) (kv_cipher KV))), s')"
proof -
  let ?key = "kv_fill KV (Suc (dd_rng s)) (key_len (kv_crypto KV) (kv_cipher KV))"
  obtain ct where "write_pieces (kv_crypto KV) (Suc (Suc (dd_rng s))) (kv_cipher KV) dk (kv_ser_vec KV ?key) = Inr ct"
    by (rule seal_key_ok [OF KV derive_key_length [OF key_env_okD(1) [OF KV] dk]])
  with fresh dk have "\<exists>s'. read_or_create_key KV p s = (Inr ?key, s')"
    by (simp add: read_or_create_key_def load_or_make_key_def read_or_create_salt_def lift_err_def dd_random_def put_security_def Let_def)
  with that show thesis by blast
qed

lemma passwd_run:
  assumes KV: "key_env_ok KV" and st: "check_structure False s = (Inr (), s)" and held: "holds_key KV s old key"
    and dk: "\<And>d salt. dd_security s KEY_SALT_FILENAME = Some d \<Longrightarrow> kv_de_vec KV d = Some salt
        \<Longrightarrow> \<exists>dk. derive_key (kv_crypto KV) new (kv_cipher KV) salt = Inr dk"
  obtains s' where "passwd KV old new s = (Inr (), s')" "holds_key KV s' new key"
    "dd_security s' KEY_SALT_FILENAME = dd_security s KEY_SALT_FILENAME" "dd_entries s' = dd_entries s" "dd_kind s' = dd_kind s"
proof -
  obtain d salt dk1 ct where h: "dd_security s KEY_SALT_FILENAME = Some d" "kv_de_vec KV d = Some salt"
     "derive_key (kv_crypto KV) old (kv_cipher KV) salt = Inr dk1" "dd_security s KEY_ENC_FILENAME = Some ct" "read_key KV dk1 ct = Inr key"
    using held by (auto simp: holds_key_def)
  obtain dk2 where dk2: "derive_key (kv_crypto KV) new (kv_cipher KV) salt = Inr dk2" using dk [OF h(1,2)] by blast
  obtain ct' where ct': "write_pieces (kv_crypto KV) (dd_rng s) (kv_cipher KV) dk2 (kv_ser_vec KV key) = Inr ct'"
     "read_key KV dk2 ct' = Inr key"
    by (rule seal_key_ok [OF KV derive_key_length [OF key_env_okD(1) [OF KV] dk2]])
  let ?s = "s\<lparr>dd_rng := Suc (dd_rng s), dd_security := (dd_security s)(KEY_ENC_FILENAME \<mapsto> ct')\<rparr>"
  have "passwd KV old new s = (Inr (), ?s)"
    using st h dk2 ct'(1) by (simp add: passwd_def lift_err_def dd_random_def put_security_def serialize_encrypt_into_def)
  moreover have "holds_key KV ?s new key" using h dk2 ct' by (simp add: holds_key_def)
  ultimately show thesis using that [of ?s] by simp
qed

lemma wrong_password_read:
  assumes KV: "key_env_ok KV" and dk: "length dk = key_len (kv_crypto KV) (kv_cipher KV)"
    and ct: "NONCE_LEN \<le> length ct"
      "open_block (k_aead (kv_crypto KV) (kv_cipher KV)) dk 0 (take (ciphertext_block_size (k_aead (kv_crypto KV) (kv_cipher KV))) ct) = None"
  shows "read_key KV dk ct = Inl InvalidPassword"
proof -
  have "read_to_end (kv_crypto KV) (kv_cipher KV) dk ct = Inl (IoErr Other ''error opening within'')"
    unfolding read_to_end_eq using key_env_okD(1) [OF KV] dk ct
    by (intro read_prefix_unopened) (simp_all add: crypto_okD key_len_def)
  then show ?thesis by (simp add: read_key_def load_meta_def)
qed

subsection \<open>The structure of the data directory\<close>

definition no_files :: "data_dir \<Rightarrow> bool" where
  "no_files s \<longleftrightarrow> (dd_kind s = PMissing \<or> dd_kind s = PDir \<and> dd_entries s = [])
     \<and> dd_security s KEY_SALT_FILENAME = None \<and> dd_security s KEY_ENC_FILENAME = None"

lemma ensure_on_new:
  assumes "no_files s"
  shows "ensure_structure_created s =
    (Inr (), s\<lparr>dd_kind := PDir, dd_entries := [INODES_DIR, CONTENTS_DIR, SECURITY_DIR]\<rparr>)"
proof (cases "dd_kind s = PMissing")
  case True
  then show ?thesis by (simp add: ensure_structure_created_def ensure_dir_def dir_names)
next
  case False
  with assms have e: "dd_kind s = PDir" "dd_entries s = []" by (auto simp: no_files_def)
  then have "s\<lparr>dd_kind := PDir\<rparr> = s" by (cases s) simp
  with e show ?thesis by (simp add: ensure_structure_created_def check_structure_def ensure_dir_def dir_names)
qed

lemma check_without_key:
  assumes "dd_kind s = PDir" "dd_entries s \<noteq> []" "dd_security s KEY_ENC_FILENAME = None"
  shows "ensure_structure_created s = (Inl InvalidDataDirStructure, s)"
  using assms by (simp add: ensure_structure_created_def check_structure_def)

lemma check_with_key:
  assumes "dd_kind s = PDir" "dd_entries s = [INODES_DIR, CONTENTS_DIR, SECURITY_DIR]" "holds_key KV s p key"
  shows "check_structure b s = (Inr (), s)" "ensure_structure_created s = (Inr (), s)"
proof -
  show "check_structure b s = (Inr (), s)" for b using assms by (auto simp: check_structure_def holds_key_def)
  with assms(1,2) show "ensure_structure_created s = (Inr (), s)" by (simp add: ensure_structure_created_def ensure_dir_def)
qed

subsection \<open>Properties\<close>

definition sample_kv :: key_env where
  "sample_kv = \<lparr>kv_fs = sample_fs, kv_ser_vec = (\<lambda>b. [b]), kv_de_vec = Some, kv_fill = sample_fill\<rparr>"

lemma sample_kv_ok: "key_env_ok sample_kv"
  using sample_fs_ok by (simp add: key_env_ok_def sample_kv_def sample_fill_def)

lemma sample_kv_sel [simp]: "kv_fs sample_kv = sample_fs" "kv_de_vec sample_kv = Some" "kv_ser_vec sample_kv = (\<lambda>b. [b])"
  by (simp_all add: sample_kv_def)

lemma sample_derive: "derive_key sample_crypto p c salt = Inr (take 2 (as_bytes p @ salt @ replicate 2 0))"
  by (simp add: derive_key_def key_len_def) (simp add: sample_crypto_def)

definition sample_dd :: data_dir where
  "sample_dd = \<lparr>dd_kind = PMissing, dd_entries = [], dd_security = Map.empty, dd_rng = 0\<rparr>"

text \<open>
  C27: the first start on a missing or empty data directory creates the structure and a key of
  the length of the cipher; the structure then passes the check, and every later start with the
  same password finds the same key and changes nothing.
\<close>

theorem first_start_creates_key:
  assumes KV: "key_env_ok KV" and s: "no_files s"
    and dk: "derive_key (kv_crypto KV) p (kv_cipher KV) (kv_fill KV (dd_rng s) 16) = Inr dk"
  shows "\<exists>key s'. bnd ensure_structure_created (\<lambda>_. provide_key KV (Some p)) s = (Inr key, s')
    \<and> length key = key_len (kv_crypto KV) (kv_cipher KV)
    \<and> check_structure False s' = (Inr (), s')
    \<and> bnd ensure_structure_created (\<lambda>_. provide_key KV (Some p)) s' = (Inr key, s')"
proof -
  let ?s = "s\<lparr>dd_kind := PDir, dd_entries := [INODES_DIR, CONTENTS_DIR, SECURITY_DIR]\<rparr>"
  let ?key = "kv_fill KV (Suc (dd_rng ?s)) (key_len (kv_crypto KV) (kv_cipher KV))"
  have fresh: "dd_security ?s KEY_SALT_FILENAME = None" "dd_security ?s KEY_ENC_FILENAME = None"
    "derive_key (kv_crypto KV) p (kv_cipher KV) (kv_fill KV (dd_rng ?s) 16) = Inr dk"
    using s dk by (auto simp: no_files_def)
  obtain s' where run: "read_or_create_key KV p ?s = (Inr ?key, s')" by (rule create_key_total [OF KV fresh])
  note held = created_key_held [OF KV run]
  have "check_structure False s' = (Inr (), s')" "ensure_structure_created s' = (Inr (), s')"
    using check_with_key [of s' KV p ?key] held by simp_all
  moreover have "read_or_create_key KV p s' = (Inr ?key, s')" using held by (intro read_held_key) simp
  ultimately show ?thesis
    using ensure_on_new [OF s] run key_env_okD(3) [OF KV] by (auto simp: provide_key_def)
qed

theorem first_start_creates_key_witness:
  "\<exists>key s'. bnd ensure_structure_created (\<lambda>_. provide_key sample_kv (Some ''pw'')) sample_dd = (Inr key, s')
    \<and> length key = key_len (kv_crypto sample_kv) (kv_cipher sample_kv)
    \<and> check_structure False s' = (Inr (), s')
    \<and> bnd ensure_structure_created (\<lambda>_. provide_key sample_kv (Some ''pw'')) s' = (Inr key, s')"
  by (rule first_start_creates_key [OF sample_kv_ok]) (simp_all add: no_files_def sample_dd_def sample_derive)

text \<open>
  Changing the password keeps the master key: after \<open>passwd\<close> the new password opens the very
  key that the old one opened, the salt and the structure are unchanged, so every file remains
  readable.
\<close>

theorem passwd_keeps_key:
  assumes KV: "key_env_ok KV" and st: "check_structure False s = (Inr (), s)"
    and salt: "dd_security s KEY_SALT_FILENAME = Some d" "kv_de_vec KV d = Some salt"
    and old: "read_or_create_key KV old s = (Inr key, s)"
    and new: "derive_key (kv_crypto KV) new (kv_cipher KV) salt = Inr dk"
  shows "\<exists>s'. passwd KV old new s = (Inr (), s') \<and> read_or_create_key KV new s' = (Inr key, s')
    \<and> check_structure False s' = (Inr (), s')
    \<and> dd_security s' KEY_SALT_FILENAME = dd_security s KEY_SALT_FILENAME"
proof -
  have held: "holds_key KV s old key" using created_key_held [OF KV old] by blast
  have new': "\<exists>dk. derive_key (kv_crypto KV) new (kv_cipher KV) salt' = Inr dk"
    if "dd_security s KEY_SALT_FILENAME = Some d'" "kv_de_vec KV d' = Some salt'" for d' salt'
    using that salt new by auto
  obtain s' where s': "passwd KV old new s = (Inr (), s')" "holds_key KV s' new key"
    "dd_security s' KEY_SALT_FILENAME = dd_security s KEY_SALT_FILENAME" "dd_entries s' = dd_entries s" "dd_kind s' = dd_kind s"
    by (rule passwd_run [OF KV st held new'])
  have "check_structure False s' = (Inr (), s')"
    using st s'(2-5) by (auto simp: check_structure_def holds_key_def split: if_splits)
  with s' read_held_key [OF s'(2)] show ?thesis by blast
qed

text \<open>A directory that holds a key under the password \<open>pw\<close>.\<close>

definition sample_ct2 :: bytes where
  "sample_ct2 = (case write_pieces sample_crypto 2 Aes256Gcm (as_bytes ''pw'') [sample_fill 1 2] of Inr ct \<Rightarrow> ct)"

definition sample_dd2 :: data_dir where
  "sample_dd2 = \<lparr>dd_kind = PDir, dd_entries = [INODES_DIR, CONTENTS_DIR, SECURITY_DIR],
     dd_security = [KEY_SALT_FILENAME \<mapsto> sample_fill 0 16, KEY_ENC_FILENAME \<mapsto> sample_ct2], dd_rng = 3\<rparr>"

lemma sample_dd2_sel [simp]:
  "dd_security sample_dd2 KEY_SALT_FILENAME = Some (sample_fill 0 16)" "dd_security sample_dd2 KEY_ENC_FILENAME = Some sample_ct2"
  by (simp_all add: sample_dd2_def)

lemma sample_dd2_held: "holds_key sample_kv sample_dd2 ''pw'' (sample_fill 1 2)"
proof -
  have "read_key sample_kv (as_bytes ''pw'') sample_ct2 = Inr (sample_fill 1 2)" by code_simp
  moreover have "take 2 (as_bytes ''pw'' @ sample_fill 0 16 @ replicate 2 0) = as_bytes ''pw''" by code_simp
  ultimately show ?thesis by (simp add: holds_key_def sample_derive)
qed

lemma sample_dd2_structure: "check_structure False sample_dd2 = (Inr (), sample_dd2)"
  by (rule check_with_key [OF _ _ sample_dd2_held]) (simp_all add: sample_dd2_def)

theorem passwd_keeps_key_witness:
  "\<exists>s'. passwd sample_kv ''pw'' ''ab'' sample_dd2 = (Inr (), s')
    \<and> read_or_create_key sample_kv ''ab'' s' = (Inr (sample_fill 1 2), s')
    \<and> check_structure False s' = (Inr (), s')
    \<and> dd_security s' KEY_SALT_FILENAME = dd_security sample_dd2 KEY_SALT_FILENAME"
  by (rule passwd_keeps_key [OF sample_kv_ok sample_dd2_structure _ _ read_held_key [OF sample_dd2_held]])
     (simp_all add: sample_derive)

text \<open>
  C26: with a password whose derived key does not authenticate the stored key, reading the key and
  changing the password both fail with \<open>InvalidPassword\<close> and leave the directory as it was.
\<close>

theorem wrong_password_rejected:
  assumes KV: "key_env_ok KV" and st: "check_structure False s = (Inr (), s)"
    and salt: "dd_security s KEY_SALT_FILENAME = Some d" "kv_de_vec KV d = Some salt"
    and dk: "derive_key (kv_crypto KV) p (kv_cipher KV) salt = Inr dk"
    and ct: "dd_security s KEY_ENC_FILENAME = Some ct" "NONCE_LEN \<le> length ct"
      "open_block (k_aead (kv_crypto KV) (kv_cipher KV)) dk 0 (take (ciphertext_block_size (k_aead (kv_crypto KV) (kv_cipher KV))) ct) = None"
  shows "read_or_create_key KV p s = (Inl InvalidPassword, s) \<and> passwd KV p new s = (Inl InvalidPassword, s)"
proof -
  have "read_key KV dk ct = Inl InvalidPassword"
    using wrong_password_read [OF KV derive_key_length [OF key_env_okD(1) [OF KV] dk] ct(2,3)] .
  with st salt dk ct(1) show ?thesis
    by (simp add: read_or_create_key_def load_or_make_key_def read_or_create_salt_def passwd_def lift_err_def)
qed

theorem wrong_password_rejected_witness:
  "read_or_create_key sample_kv ''xy'' sample_dd2 = (Inl InvalidPassword, sample_dd2)
    \<and> passwd sample_kv ''xy'' ''ab'' sample_dd2 = (Inl InvalidPassword, sample_dd2)"
proof (rule wrong_password_rejected [OF sample_kv_ok sample_dd2_structure])
  show "NONCE_LEN \<le> length sample_ct2" by code_simp
  show "open_block (k_aead (kv_crypto sample_kv) (kv_cipher sample_kv)) (take 2 (as_bytes ''xy'' @ sample_fill 0 16 @ replicate 2 0)) 0
      (take (ciphertext_block_size (k_aead (kv_crypto sample_kv) (kv_cipher sample_kv))) sample_ct2) = None" by code_simp
qed (simp_all add: sample_derive)

text \<open>
  If the first start is cut short after the directories are created (here: no password is
  available), every later start fails with \<open>InvalidDataDirStructure\<close>, whatever the password.
\<close>

theorem interrupted_first_start:
  assumes "no_files s"
  shows "\<exists>s'. encrypted_fs_new KV None uid gid st now rng s = (Inl InvalidPassword, s')
    \<and> (\<forall>pw. encrypted_fs_new KV pw uid' gid' st now' rng' s' = (Inl InvalidDataDirStructure, s'))"
proof -
  let ?s = "s\<lparr>dd_kind := PDir, dd_entries := [INODES_DIR, CONTENTS_DIR, SECURITY_DIR]\<rparr>"
  have "ensure_structure_created ?s = (Inl InvalidDataDirStructure, ?s)"
    using assms by (intro check_without_key) (simp_all add: no_files_def)
  with ensure_on_new [OF assms] show ?thesis by (simp add: encrypted_fs_new_def provide_key_def)
qed

theorem interrupted_first_start_witness:
  "\<exists>s'. encrypted_fs_new sample_kv None 0 0 empty_store 0 0 sample_dd = (Inl InvalidPassword, s')
    \<and> (\<forall>pw. encrypted_fs_new sample_kv pw 0 0 empty_store 1 1 s' = (Inl InvalidDataDirStructure, s'))"
  by (rule interrupted_first_start) (simp add: no_files_def sample_dd_def)

end
