(* ===== verification/Restart.thy ===== *)
theory Restart
  imports Fs_Files Key_Management
begin

text \<open>
  The file system over its whole life: start, operations, change of the password, restart. This
  joins the key management with the state machine of the file system.
\<close>

subsection \<open>The structure survives\<close>

lemma check_structure_ok:
  "check_structure b s = (Inr (), s') \<longleftrightarrow> s' = s \<and> dd_kind s = PDir \<and> (dd_entries s = [] \<and> b
     \<or> length (dd_entries s) = 3 \<and> sort (dd_entries s) = sort [INODES_DIR, CONTENTS_DIR, SECURITY_DIR]
       \<and> dd_security s KEY_ENC_FILENAME \<noteq> None \<and> dd_security s KEY_SALT_FILENAME \<noteq> None)"
  by (auto simp: check_structure_def)

lemma ensure_dirs_present:
  assumes "set ns \<subseteq> set (dd_entries s)"
  shows "for_each ensure_dir ns s = (Inr (), s)"
  using assms by (induction ns) (simp_all add: ensure_dir_def)

lemma ensure_ok:
  assumes "check_structure False s = (Inr (), s)"
  shows "ensure_structure_created s = (Inr (), s)"
proof -
  have s: "dd_kind s = PDir" "sort (dd_entries s) = sort [INODES_DIR, CONTENTS_DIR, SECURITY_DIR]" "check_structure True s = (Inr (), s)"
    using assms unfolding check_structure_ok by auto
  have "set (dd_entries s) = set [INODES_DIR, CONTENTS_DIR, SECURITY_DIR]" using s(2) by (metis set_sort)
  then have "for_each ensure_dir [INODES_DIR, CONTENTS_DIR, SECURITY_DIR] s = (Inr (), s)" by (intro ensure_dirs_present) simp
  with s(1,3) show ?thesis by (simp add: ensure_structure_created_def)
qed

lemma ensure_checked:
  assumes "ensure_structure_created s = (Inr (), s')" "dd_kind s \<noteq> PMissing"
  shows "check_structure True s = (Inr (), s)"
proof -
  obtain s1 where "check_structure True s = (Inr (), s1)"
    using assms by (auto simp: ensure_structure_created_def elim!: bnd_InrE)
  then show ?thesis unfolding check_structure_ok by simp
qed

lemma ensure_then:
  assumes "ensure_structure_created s = (Inr (), s')"
  shows "dd_kind s' = PDir" "length (dd_entries s') = 3" "sort (dd_entries s') = sort [INODES_DIR, CONTENTS_DIR, SECURITY_DIR]"
proof -
  let ?names = "[INODES_DIR, CONTENTS_DIR, SECURITY_DIR]"
  have "dd_kind s' = PDir \<and> length (dd_entries s') = 3 \<and> sort (dd_entries s') = sort ?names"
  proof (cases "dd_kind s = PMissing \<or> dd_entries s = []")
    case True
    have new: "for_each ensure_dir ?names (s\<lparr>dd_kind := PDir, dd_entries := []\<rparr>) = (Inr (), s\<lparr>dd_kind := PDir, dd_entries := ?names\<rparr>)"
      by (simp add: ensure_dir_def dir_names)
    have "s' = s\<lparr>dd_kind := PDir, dd_entries := ?names\<rparr>"
    proof (cases "dd_kind s = PMissing")
      case True
      with assms new show ?thesis by (simp add: ensure_structure_created_def del: for_each.simps)
    next
      case False
      with True assms have e: "dd_kind s = PDir" "dd_entries s = []" using ensure_checked [OF assms] unfolding check_structure_ok by auto
      then have "s\<lparr>dd_kind := PDir, dd_entries := []\<rparr> = s" by (cases s) simp
      with e assms new show ?thesis by (simp add: ensure_structure_created_def check_structure_def del: for_each.simps)
    qed
    then show ?thesis by simp
  next
    case False
    then have "check_structure True s = (Inr (), s)" using ensure_checked [OF assms] by simp
    then have "check_structure False s = (Inr (), s)" using False unfolding check_structure_ok by simp
    with ensure_ok [of s] assms show ?thesis unfolding check_structure_ok by simp
  qed
  then show "dd_kind s' = PDir" "length (dd_entries s') = 3" "sort (dd_entries s') = sort ?names" by blast+
qed

lemma started:
  assumes KV: "key_env_ok KV" and run: "encrypted_fs_new KV (Some pw) uid gid st now rng dd = (Inr s, dd')"
  obtains key where "holds_key KV dd' pw key" "check_structure False dd' = (Inr (), dd')" "fs_new (kv_fs KV) uid gid st key now rng = Inr s"
proof -
  obtain dd1 key where e: "ensure_structure_created dd = (Inr (), dd1)" "read_or_create_key KV pw dd1 = (Inr key, dd')"
    "fs_new (kv_fs KV) uid gid st key now rng = Inr s"
    using run by (auto simp: encrypted_fs_new_def provide_key_def elim!: bnd_InrE)
  note held = created_key_held [OF KV e(2)]
  have "check_structure False dd' = (Inr (), dd')"
    using ensure_then [OF e(1)] held unfolding check_structure_ok by (auto simp: holds_key_def)
  with that held e(3) show thesis by blast
qed

subsection \<open>Restart\<close>

lemma fs_new_key:
  assumes "fs_new V uid gid st key now rng = Inr s"
  shows "f_key s = key"
proof -
  have "pres (keeps 0 key) (ensure_root_exists V uid gid)" by (rule keep.pres_ensure_root)
  then show ?thesis using assms by (auto simp: fs_new_def Let_def keeps_def split: prod.splits sum.splits dest!: presD)
qed

lemma fs_new_again:
  assumes "ino_exists s ROOT_INODE"
  obtains s' where "fs_new V uid gid (f_store s) key now rng = Inr s'" "f_store s' = f_store s" "f_key s' = key" "f_attr_cache s' = Map.empty"
    "handle_view s' = (Map.empty, Map.empty, Map.empty, Map.empty, 1)"
  using assms that by (simp add: fs_new_def ensure_root_exists_def ino_exists_def handle_view_def)

lemma restarted_file:
  assumes f: "file_at V s ino pt sz" and s': "f_store s' = f_store s" "f_key s' = f_key s" "f_attr_cache s' = Map.empty"
    "handle_view s' = (Map.empty, Map.empty, Map.empty, Map.empty, 1)"
  shows "file_at V s' ino pt sz"
proof -
  have st: "stored_attr V s' = stored_attr V s" by (rule stored_attr_cong [OF s'(1,2)])
  have "inodes_ok V s'" using f s' st by (simp add: file_at_def inodes_ok_def attr_cache_ok_def ino_exists_def)
  moreover have "handles_ok s'" using s'(4) by (simp add: handles_ok_def handle_view_def)
  ultimately show ?thesis using f s' st by (simp add: file_at_def handle_view_def)
qed

subsection \<open>A first start\<close>

lemma sample_started:
  obtains dd1 s0 where "encrypted_fs_new sample_kv (Some ''pw'') 0 0 empty_store 1000 0 sample_dd = (Inr s0, dd1)"
    "key_ok sample_fs (kv_fill sample_kv 1 2)" "fs_new sample_fs 0 0 empty_store (kv_fill sample_kv 1 2) 1000 0 = Inr s0"
proof -
  obtain dd0 where e: "ensure_structure_created sample_dd = (Inr (), dd0)" "dd_rng dd0 = 0" "dd_security dd0 = Map.empty"
    using ensure_on_new [of sample_dd] by (simp add: sample_dd_def no_files_def)
  have dk: "derive_key (kv_crypto sample_kv) ''pw'' (kv_cipher sample_kv) (kv_fill sample_kv (dd_rng dd0) 16) =
      Inr (take 2 (as_bytes ''pw'' @ kv_fill sample_kv (dd_rng dd0) 16 @ replicate 2 0))" by (simp add: sample_derive)
  obtain dd1 where k: "read_or_create_key sample_kv ''pw'' dd0 = (Inr (kv_fill sample_kv 1 2), dd1)"
    by (rule create_key_total [OF sample_kv_ok _ _ dk]) (use e in \<open>simp_all add: key_len_def\<close>)
  have key: "key_ok sample_fs (kv_fill sample_kv 1 2)" by (simp add: key_ok_def key_len_def sample_kv_def sample_fill_def)
  obtain s0 where s: "fs_new sample_fs 0 0 empty_store (kv_fill sample_kv 1 2) 1000 0 = Inr s0" by (rule sample_new [OF key])
  show thesis by (rule that [OF _ key s]) (use e(1) k s in \<open>simp add: encrypted_fs_new_def provide_key_def\<close>)
qed

end
