(* ===== verification/Crypto_Hash.thy ===== *)
theory Crypto_Hash
  imports Crypto
begin

text \<open>
  \<open>hash_reader\<close> (\<open>src/crypto.rs\<close>): the BLAKE3 hash of everything a reader delivers. It runs
  \<open>io::copy\<close>, a loop that ends only if the reader reports the end: the model is a partial function,
  and that it returns is proved.
\<close>

subsection \<open>Copying to the end\<close>

definition DEFAULT_BUF_SIZE :: nat where
  "DEFAULT_BUF_SIZE = 8 * 1024"

partial_function (option) io_copy ::
  "(nat \<Rightarrow> ('r, io_error, bytes) sem) \<Rightarrow> (bytes \<Rightarrow> ('w, io_error, nat) sem) \<Rightarrow> nat \<Rightarrow> 'r \<times> 'w \<Rightarrow> ((io_error + nat) \<times> 'r \<times> 'w) option" where
  "io_copy rd wr n rw =
     (case rd DEFAULT_BUF_SIZE (fst rw) of
        (Inl e, r') \<Rightarrow> Some (Inl e, (r', snd rw))
      | (Inr d, r') \<Rightarrow>
          (if d = [] then Some (Inr n, (r', snd rw))
           else (case write_all wr d (snd rw) of
                   (Inl e, w') \<Rightarrow> Some (Inl e, (r', w'))
                 | (Inr _, w') \<Rightarrow> io_copy rd wr (n + length d) (r', w'))))"

context io_pipe
begin

lemma io_copy_ok:
  assumes "rinv r" "winv w"
  shows "\<exists>r' w'. io_copy rd wr n (r, w) = Some (Inr (n + length (rem r)), (r', w')) \<and> rem r' = [] \<and> rinv r'
    \<and> content w' = content w @ rem r \<and> winv w'"
  using assms
proof (induction "length (rem r)" arbitrary: r w n rule: less_induct)
  case less
  have b: "0 < DEFAULT_BUF_SIZE" by (simp add: DEFAULT_BUF_SIZE_def)
  obtain k r' where k: "rd DEFAULT_BUF_SIZE r = (Inr (take k (rem r)), r')" "k \<le> length (rem r)"
      "rem r \<noteq> [] \<Longrightarrow> 0 < k" "rem r' = drop k (rem r)" "rinv r'"
    using src.rdE [OF less.prems(1) b] by blast
  obtain w' where w': "write_all wr (take k (rem r)) w = (Inr (), w')" "content w' = content w @ take k (rem r)" "winv w'"
    using dst.write_all_ok [OF less.prems(2)] by blast
  show ?case
  proof (cases "rem r = []")
    case True
    with k less.prems show ?thesis by (simp add: io_copy.simps [of rd wr n])
  next
    case False
    then have "length (rem r') < length (rem r)" using k(2,3,4) by simp
    from less.hyps [OF this k(5) w'(3), of "n + k"] obtain r'' w'' where
      "io_copy rd wr (n + k) (r', w') = Some (Inr (n + k + length (rem r')), (r'', w''))" "rem r'' = []" "rinv r''"
      "content w'' = content w' @ rem r'" "winv w''" by blast
    with False k w' show ?thesis by (simp add: io_copy.simps [of rd wr n] min_absorb2)
  qed
qed

end

subsection \<open>The hasher as a writer\<close>

text \<open>A hasher is the sequence of bytes it was fed; it takes every buffer whole.\<close>

definition hasher_write :: "bytes \<Rightarrow> (bytes, io_error, nat) sem" where
  "hasher_write d = (\<lambda>h. (Inr (length d), h @ d))"

definition hash_reader :: "crypto_env \<Rightarrow> (nat \<Rightarrow> ('r, io_error, bytes) sem) \<Rightarrow> 'r \<Rightarrow> (io_error + bytes) option" where
  "hash_reader K rd r = (case io_copy rd hasher_write 0 (r, []) of None \<Rightarrow> None
     | Some (Inl e, _) \<Rightarrow> Some (Inl e)
     | Some (Inr _, (_, h)) \<Rightarrow> Some (Inr (k_blake3 K h)))"

interpretation hasher: io_writer hasher_write "\<lambda>h. h" "\<lambda>_. True"
  by unfold_locales (auto simp: hasher_write_def)

interpretation hash_pipe: io_pipe "ring_read E" "r_rem E pt" "r_inv E ct pt" hasher_write "\<lambda>h. h" "\<lambda>_. True" for E ct pt
  by unfold_locales

interpretation hash_file: io_pipe stream_read srest "\<lambda>_. True" hasher_write "\<lambda>h. h" "\<lambda>_. True"
  by unfold_locales

interpretation encrypt_file: io_pipe stream_read srest "\<lambda>_. True" "ring_write E" "w_content E" "\<lambda>w. w_inv E w \<and> w_key w = key" for E key
  by unfold_locales

end
