(* ===== verification/Examples.thy ===== *)
theory Examples
  imports Restart Crypto_Hash
begin

text \<open>
  The example programs of the repository (\<open>examples/\<close>) that use the library end to end: a file system
  that is created, written and read back (\<open>encryptedfs.rs\<close>), and a file that is encrypted and compared
  with its decryption by hash (\<open>crypto_write_read.rs\<close>). Both assert that they get back what they
  wrote; the theorems are that these assertions hold.
\<close>

subsection \<open>Creating a file with an open handle\<close>

lemma create_then_open:
  assumes "create V parent name ca False False s = (Inr (0, a), s')" "a_kind a = RegularFile" "rd \<or> wr"
  shows "create V parent name ca rd wr s = bnd (fs_open V (a_ino a) rd wr) (\<lambda>h. ret (h, a)) s'"
  using assms unfolding create_def by (auto simp: Let_def elim!: bnd_InrE split: if_splits)

subsection \<open>Writing a whole buffer\<close>

text \<open>A buffer that fits into the block at its offset is written in one round, and flushed.\<close>

lemma write_all_bytes_ok:
  assumes V: "fs_env_ok V" and w: "writing V s h ino pt p sz" and guard: "ws_seek_guard (e_block_size (v_aead V)) pt p off"
    and d: "d \<noteq> []" "off + length d \<le> max_plaintext_len (v_cipher V)" "off mod e_block_size (v_aead V) + length d \<le> e_block_size (v_aead V)"
    and fl: "ws_flush_guard (e_block_size (v_aead V)) (written pt off d) (off + length d)"
  obtains s' where "write_all_bytes_to_fs V ino off d h s = (Inr (), s')"
    "writing V s' h ino (written pt off d) (off + length d) (max (off + length d) sz)"
proof -
  have len: "write_len V off d = length d" using d(3) by (simp add: write_len_def)
  obtain s1 where s1: "fs_write V ino off d h s = (Inr (length d), s1)"
    "writing V s1 h ino (written pt off d) (off + length d) (max (off + length d) sz)"
    using fs_write_ok [OF w guard d(1,2)] unfolding len by auto
  have sh: "shared V s1 h ino (written pt off d) (off + length d) (max (off + length d) sz) []" "f_opened_read s1 ino = None"
    using s1(2) by (simp_all add: writing_shared)
  obtain s2 where s2: "fs_flush V h s1 = (Inr (), s2)" "shared V s2 h ino (written pt off d) (off + length d) (max (off + length d) sz) []"
    "f_opened_read s2 = f_opened_read s1" by (rule fs_flush_shared [OF V sh(1) fl])
  have "write_all_bytes_to_fs V ino off d h s = (Inr (), s2)"
    using s1(1) s2(1) by (simp add: write_all_bytes_to_fs_def write_all_bytes_loop.simps bnd_def)
  with that s2(2,3) sh(2) show thesis by (simp add: writing_shared)
qed

lemma flush_writing:
  assumes V: "fs_env_ok V" and w: "writing V s h ino pt p sz" and fl: "ws_flush_guard (e_block_size (v_aead V)) pt p"
  obtains s' where "fs_flush V h s = (Inr (), s')" "writing V s' h ino pt p sz"
proof -
  have sh: "shared V s h ino pt p sz []" "f_opened_read s ino = None" using w by (simp_all add: writing_shared)
  show thesis by (rule fs_flush_shared [OF V sh(1) fl]) (use that sh(2) in \<open>simp add: writing_shared\<close>)
qed

subsection \<open>The file system example\<close>

definition example_file_attr :: create_file_attr where
  "example_file_attr = \<lparr>c_kind = RegularFile, c_perm = 420, c_uid = 0, c_gid = 0, c_rdev = 0, c_flags = 0\<rparr>"

text \<open>
  The body of \<open>main\<close> between the start of the file system and the removal of its directory, for any
  name and data: \<open>buf\<close> starts as zeros and is filled by the read; text that is not UTF-8 is an error,
  other text than the data fails the assertion.
\<close>

definition encryptedfs_session :: "fs_env \<Rightarrow> string \<Rightarrow> string \<Rightarrow> unit fsm" where
  "encryptedfs_session V name data =
     bnd (create V ROOT_INODE name example_file_attr False True) (\<lambda>(fh, attr).
     bnd (write_all_string_to_fs V (a_ino attr) 0 data fh) (\<lambda>_.
     bnd (fs_flush V fh) (\<lambda>_.
     bnd (fs_release V fh) (\<lambda>_.
     bnd (fs_open V (a_ino attr) True False) (\<lambda>fh.
     bnd (fs_read V (a_ino attr) 0 (length (as_bytes data)) fh) (\<lambda>d.
     bnd (fs_release V fh) (\<lambda>_.
     let buf = overlay (replicate (length (as_bytes data)) 0) 0 d in
     if \<not> utf8_ok buf then throw (FsOther ''invalid utf-8 sequence'')
     else if string_of_bytes buf = data then ret () else throw FsPanic)))))))"

definition encryptedfs_main :: "key_env \<Rightarrow> 32 word \<Rightarrow> 32 word \<Rightarrow> time \<Rightarrow> nat \<Rightarrow> unit ddm" where
  "encryptedfs_main KV uid gid now rng =
     bnd (encrypted_fs_new KV (Some ''pass42'') uid gid empty_store now rng) (\<lambda>s.
     lift (result_of (encryptedfs_session (kv_fs KV) ''file1'' ''Hello, world!'' s)))"

lemma encryptedfs_session_ok:
  assumes V: "fs_env_ok V" "inodes_ok V s" "handles_ok s" "no_stale_handles s" and root: "ino_exists s ROOT_INODE" "is_dir s ROOT_INODE"
    and name: "name \<noteq> ''.''" "name \<noteq> ''..''" "hash_of (f_store s) ROOT_INODE (hash_file_name (v_crypto V) name) = None"
    and fresh: "no_orphans s" "\<exists>k < v_fuel V. fresh_ino s (v_rand V (f_rng s + k))"
    and data: "data \<noteq> []" "utf8_ok (as_bytes data)" "length data \<le> e_block_size (v_aead V)" "length data \<le> max_plaintext_len (v_cipher V)"
      "ct_fits V (as_bytes data)"
  shows "result_of (encryptedfs_session V name data s) = Inr ()"
proof -
  let ?d = "as_bytes data" and ?B = "e_block_size (v_aead V)"
  have d: "?d \<noteq> []" "length ?d = length data" using data(1) by (simp_all add: as_bytes_def)
  have k: "c_kind example_file_attr = RegularFile" by (simp add: example_file_attr_def)
  obtain ino s1 where s1: "create V ROOT_INODE name example_file_attr False False s =
       (Inr (0, (file_attr_of_create (f_time s) example_file_attr)\<lparr>a_ino := ino\<rparr>), s1)" "fresh_ino s ino" "inodes_ok V s1"
    "handle_view s1 = handle_view s" "stored_attr V s1 ino = Some ((file_attr_of_create (f_time s) example_file_attr)\<lparr>a_ino := ino\<rparr>)"
    "new_content V ROOT_INODE ino RegularFile s1"
    by (rule create_ok [OF V(1,2) root name fresh, of example_file_attr, unfolded k]) (rule that; assumption)
  have f1: "file_at V s1 ino [] 0" by (rule created_file_at [OF V(1) s1(3) V(3) s1(4,2) V(4) s1(5,6)])
  define attr where "attr = (file_attr_of_create (f_time s) example_file_attr)\<lparr>a_ino := ino\<rparr>"
  have attr: "a_ino attr = ino" "a_kind attr = RegularFile" by (simp_all add: attr_def file_attr_of_create_def k)
  obtain h s2 where s2: "fs_open V ino False True s1 = (Inr h, s2)" "writing V s2 h ino [] 0 0" by (rule open_write_ok [OF V(1) f1])
  have cr: "create V ROOT_INODE name example_file_attr False True s = (Inr (h, attr), s2)"
    using create_then_open [OF s1(1), of False True] attr s2(1) by (simp add: attr_def)
  have wr: "written [] 0 ?d = ?d" by (simp add: written_def overlay_def)
  have g: "ws_seek_guard ?B [] 0 0" "ws_flush_guard ?B ?d (length ?d)" by (simp_all add: ws_seek_guard_def ws_flush_guard_def)
  obtain s3 where s3: "write_all_bytes_to_fs V ino 0 ?d h s2 = (Inr (), s3)" "writing V s3 h ino ?d (length ?d) (length ?d)"
    by (rule write_all_bytes_ok [OF V(1) s2(2) g(1) d(1)]) (use data(3,4) d(2) g(2) wr that in simp_all)
  obtain s4 where s4: "fs_flush V h s3 = (Inr (), s4)" "writing V s4 h ino ?d (length ?d) (length ?d)" by (rule flush_writing [OF V(1) s3(2) g(2)])
  obtain s5 where s5: "fs_release V h s4 = (Inr (), s5)" "file_at V s5 ino ?d (length ?d)" by (rule release_write_ok [OF V(1) s4(2)])
  obtain r s6 where s6: "fs_open V ino True False s5 = (Inr r, s6)" "reading V s6 r ino ?d 0 (length ?d)" "f_opened_read s6 ino = Some [r]"
    by (rule open_read_ok [OF V(1) s5(2)])
  obtain s7 where s7: "fs_read V ino 0 (length ?d) r s6 = (Inr ?d, s7)" "reading V s7 r ino ?d (length ?d) (length ?d)" "f_opened_read s7 = f_opened_read s6"
    by (rule fs_read_ok [OF s6(2) data(5), of "length ?d" 0]) (use d(1) that in simp_all)
  obtain s8 where s8: "fs_release V r s7 = (Inr (), s8)" by (rule release_read_ok [OF V(1) s7(2)]) (use s7(3) s6(3) that in simp_all)
  show ?thesis
    using cr s3(1) s4(1) s5(1) s6(1) s7(1) s8 attr data(2)
    by (simp add: encryptedfs_session_def write_all_string_to_fs_def overlay_def)
qed

text \<open>
  C11: the example program runs to its end. On a data directory that does not exist yet, with any
  random source that gives a fresh inode number, it creates the structure and the key, starts the
  file system, creates the file, writes the text, flushes and releases the handle, opens the file
  again, reads the text back and finds it equal; no call fails and no assertion is violated.
\<close>

theorem encryptedfs_main_succeeds:
  assumes KV: "key_env_ok KV" and dd: "no_files dd"
    and dk: "derive_key (kv_crypto KV) ''pass42'' (kv_cipher KV) (kv_fill KV (dd_rng dd) 16) = Inr dk"
    and h: "hash_file_name (kv_crypto KV) ''file1'' \<noteq> ''$.''"
    and r: "\<forall>n. \<exists>k < v_fuel (kv_fs KV). ROOT_INODE < v_rand (kv_fs KV) (n + k)"
    and b: "13 \<le> e_block_size (v_aead (kv_fs KV))" "ct_fits (kv_fs KV) (as_bytes ''Hello, world!'')"
  shows "result_of (encryptedfs_main KV uid gid now rng dd) = Inr ()"
proof -
  let ?V = "kv_fs KV" and ?dd = "dd\<lparr>dd_kind := PDir, dd_entries := [INODES_DIR, CONTENTS_DIR, SECURITY_DIR]\<rparr>"
  let ?key = "kv_fill KV (Suc (dd_rng dd)) (key_len (kv_crypto KV) (kv_cipher KV))"
  have V: "fs_env_ok ?V" using KV by (simp add: key_env_ok_def)
  obtain dd' where k: "read_or_create_key KV ''pass42'' ?dd = (Inr ?key, dd')"
    by (rule create_key_total [OF KV, of ?dd "''pass42''" dk]) (use dd dk that in \<open>simp_all add: no_files_def\<close>)
  have key: "key_ok ?V ?key" using key_env_okD(3) [OF KV] by (simp add: key_ok_def)
  have e: "st_inodes empty_store = Map.empty" "st_contents empty_store = Map.empty" by (simp_all add: empty_store_def)
  obtain s where s: "fs_new ?V uid gid empty_store ?key now rng = Inr s" "jinv ?V {} {} s" "is_dir s ROOT_INODE"
    "ino_exists s ROOT_INODE" "\<forall>i. ino_exists s i \<longrightarrow> i = ROOT_INODE"
    "\<forall>hn. hn \<noteq> hash_file_name (v_crypto ?V) ''$.'' \<longrightarrow> hash_of (f_store s) ROOT_INODE hn = None"
    "\<forall>i. i \<noteq> ROOT_INODE \<longrightarrow> st_contents (f_store s) i = None"
    by (rule fs_new_first [OF V key e, of uid gid now rng]) (rule that; assumption)
  have st: "no_stale_handles s" using fs_new_handles [OF s(1)] by (simp add: no_stale_handles_def handle_view_def)
  have or: "no_orphans s" unfolding no_orphans_def using s(4,7) by metis
  have fr: "\<exists>k < v_fuel ?V. fresh_ino s (v_rand ?V (f_rng s + k))" using r s(5) by (fastforce simp: fresh_ino_def)
  have hn: "hash_of (f_store s) ROOT_INODE (hash_file_name (v_crypto ?V) ''file1'') = None"
    using s(6) h by (simp add: hash_file_name_def)
  have j: "inodes_ok ?V s" "handles_ok s" using s(2) by (simp_all add: jinv_def hinv_def)
  have u: "utf8_ok (as_bytes ''Hello, world!'')" by code_simp
  have M: "length ''Hello, world!'' \<le> max_plaintext_len (v_cipher ?V)" by (cases "v_cipher ?V") (simp_all add: max_plaintext_len_def)
  have "result_of (encryptedfs_session ?V ''file1'' ''Hello, world!'' s) = Inr ()"
    by (rule encryptedfs_session_ok [OF V j st s(4,3) _ _ hn or fr _ u _ M b(2)]) (use b(1) in simp_all)
  then show ?thesis
    using ensure_on_new [OF dd] k s(1) by (simp add: encryptedfs_main_def encrypted_fs_new_def provide_key_def)
qed

theorem encryptedfs_main_succeeds_witness:
  "result_of (encryptedfs_main sample_kv 0 0 1000 0 sample_dd) = Inr ()"
proof -
  have dd: "no_files sample_dd" by (simp add: sample_dd_def no_files_def)
  have dk: "derive_key (kv_crypto sample_kv) ''pass42'' (kv_cipher sample_kv) (kv_fill sample_kv (dd_rng sample_dd) 16) =
      Inr (take 2 (as_bytes ''pass42'' @ kv_fill sample_kv (dd_rng sample_dd) 16 @ replicate 2 0))" by (simp add: sample_derive)
  have h: "hash_file_name (kv_crypto sample_kv) ''file1'' \<noteq> ''$.''" by code_simp
  have r: "\<forall>n. \<exists>k < v_fuel (kv_fs sample_kv). ROOT_INODE < v_rand (kv_fs sample_kv) (n + k)"
    by (auto simp: ROOT_INODE_def intro: exI [of _ 0])
  have b: "13 \<le> e_block_size (v_aead (kv_fs sample_kv))" by (simp add: v_aead_def)
  have f: "ct_fits (kv_fs sample_kv) (as_bytes ''Hello, world!'')" by (simp add: ct_fits_def v_aead_def nblocks_def NONCE_LEN_def as_bytes_def)
  show ?thesis by (rule encryptedfs_main_succeeds [OF sample_kv_ok dd dk h r b f])
qed

subsection \<open>The encryption example\<close>

text \<open>
  From the opening of the input file, whose bytes are \<open>data\<close>, to the assertion: the file is copied
  through an encrypting writer, read back through a decrypting reader, and both are hashed. The
  result is the encrypted file; \<open>None\<close> would be a run that does not end.
\<close>

definition crypto_write_read_main :: "crypto_env \<Rightarrow> nat \<Rightarrow> bytes \<Rightarrow> bytes \<Rightarrow> (io_error + bytes) option" where
  "crypto_write_read_main K seed key data =
     (case create_write K seed (stream_of []) ChaCha20Poly1305 key of Inl e \<Rightarrow> Some (Inl e)
      | Inr w \<Rightarrow> (case io_copy stream_read (ring_write (k_aead K ChaCha20Poly1305)) 0 (stream_of data, w) of None \<Rightarrow> None
         | Some (Inl _, _) \<Rightarrow> Some (Inl Panic)
         | Some (Inr _, (_, w1)) \<Rightarrow> (case result_of (ring_finish (k_aead K ChaCha20Poly1305) w1) of Inl e \<Rightarrow> Some (Inl e)
            | Inr out \<Rightarrow> (case create_read K (stream_of (sdata out)) ChaCha20Poly1305 key of Inl e \<Rightarrow> Some (Inl e)
               | Inr r \<Rightarrow> (case hash_reader K stream_read (stream_of data) of None \<Rightarrow> None
                  | Some (Inl e) \<Rightarrow> Some (Inl e)
                  | Some (Inr hash1) \<Rightarrow> (case hash_reader K (ring_read (k_aead K ChaCha20Poly1305)) r of None \<Rightarrow> None
                     | Some (Inl e) \<Rightarrow> Some (Inl e)
                     | Some (Inr hash2) \<Rightarrow> Some (if hash1 = hash2 then Inr (sdata out) else Inl Panic)))))))"

lemma hash_plain: "hash_reader K stream_read (stream_of data) = Some (Inr (k_blake3 K data))"
  using hash_file.io_copy_ok [where r = "stream_of data" and w = "[]" and n = 0] by (auto simp: hash_reader_def srest_def)

lemma hash_decrypted:
  assumes "aead_ok E" "enc_file E key ct pt" "ring_crypto_read_new E (stream_of ct) key = Inr r"
  shows "hash_reader K (ring_read E) r = Some (Inr (k_blake3 K pt))"
  using hash_pipe.io_copy_ok [OF r_inv_new(1) [OF assms], where w = "[]" and n = 0] r_inv_new(2) [OF assms] by (auto simp: hash_reader_def)

text \<open>
  C12: encrypting a file and hashing its decryption always ends, for every input, key and random
  source, and the assertion of the example holds: the decrypted bytes have the hash of the input. The
  file written is the encryption of the input.
\<close>

theorem crypto_write_read_succeeds:
  assumes "crypto_ok K" "length key = key_len K ChaCha20Poly1305"
  shows "\<exists>ct. crypto_write_read_main K seed key data = Some (Inr ct) \<and> enc_file (k_aead K ChaCha20Poly1305) key ct data"
proof -
  let ?E = "k_aead K ChaCha20Poly1305"
  have E: "aead_ok ?E" "length key = e_key_len ?E" using assms by (simp_all add: crypto_ok_def key_len_def)
  obtain w where w: "ring_crypto_write_new ?E seed (stream_of []) key = Inr w" using E(2) by (simp add: ring_crypto_write_new_def)
  note wi = w_inv_new [OF E(1) w]
  obtain r1 w1 where c: "io_copy stream_read (ring_write ?E) 0 (stream_of data, w) = Some (Inr (length data), (r1, w1))"
    "w_content ?E w1 = data" "w_inv ?E w1" "w_key w1 = key"
    using encrypt_file.io_copy_ok [where r = "stream_of data" and E = ?E and w = w and key = key and n = 0] wi by (auto simp: srest_def)
  obtain out w2 where f: "ring_finish ?E w1 = (Inr out, w2)" "enc_file ?E key (sdata out) data"
    using ring_finish_ok [OF c(3)] c(2,4) by auto
  obtain r where r: "ring_crypto_read_new ?E (stream_of (sdata out)) key = Inr r" using E(2) by (simp add: ring_crypto_read_new_def Let_def)
  show ?thesis
    using w c(1) f r hash_plain [of K data] hash_decrypted [OF E(1) f(2) r, of K]
    by (simp add: crypto_write_read_main_def create_write_def create_read_def)
qed

theorem crypto_write_read_succeeds_witness:
  "\<exists>ct. crypto_write_read_main sample_crypto 7 sample_key [1, 2, 3] = Some (Inr ct)
     \<and> enc_file (k_aead sample_crypto ChaCha20Poly1305) sample_key ct [1, 2, 3]"
  by (rule crypto_write_read_succeeds [OF sample_crypto_ok]) (simp add: key_len_def)

end
