(* ===== verification/Cli.thy ===== *)
theory Cli
  imports Restart
begin

text \<open>
  The command line program (\<open>src/main.rs\<close>, \<open>src/keyring.rs\<close>, and the start of a mount in
  \<open>src/mount/linux.rs\<close>).

  \<^item> \<open>get_cli_args\<close> is the declaration of the command line as data; \<open>conforms\<close> is what \<open>clap\<close>
    documents about the matches it returns for a declaration. The long option of an argument is its
    name; help texts are left out.
  \<^item> \<open>cli_world\<close> holds what the program reads and changes: the data directories, the lines typed at the
    password prompts, the static \<open>PASS\<close>, the keyring, the commands run and the mounted file system.
  \<^item> \<open>cli_env\<close> holds the code outside: the keyring, the result of running \<open>umount\<close>, of mounting a FUSE
    session and of unmounting it, of installing the signal handler, and which strings \<open>tracing\<close>
    takes as a log level.
  \<^item> \<open>run_mount\<close> ends where the program falls asleep until the signal handler \<open>on_signal\<close> runs.
    Messages and logging are left out.
\<close>

subsection \<open>The declared command line\<close>

record arg_spec =
  as_name :: string
  as_short :: char
  as_required :: bool
  as_flag :: bool
  as_default :: "string option"
  as_requires :: "string option"

record command_spec =
  cs_args :: "arg_spec list"
  cs_subcommand_required :: bool
  cs_subcommands :: "(string \<times> arg_spec list) list"

definition valued :: "string \<Rightarrow> char \<Rightarrow> string \<Rightarrow> arg_spec" where
  "valued n c d = \<lparr>as_name = n, as_short = c, as_required = False, as_flag = False, as_default = Some d, as_requires = None\<rparr>"

definition required :: "string \<Rightarrow> char \<Rightarrow> arg_spec" where
  "required n c = \<lparr>as_name = n, as_short = c, as_required = True, as_flag = False, as_default = None, as_requires = None\<rparr>"

definition set_true :: "string \<Rightarrow> char \<Rightarrow> arg_spec" where
  "set_true n c = \<lparr>as_name = n, as_short = c, as_required = False, as_flag = True, as_default = None, as_requires = None\<rparr>"

definition get_cli_args :: command_spec where
  "get_cli_args = \<lparr>
     cs_args = [valued ''log-level'' (CHR ''l'') ''INFO'', valued ''cipher'' (CHR ''c'') ''ChaCha20Poly1305''],
     cs_subcommand_required = True,
     cs_subcommands =
       [(''mount'',
          [required ''mount-point'' (CHR ''m''), required ''data-dir'' (CHR ''d''), set_true ''umount-on-start'' (CHR ''u''),
           set_true ''allow-root'' (CHR ''r''), set_true ''allow-other'' (CHR ''o''),
           (set_true ''direct-io'' (CHR ''i''))\<lparr>as_requires := Some ''mount-point''\<rparr>, set_true ''suid'' (CHR ''s'')]),
        (''passwd'', [required ''data-dir'' (CHR ''d'')])]\<rparr>"

text \<open>\<open>ArgMatches\<close>: the values, the flags and the subcommand.\<close>

record sub_matches =
  sm_values :: "string \<rightharpoonup> string"
  sm_flags :: "string \<rightharpoonup> bool"

record arg_matches = sub_matches +
  sm_subcommand :: "(string \<times> sub_matches) option"

text \<open>
  What \<open>clap\<close> promises of the matches of a declaration: required arguments and arguments with a
  default have a value, a flag is true or false, and a required subcommand is one of those declared.
\<close>

definition conforms_arg :: "('a sub_matches_scheme) \<Rightarrow> arg_spec \<Rightarrow> bool" where
  "conforms_arg m a \<longleftrightarrow> (if as_flag a then sm_flags m (as_name a) \<noteq> None
     else (as_required a \<or> as_default a \<noteq> None \<longrightarrow> sm_values m (as_name a) \<noteq> None))"

definition conforms :: "command_spec \<Rightarrow> arg_matches \<Rightarrow> bool" where
  "conforms c m \<longleftrightarrow> list_all (conforms_arg m) (cs_args c)
     \<and> (case sm_subcommand m of None \<Rightarrow> \<not> cs_subcommand_required c
        | Some (n, sm) \<Rightarrow> (case map_of (cs_subcommands c) n of None \<Rightarrow> False | Some as \<Rightarrow> list_all (conforms_arg sm) as))"

subsection \<open>World and environment\<close>

datatype cli_error = Failure nat | CliFs fs_error | CliIo io_error | CliPanic

text \<open>A mounted \<open>EncryptedFsFuse3\<close>, with the data directory it works on.\<close>

record mounted =
  mt_dir :: string
  mt_fs :: encrypted_fs
  mt_direct_io :: bool
  mt_suid_support :: bool

record 'k cli_world =
  w_data :: "string \<Rightarrow> data_dir"
  w_store :: "string \<Rightarrow> store"
  w_stdin :: "string list"
  w_pass :: "string option"
  w_ring :: 'k
  w_cmds :: "string list list"
  w_mounted :: "mounted option"

record 'k cli_env =
  ce_kv :: "cipher \<Rightarrow> key_env"
  ce_log_level :: "string \<Rightarrow> bool"
  ce_password_var :: "string option"
  ce_set :: "string \<Rightarrow> string \<Rightarrow> string \<Rightarrow> 'k \<Rightarrow> (string + unit) \<times> 'k"
  ce_get :: "string \<Rightarrow> string \<Rightarrow> 'k \<Rightarrow> string + string"
  ce_delete :: "string \<Rightarrow> string \<Rightarrow> 'k \<Rightarrow> (string + unit) \<times> 'k"
  ce_run :: "nat \<Rightarrow> string list \<Rightarrow> io_error + bool"
  ce_session :: "string \<Rightarrow> bool \<Rightarrow> bool \<Rightarrow> io_error option"
  ce_unmount :: "io_error option"
  ce_handler :: "io_error option"
  ce_uid :: "32 word"
  ce_gid :: "32 word"
  ce_time :: time
  ce_rng :: nat

type_synonym ('k, 'a) cli = "('k cli_world, cli_error, 'a) sem"

definition panic_unless :: "'a option \<Rightarrow> ('k, 'a) cli" where
  "panic_unless r = (case r of None \<Rightarrow> throw CliPanic | Some a \<Rightarrow> ret a)"

text \<open>\<open>read_password().unwrap()\<close>: the next line typed.\<close>

definition read_password :: "('k, string) cli" where
  "read_password = (\<lambda>w. case w_stdin w of [] \<Rightarrow> (Inl CliPanic, w) | l # ls \<Rightarrow> (Inr l, w\<lparr>w_stdin := ls\<rparr>))"

text \<open>A call on the data directory at a path.\<close>

definition at_dir :: "string \<Rightarrow> 'a ddm \<Rightarrow> ('k, fs_error + 'a) cli" where
  "at_dir d m = (\<lambda>w. case m (w_data w d) of (r, dd) \<Rightarrow> (Inr r, w\<lparr>w_data := (w_data w)(d := dd)\<rparr>))"

subsection \<open>Keyring and password\<close>

definition KEYRING_SERVICE :: string where "KEYRING_SERVICE = ''rencfs''"
definition KEYRING_USER :: string where "KEYRING_USER = ''encrypted_fs''"

definition keyring_save :: "'k cli_env \<Rightarrow> string \<Rightarrow> string \<Rightarrow> ('k, string + unit) cli" where
  "keyring_save E password suffix = (\<lambda>w.
     case ce_set E KEYRING_SERVICE (KEYRING_USER @ ''.'' @ suffix) password (w_ring w) of (r, k) \<Rightarrow> (Inr r, w\<lparr>w_ring := k\<rparr>))"

definition keyring_remove :: "'k cli_env \<Rightarrow> string \<Rightarrow> ('k, string + unit) cli" where
  "keyring_remove E suffix = (\<lambda>w.
     case ce_delete E KEYRING_SERVICE (KEYRING_USER @ ''.'' @ suffix) (w_ring w) of (r, k) \<Rightarrow> (Inr r, w\<lparr>w_ring := k\<rparr>))"

definition keyring_get :: "'k cli_env \<Rightarrow> string \<Rightarrow> 'k cli_world \<Rightarrow> string + string" where
  "keyring_get E suffix w = ce_get E KEYRING_SERVICE (KEYRING_USER @ ''.'' @ suffix) (w_ring w)"

definition get_password :: "'k cli_env \<Rightarrow> 'k cli_world \<Rightarrow> string option" where
  "get_password E w = (case w_pass w of Some p \<Rightarrow> Some p
     | None \<Rightarrow> (case keyring_get E ''password'' w of Inl _ \<Rightarrow> None | Inr p \<Rightarrow> Some p))"

definition remove_pass :: "'k cli_env \<Rightarrow> ('k, unit) cli" where
  "remove_pass E = bnd (gets w_pass) (\<lambda>p. case p of
       None \<Rightarrow> bnd (keyring_remove E ''password'') (\<lambda>_. ret ())
     | Some _ \<Rightarrow> modif (w_pass_update (\<lambda>_. None)))"

text \<open>The password is kept in memory only when the keyring does not take it.\<close>

definition save_password :: "'k cli_env \<Rightarrow> string \<Rightarrow> ('k, unit) cli" where
  "save_password E password = bnd (keyring_save E password ''password'') (\<lambda>r. case r of
       Inl _ \<Rightarrow> modif (w_pass_update (\<lambda>_. Some password)) | Inr _ \<Rightarrow> ret ())"

definition first_run :: "data_dir \<Rightarrow> bool" where
  "first_run dd \<longleftrightarrow> dd_kind dd \<noteq> PDir \<or> dd_entries dd = []"

definition ask_password :: "'k cli_env \<Rightarrow> string \<Rightarrow> ('k, string) cli" where
  "ask_password E data_dir =
     (let password = (case ce_password_var E of None \<Rightarrow> [] | Some p \<Rightarrow> p) in
      if password = [] then
        bnd read_password (\<lambda>password.
        bnd (gets (\<lambda>w. first_run (w_data w data_dir))) (\<lambda>fresh.
        if fresh then
          bnd read_password (\<lambda>confirm_password.
          if password \<noteq> confirm_password then throw (Failure 1) else ret password)
        else ret password))
      else ret password)"

subsection \<open>Unmounting\<close>

definition run_umount :: "'k cli_env \<Rightarrow> string list \<Rightarrow> ('k, bool) cli" where
  "run_umount E args = (\<lambda>w.
     let w' = w\<lparr>w_cmds := w_cmds w @ [''umount'' # args]\<rparr> in
     case ce_run E (length (w_cmds w)) (''umount'' # args) of Inl e \<Rightarrow> (Inl (CliIo e), w') | Inr b \<Rightarrow> (Inr b, w'))"

definition umount :: "'k cli_env \<Rightarrow> string \<Rightarrow> ('k, unit) cli" where
  "umount E mountpoint =
     bnd (run_umount E [mountpoint]) (\<lambda>ok. if ok then ret () else
     bnd (run_umount E [''-f'', mountpoint]) (\<lambda>ok. if ok then ret () else
     bnd (run_umount E [''-l'', mountpoint]) (\<lambda>ok. if ok then ret ()
     else throw (CliIo (IoErr Other (''cannot umount '' @ mountpoint))))))"

subsection \<open>Subcommands\<close>

definition run_change_password :: "'k cli_env \<Rightarrow> cipher \<Rightarrow> sub_matches \<Rightarrow> ('k, unit) cli" where
  "run_change_password E c m =
     bnd (panic_unless (sm_values m ''data-dir'')) (\<lambda>data_dir.
     bnd read_password (\<lambda>password.
     bnd read_password (\<lambda>new_password.
     bnd read_password (\<lambda>new_password2.
     if new_password \<noteq> new_password2 then throw (Failure 1)
     else
       bnd (at_dir data_dir (passwd (ce_kv E c) password new_password)) (\<lambda>r. case r of
         Inl e \<Rightarrow> throw (if e = FsPanic then CliPanic else Failure 1) | Inr _ \<Rightarrow> ret ())))))"

text \<open>\<open>mount_fuse\<close>: the password check and the start of the file system, then the FUSE session.\<close>

definition mount_fuse :: "'k cli_env \<Rightarrow> string \<Rightarrow> string \<Rightarrow> cipher \<Rightarrow> bool \<Rightarrow> bool \<Rightarrow> bool \<Rightarrow> bool \<Rightarrow> ('k, fs_error + unit) cli" where
  "mount_fuse E mountpoint data_dir c allow_root allow_other direct_io suid_support =
     bnd (gets (\<lambda>w. (get_password E w, w_store w data_dir))) (\<lambda>(pw, st).
     bnd (at_dir data_dir (encrypted_fs_new (ce_kv E c) pw (ce_uid E) (ce_gid E) st (ce_time E) (ce_rng E))) (\<lambda>r. case r of
       Inl e \<Rightarrow> ret (Inl e)
     | Inr fs \<Rightarrow> (case ce_session E mountpoint allow_root allow_other of
           Some e \<Rightarrow> bnd (modif (\<lambda>w. w\<lparr>w_store := (w_store w)(data_dir := f_store fs)\<rparr>)) (\<lambda>_. ret (Inl (FsIo e)))
         | None \<Rightarrow> bnd (modif (\<lambda>w. w\<lparr>w_mounted := Some \<lparr>mt_dir = data_dir, mt_fs = fs, mt_direct_io = direct_io, mt_suid_support = suid_support\<rparr>\<rparr>)) (\<lambda>_. ret (Inr ())))))"

text \<open>\<open>create_mount_point\<close> and \<open>MountPointImpl\<close>: the arguments of the mount, kept until \<open>mount\<close>.\<close>

record mount_point =
  mp_mountpoint :: string
  mp_data_dir :: string
  mp_cipher :: cipher
  mp_allow_root :: bool
  mp_allow_other :: bool
  mp_direct_io :: bool
  mp_suid_support :: bool

definition mount_point_new :: "string \<Rightarrow> string \<Rightarrow> cipher \<Rightarrow> bool \<Rightarrow> bool \<Rightarrow> bool \<Rightarrow> bool \<Rightarrow> mount_point" where
  "mount_point_new mountpoint data_dir c allow_root allow_other direct_io suid_support =
     \<lparr>mp_mountpoint = mountpoint, mp_data_dir = data_dir, mp_cipher = c, mp_allow_root = allow_root, mp_allow_other = allow_other,
      mp_direct_io = direct_io, mp_suid_support = suid_support\<rparr>"

definition create_mount_point :: "string \<Rightarrow> string \<Rightarrow> cipher \<Rightarrow> bool \<Rightarrow> bool \<Rightarrow> bool \<Rightarrow> bool \<Rightarrow> mount_point" where
  "create_mount_point mountpoint data_dir c allow_root allow_other direct_io suid_support =
     mount_point_new mountpoint data_dir c allow_root allow_other direct_io suid_support"

definition mount :: "'k cli_env \<Rightarrow> mount_point \<Rightarrow> ('k, fs_error + unit) cli" where
  "mount E m = mount_fuse E (mp_mountpoint m) (mp_data_dir m) (mp_cipher m) (mp_allow_root m) (mp_allow_other m)
     (mp_direct_io m) (mp_suid_support m)"

definition run_mount :: "'k cli_env \<Rightarrow> cipher \<Rightarrow> sub_matches \<Rightarrow> ('k, unit) cli" where
  "run_mount E c m =
     bnd (panic_unless (sm_values m ''mount-point'')) (\<lambda>mountpoint.
     bnd (panic_unless (sm_values m ''data-dir'')) (\<lambda>data_dir.
     bnd (ask_password E data_dir) (\<lambda>password.
     bnd (save_password E password) (\<lambda>_.
     bnd (panic_unless (sm_flags m ''umount-on-start'')) (\<lambda>u.
     bnd (if u then bnd (attempt (umount E mountpoint)) (\<lambda>_. ret ()) else ret ()) (\<lambda>_.
     bnd (panic_unless (sm_flags m ''allow-root'')) (\<lambda>allow_root.
     bnd (panic_unless (sm_flags m ''allow-other'')) (\<lambda>allow_other.
     bnd (panic_unless (sm_flags m ''direct-io'')) (\<lambda>direct_io.
     bnd (panic_unless (sm_flags m ''suid'')) (\<lambda>suid.
     bnd (mount E (create_mount_point mountpoint data_dir c allow_root allow_other direct_io suid)) (\<lambda>r. case r of
       Inl e \<Rightarrow> throw (if e = FsPanic then CliPanic else Failure 1)
     | Inr _ \<Rightarrow> (case ce_handler E of Some e \<Rightarrow> throw (CliIo e) | None \<Rightarrow> ret ()))))))))))))"

text \<open>
  The signal handler: forget the password, unmount the session, fall back to \<open>umount\<close>; the value is
  the exit status of the process. A second signal finds the handle taken and panics.
\<close>

definition on_signal :: "'k cli_env \<Rightarrow> string \<Rightarrow> ('k, nat) cli" where
  "on_signal E mountpoint =
     bnd (remove_pass E) (\<lambda>_.
     bnd (gets w_mounted) (\<lambda>h. case h of None \<Rightarrow> throw CliPanic
     | Some mt \<Rightarrow>
         bnd (modif (\<lambda>w. w\<lparr>w_mounted := None, w_store := (w_store w)(mt_dir mt := f_store (mt_fs mt))\<rparr>)) (\<lambda>_.
         bnd (case ce_unmount E of None \<Rightarrow> ret (Inr ()) | Some _ \<Rightarrow> attempt (umount E mountpoint)) (\<lambda>r.
         ret (case r of Inl _ \<Rightarrow> 1 | Inr _ \<Rightarrow> 0)))))"

definition cipher_from_str :: "string \<Rightarrow> cipher option" where
  "cipher_from_str s = (if s = ''ChaCha20Poly1305'' then Some ChaCha20Poly1305 else if s = ''Aes256Gcm'' then Some Aes256Gcm else None)"

definition async_main :: "'k cli_env \<Rightarrow> arg_matches \<Rightarrow> ('k, unit) cli" where
  "async_main E m =
     bnd (panic_unless (sm_values m ''cipher'')) (\<lambda>c. case cipher_from_str c of
       None \<Rightarrow> throw (Failure 1)
     | Some c \<Rightarrow> (case sm_subcommand m of None \<Rightarrow> throw (Failure 1)
         | Some (n, sm) \<Rightarrow> if n = ''change-password'' then run_change_password E c sm
             else if n = ''mount'' then run_mount E c sm
             else throw (Failure 1)))"

text \<open>How the process ends: with a status, with an error, or with a panic.\<close>

datatype exit = Exited nat | ExitedErr cli_error | Panicked

definition mount_point_of :: "arg_matches \<Rightarrow> string option option" where
  "mount_point_of m = (case sm_subcommand m of Some (n, sm) \<Rightarrow> if n = ''mount'' then
     (case sm_values sm ''mount-point'' of None \<Rightarrow> None | Some p \<Rightarrow> Some (Some p)) else Some None | None \<Rightarrow> Some None)"

definition main :: "'k cli_env \<Rightarrow> arg_matches \<Rightarrow> 'k cli_world \<Rightarrow> exit \<times> 'k cli_world" where
  "main E m w =
     (case sm_values m ''log-level'' of None \<Rightarrow> (Panicked, w)
      | Some l \<Rightarrow> if \<not> ce_log_level E l then (Panicked, w) else
     (case mount_point_of m of None \<Rightarrow> (Panicked, w)
      | Some mp \<Rightarrow>
         let cleanup = (\<lambda>w. case mp of None \<Rightarrow> w | Some p \<Rightarrow> snd (umount E p w)) in
         (case async_main E m w of
            (Inr _, w') \<Rightarrow> (Exited 0, w')
          | (Inl (Failure code), w') \<Rightarrow> (Exited code, w')
          | (Inl CliPanic, w') \<Rightarrow> (Panicked, cleanup w')
          | (Inl e, w') \<Rightarrow> (ExitedErr e, cleanup w'))))"

subsection \<open>The command that changes the password\<close>


text \<open>The command line \<open>rencfs passwd -d /d\<close>.\<close>

definition passwd_matches :: arg_matches where
  "passwd_matches = \<lparr>sm_values = [''log-level'' \<mapsto> ''INFO'', ''cipher'' \<mapsto> ''ChaCha20Poly1305''], sm_flags = Map.empty,
     sm_subcommand = Some (''passwd'', \<lparr>sm_values = [''data-dir'' \<mapsto> ''/d''], sm_flags = Map.empty\<rparr>)\<rparr>"

definition sample_cli :: "(string \<rightharpoonup> string) cli_env" where
  "sample_cli = \<lparr>ce_kv = (\<lambda>_. sample_kv), ce_log_level = (\<lambda>_. True), ce_password_var = None,
     ce_set = (\<lambda>_ u p k. (Inr (), k(u \<mapsto> p))), ce_get = (\<lambda>_ u k. case k u of None \<Rightarrow> Inl ''NoEntry'' | Some p \<Rightarrow> Inr p),
     ce_delete = (\<lambda>_ u k. (if k u = None then Inl ''NoEntry'' else Inr (), k(u := None))),
     ce_run = (\<lambda>_ _. Inr True), ce_session = (\<lambda>_ _ _. None), ce_unmount = None, ce_handler = None,
     ce_uid = 0, ce_gid = 0, ce_time = 1000, ce_rng = 0\<rparr>"

definition sample_world :: "(string \<rightharpoonup> string) cli_world" where
  "sample_world = \<lparr>w_data = (\<lambda>_. sample_dd), w_store = (\<lambda>_. empty_store), w_stdin = [''pw'', ''pw''], w_pass = None,
     w_ring = Map.empty, w_cmds = [], w_mounted = None\<rparr>"


subsection \<open>The password of a mount\<close>

text \<open>What the program relies on: the keyring returns what was saved, and nothing after a deletion.\<close>

definition ring_ok :: "'k cli_env \<Rightarrow> bool" where
  "ring_ok E \<longleftrightarrow> (\<forall>s u p k k'. ce_set E s u p k = (Inr (), k') \<longrightarrow> ce_get E s u k' = Inr p)
     \<and> (\<forall>s u k k'. ce_delete E s u k = (Inr (), k') \<longrightarrow> (\<exists>e. ce_get E s u k' = Inl e))"

text \<open>Everything but the commands that were run.\<close>

definition same_but_cmds :: "'k cli_world \<Rightarrow> 'k cli_world \<Rightarrow> bool" where
  "same_but_cmds w w' \<longleftrightarrow> w_data w' = w_data w \<and> w_store w' = w_store w \<and> w_stdin w' = w_stdin w \<and> w_pass w' = w_pass w
     \<and> w_ring w' = w_ring w \<and> w_mounted w' = w_mounted w"

lemma umount_frame: "umount E p w = (r, w') \<Longrightarrow> same_but_cmds w w'"
proof -
  have "pres (same_but_cmds w) (run_umount E a)" for a
    by (auto simp: pres_def same_but_cmds_def run_umount_def Let_def split: sum.split)
  then have "pres (same_but_cmds w) (umount E p)" unfolding umount_def by (intro pres_rules) simp_all
  then show "umount E p w = (r, w') \<Longrightarrow> same_but_cmds w w'" using presD [of "same_but_cmds w" "umount E p" w r w'] by (simp add: same_but_cmds_def)
qed

text \<open>The password of a mount is the variable's, or the line typed; on the first run it is typed twice.\<close>

definition entered :: "'k cli_env \<Rightarrow> string \<Rightarrow> 'k cli_world \<Rightarrow> string \<Rightarrow> string list \<Rightarrow> bool" where
  "entered E d w pw rest \<longleftrightarrow> (case ce_password_var E of Some (c # cs) \<Rightarrow> pw = c # cs \<and> rest = w_stdin w
     | _ \<Rightarrow> w_stdin w = (if first_run (w_data w d) then [pw, pw] else [pw]) @ rest)"

lemma ask_password_ok:
  assumes "ask_password E d w = (Inr pw, w')"
  shows "w' = w\<lparr>w_stdin := w_stdin w'\<rparr> \<and> entered E d w pw (w_stdin w')"
  using assms by (auto simp: ask_password_def entered_def read_password_def bnd_def Let_def split: list.splits option.splits if_splits)

lemma save_password_ok:
  assumes "ring_ok E" "w_pass w = None" "save_password E pw w = (Inr (), w')"
  shows "get_password E w' = Some pw" "w_data w' = w_data w" "w_store w' = w_store w" "w_stdin w' = w_stdin w"
proof -
  obtain r k where s: "ce_set E KEYRING_SERVICE (KEYRING_USER @ ''.'' @ ''password'') pw (w_ring w) = (r, k)" by fastforce
  show "get_password E w' = Some pw" "w_data w' = w_data w" "w_store w' = w_store w" "w_stdin w' = w_stdin w"
    using assms s by (auto simp: save_password_def keyring_save_def get_password_def keyring_get_def ring_ok_def bnd_def split: sum.splits)
qed

lemma get_password_cong: "w_pass w' = w_pass w \<Longrightarrow> w_ring w' = w_ring w \<Longrightarrow> get_password E w' = get_password E w"
  by (simp add: get_password_def keyring_get_def cong: option.case_cong)

lemma mount_fuse_ok:
  assumes "mount_fuse E p d c r o' i u w = (Inr (Inr ()), w')" "key_env_ok (ce_kv E c)" "get_password E w = Some pw"
  obtains fs where "w_mounted w' = Some \<lparr>mt_dir = d, mt_fs = fs, mt_direct_io = i, mt_suid_support = u\<rparr>"
    "holds_key (ce_kv E c) (w_data w' d) pw (f_key fs)" "w_pass w' = w_pass w" "w_ring w' = w_ring w" "w_stdin w' = w_stdin w"
proof -
  let ?run = "encrypted_fs_new (ce_kv E c) (Some pw) (ce_uid E) (ce_gid E) (w_store w d) (ce_time E) (ce_rng E)"
  obtain x dd where run: "?run (w_data w d) = (x, dd)" by fastforce
  then obtain fs where fs: "x = Inr fs"
    using assms(1,3) by (cases x) (auto simp: mount_fuse_def at_dir_def bnd_def)
  obtain key where k: "holds_key (ce_kv E c) dd pw key" "fs_new (kv_fs (ce_kv E c)) (ce_uid E) (ce_gid E) (w_store w d) key (ce_time E) (ce_rng E) = Inr fs"
    by (rule started [OF assms(2) run [unfolded fs]])
  have w': "w' = w\<lparr>w_data := (w_data w)(d := dd), w_mounted := Some \<lparr>mt_dir = d, mt_fs = fs, mt_direct_io = i, mt_suid_support = u\<rparr>\<rparr>"
    using assms(1,3) run fs by (auto simp: mount_fuse_def at_dir_def bnd_def split: option.splits)
  show thesis by (rule that [of fs]) (use w' k fs_new_key [OF k(2)] in simp_all)
qed

lemma panic_unless_Inr: "panic_unless r w = (Inr a, w') \<longleftrightarrow> r = Some a \<and> w' = w"
  by (auto simp: panic_unless_def split: option.split)

lemma mounted_Inr:
  "(case x of Inl e \<Rightarrow> throw (if e = FsPanic then CliPanic else Failure 1)
     | Inr _ \<Rightarrow> (case ce_handler E of Some e \<Rightarrow> throw (CliIo e) | None \<Rightarrow> ret ())) w = (Inr (), w') \<longleftrightarrow> x = Inr () \<and> w' = w \<and> ce_handler E = None"
  for x :: "fs_error + unit"
  by (cases x) (auto split: option.split)

lemma mount_args: "mount E (create_mount_point p d c r o' i u) = mount_fuse E p d c r o' i u"
  by (simp add: mount_def create_mount_point_def mount_point_new_def)

lemma run_mountE:
  assumes "run_mount E c sm w = (Inr (), w')"
  obtains p d pw u r o' i su w1 w2 w3 where "sm_values sm ''mount-point'' = Some p" "sm_values sm ''data-dir'' = Some d"
    "ask_password E d w = (Inr pw, w1)" "save_password E pw w1 = (Inr (), w2)" "same_but_cmds w2 w3"
    "mount_fuse E p d c r o' i su w3 = (Inr (Inr ()), w')"
proof -
  obtain p d pw w1 w2 u w3 r o' i su x y where s: "sm_values sm ''mount-point'' = Some p" "sm_values sm ''data-dir'' = Some d"
    "ask_password E d w = (Inr pw, w1)" "save_password E pw w1 = (Inr x, w2)"
    "(if u then bnd (attempt (umount E p)) (\<lambda>_. ret ()) else ret ()) w2 = (Inr y :: cli_error + unit, w3)"
    "mount_fuse E p d c r o' i su w3 = (Inr (Inr ()), w')"
    using assms unfolding run_mount_def mount_args
    by (elim bnd_InrE) (unfold panic_unless_Inr mounted_Inr, elim conjE, hypsubst, rule that; assumption)
  have "same_but_cmds w2 w3"
    using s(5) umount_frame by (fastforce simp: attempt_def bnd_eq_Inr same_but_cmds_def split: if_splits prod.splits)
  then show thesis using that [OF s(1-3) _ _ s(6)] s(4) by simp
qed

text \<open>The signal handler on a mounted file system.\<close>

lemma remove_pass_total:
  obtains w' where "remove_pass E w = (Inr (), w')" "w_pass w' = None" "w_mounted w' = w_mounted w"
    "w_pass w = None \<Longrightarrow> w_ring w' = snd (ce_delete E KEYRING_SERVICE (KEYRING_USER @ ''.password'') (w_ring w))"
proof (cases "w_pass w")
  case None
  obtain x k where d: "ce_delete E KEYRING_SERVICE (KEYRING_USER @ ''.password'') (w_ring w) = (x, k)" by fastforce
  show thesis by (rule that [of "w\<lparr>w_ring := k\<rparr>"]) (simp_all add: None d remove_pass_def keyring_remove_def bnd_def)
next
  case (Some p)
  show thesis by (rule that [of "w\<lparr>w_pass := None\<rparr>"]) (simp_all add: Some remove_pass_def)
qed

lemma signal_forgets:
  assumes "ring_ok E" "w_mounted w = Some mt"
  shows "\<exists>status w'. on_signal E p w = (Inr status, w') \<and> w_pass w' = None \<and> w_mounted w' = None
    \<and> (w_pass w = None \<and> (\<exists>k. ce_delete E KEYRING_SERVICE (KEYRING_USER @ ''.password'') (w_ring w) = (Inr (), k))
       \<longrightarrow> get_password E w' = None)"
proof -
  obtain w1 where w1: "remove_pass E w = (Inr (), w1)" "w_pass w1 = None" "w_mounted w1 = Some mt"
    "w_pass w = None \<Longrightarrow> w_ring w1 = snd (ce_delete E KEYRING_SERVICE (KEYRING_USER @ ''.password'') (w_ring w))"
    using assms(2) by (metis remove_pass_total)
  let ?w2 = "w1\<lparr>w_mounted := None, w_store := (w_store w1)(mt_dir mt := f_store (mt_fs mt))\<rparr>"
  have "\<exists>r w'. (case ce_unmount E of None \<Rightarrow> ret (Inr ()) | Some _ \<Rightarrow> attempt (umount E p)) ?w2 = (Inr r :: cli_error + (cli_error + unit), w') \<and> same_but_cmds ?w2 w'"
  proof (cases "ce_unmount E")
    case None
    then show ?thesis by (simp add: same_but_cmds_def)
  next
    case (Some e)
    obtain r w' where u: "umount E p ?w2 = (r, w')" by fastforce
    with Some umount_frame [OF u] show ?thesis by (simp add: attempt_def)
  qed
  then obtain r w' where u: "(case ce_unmount E of None \<Rightarrow> ret (Inr ()) | Some _ \<Rightarrow> attempt (umount E p)) ?w2 = (Inr r :: cli_error + (cli_error + unit), w')"
    "same_but_cmds ?w2 w'" by blast
  have o: "on_signal E p w = (Inr (case r of Inl _ \<Rightarrow> 1 | Inr _ \<Rightarrow> 0), w')"
    using w1(1,3) u(1) by (simp add: on_signal_def bnd_def)
  have f: "w_pass w' = None" "w_mounted w' = None" "w_ring w' = w_ring w1" using u(2) w1(2) by (simp_all add: same_but_cmds_def)
  have "get_password E w' = None" if d: "w_pass w = None" "ce_delete E KEYRING_SERVICE (KEYRING_USER @ ''.password'') (w_ring w) = (Inr (), k)" for k
  proof -
    have "w_ring w' = k" using d w1(4) f(3) by simp
    moreover obtain e where "ce_get E KEYRING_SERVICE (KEYRING_USER @ ''.password'') k = Inl e" using assms(1) d(2) unfolding ring_ok_def by blast
    ultimately show ?thesis using f(1) by (simp add: get_password_def keyring_get_def)
  qed
  with o f show ?thesis by blast
qed

text \<open>
  C28: a mount works with the password that was entered. When the mount has succeeded, the password
  is the value of the environment variable, or the line typed, which on the first run was typed the
  same twice; the password provider returns this password, whether or not the keyring took it; it
  opens the master key of the data directory, and the mounted file system uses this key. The signal
  handler then ends the process with a status (it does not panic) and forgets the password: it is no
  longer in memory, and if the keyring held it and deletes it the provider returns nothing any more.
\<close>

theorem mount_password:
  assumes "ring_ok E" "key_env_ok (ce_kv E c)" "w_pass w = None" "run_mount E c sm w = (Inr (), w')"
  shows "\<exists>pw d mt. sm_values sm ''data-dir'' = Some d \<and> entered E d w pw (w_stdin w') \<and> get_password E w' = Some pw
    \<and> w_mounted w' = Some mt \<and> mt_dir mt = d \<and> holds_key (ce_kv E c) (w_data w' d) pw (f_key (mt_fs mt))
    \<and> (\<forall>p. \<exists>status w''. on_signal E p w' = (Inr status, w'') \<and> w_pass w'' = None \<and> w_mounted w'' = None
         \<and> (w_pass w' = None \<and> (\<exists>k. ce_delete E KEYRING_SERVICE (KEYRING_USER @ ''.password'') (w_ring w') = (Inr (), k))
            \<longrightarrow> get_password E w'' = None))"
proof -
  obtain p d pw u r o' i su w1 w2 w3 where s: "sm_values sm ''data-dir'' = Some d"
    "ask_password E d w = (Inr pw, w1)" "save_password E pw w1 = (Inr (), w2)" "same_but_cmds w2 w3"
    "mount_fuse E p d c r o' i su w3 = (Inr (Inr ()), w')" by (rule run_mountE [OF assms(4)])
  note a = ask_password_ok [OF s(2)]
  have p1: "w_pass w1 = None" using a assms(3) by (metis cli_world.select_convs(4) cli_world.surjective cli_world.update_convs(3))
  note sv = save_password_ok [OF assms(1) p1 s(3)]
  have c: "w_pass w3 = w_pass w2" "w_ring w3 = w_ring w2" "w_stdin w3 = w_stdin w2" using s(4) by (simp_all add: same_but_cmds_def)
  have g3: "get_password E w3 = Some pw" using get_password_cong [OF c(1,2)] sv(1) by simp
  obtain fs where fs: "w_mounted w' = Some \<lparr>mt_dir = d, mt_fs = fs, mt_direct_io = i, mt_suid_support = su\<rparr>"
    "holds_key (ce_kv E c) (w_data w' d) pw (f_key fs)" "w_pass w' = w_pass w3" "w_ring w' = w_ring w3" "w_stdin w' = w_stdin w3"
    by (rule mount_fuse_ok [OF s(5) assms(2) g3])
  have g: "get_password E w' = Some pw" using get_password_cong [OF fs(3,4)] g3 by simp
  have e: "entered E d w pw (w_stdin w')" using a sv(4) c(3) fs(5) by simp
  show ?thesis
    by (rule exI [of _ pw], rule exI [of _ d], rule exI [of _ "\<lparr>mt_dir = d, mt_fs = fs, mt_direct_io = i, mt_suid_support = su\<rparr>"])
      (use s(1) e g fs(1,2) signal_forgets [OF assms(1) fs(1)] in simp)
qed

definition mount_matches :: sub_matches where
  "mount_matches = \<lparr>sm_values = [''mount-point'' \<mapsto> ''/m'', ''data-dir'' \<mapsto> ''/d''],
     sm_flags = [''umount-on-start'' \<mapsto> True, ''allow-root'' \<mapsto> False, ''allow-other'' \<mapsto> False, ''direct-io'' \<mapsto> False, ''suid'' \<mapsto> False]\<rparr>"

lemma sample_mount: "\<exists>w'. run_mount sample_cli ChaCha20Poly1305 mount_matches sample_world = (Inr (), w')"
proof -
  obtain dd1 s0 where "encrypted_fs_new sample_kv (Some ''pw'') 0 0 empty_store 1000 0 sample_dd = (Inr s0, dd1)" by (rule sample_started)
  then show ?thesis
    by (simp add: run_mount_def panic_unless_def mount_matches_def ask_password_def read_password_def save_password_def keyring_save_def
        get_password_def keyring_get_def umount_def run_umount_def mount_args mount_fuse_def at_dir_def sample_cli_def sample_world_def first_run_def
        sample_dd_def bnd_def attempt_def Let_def)
qed

theorem mount_password_witness:
  "\<exists>w' mt. run_mount sample_cli ChaCha20Poly1305 mount_matches sample_world = (Inr (), w') \<and> get_password sample_cli w' = Some ''pw''
     \<and> w_mounted w' = Some mt \<and> holds_key sample_kv (w_data w' ''/d'') ''pw'' (f_key (mt_fs mt))"
proof -
  obtain w' where w': "run_mount sample_cli ChaCha20Poly1305 mount_matches sample_world = (Inr (), w')" using sample_mount by blast
  have "ring_ok sample_cli" by (auto simp: ring_ok_def sample_cli_def split: if_splits)
  moreover have "key_env_ok (ce_kv sample_cli ChaCha20Poly1305)" "w_pass sample_world = None"
    using sample_kv_ok by (simp_all add: sample_cli_def sample_world_def)
  moreover have "entered sample_cli ''/d'' sample_world pw rest \<Longrightarrow> pw = ''pw''" for pw rest
    by (simp add: entered_def sample_cli_def sample_world_def first_run_def sample_dd_def)
  moreover have "ce_kv sample_cli c = sample_kv" for c by (simp add: sample_cli_def)
  ultimately show ?thesis using mount_password [OF _ _ _ w'] w' by (fastforce simp: mount_matches_def)
qed

end
