(* ===== verification/Example_Passwd.thy ===== *)
theory Example_Passwd
  imports Cli
begin

text \<open>
  The two example programs that change the password of a data directory: \<open>change_password.rs\<close> with
  fixed passwords and \<open>change_password_cli.rs\<close>, which asks for them. What they print at the end is
  their result; the messages that ask for input are left out.
\<close>

datatype change_report = Password_changed | Passwords_differ | Invalid_old_password | Invalid_structure | Change_error fs_error

definition report_change :: "fs_error + unit \<Rightarrow> ('k, change_report) cli" where
  "report_change r = (case r of Inr _ \<Rightarrow> ret Password_changed
     | Inl e \<Rightarrow> if e = FsPanic then throw CliPanic
         else if e = InvalidPassword then ret Invalid_old_password
         else if e = InvalidDataDirStructure then ret Invalid_structure
         else ret (Change_error e))"

text \<open>The first argument behind the name of the program; a missing one is a panic.\<close>

definition arg_data_dir :: "string list \<Rightarrow> ('k, string) cli" where
  "arg_data_dir args = panic_unless (case args of _ # d # _ \<Rightarrow> Some d | _ \<Rightarrow> None)"

definition change_password_main :: "'k cli_env \<Rightarrow> string list \<Rightarrow> ('k, change_report) cli" where
  "change_password_main E args =
     bnd (arg_data_dir args) (\<lambda>data_dir.
     bnd (at_dir data_dir (passwd (ce_kv E ChaCha20Poly1305) ''old-pass'' ''new-pass'')) report_change)"

definition change_password_cli_main :: "'k cli_env \<Rightarrow> string list \<Rightarrow> ('k, change_report) cli" where
  "change_password_cli_main E args =
     bnd (arg_data_dir args) (\<lambda>data_dir.
     bnd read_password (\<lambda>old_password.
     bnd read_password (\<lambda>new_password.
     bnd read_password (\<lambda>new_password2.
     if new_password \<noteq> new_password2 then ret Passwords_differ
     else bnd (at_dir data_dir (passwd (ce_kv E ChaCha20Poly1305) old_password new_password)) report_change))))"

text \<open>
  C25: the interactive program changes the password and nothing else. With the right old password and
  the new one typed twice it reports success, and the new password then opens the master key that
  the old one opened; when the two new passwords differ it says so and the data directory is as it
  was. With an old password that does not authenticate the stored key it reports this and changes
  nothing. Other data directories are never touched.
\<close>

theorem change_password_cli_correct:
  fixes E :: "'k cli_env" and w :: "'k cli_world" and d :: string
  defines "KV \<equiv> ce_kv E ChaCha20Poly1305" and "dd \<equiv> w_data w d"
  assumes KV: "key_env_ok KV" and st: "check_structure False dd = (Inr (), dd)"
    and salt: "dd_security dd KEY_SALT_FILENAME = Some sd" "kv_de_vec KV sd = Some salt"
    and old: "derive_key (kv_crypto KV) old (kv_cipher KV) salt = Inr dk" and new: "derive_key (kv_crypto KV) new (kv_cipher KV) salt = Inr dk'"
    and ct: "dd_security dd KEY_ENC_FILENAME = Some ct" "NONCE_LEN \<le> length ct"
    and opens: "read_or_create_key KV old dd = (Inr key, dd)
      \<or> open_block (k_aead (kv_crypto KV) (kv_cipher KV)) dk 0 (take (ciphertext_block_size (k_aead (kv_crypto KV) (kv_cipher KV))) ct) = None"
    and typed: "w_stdin w = old # new # new2 # lines"
  shows "\<exists>r w'. change_password_cli_main E (prog # d # rest) w = (Inr r, w') \<and> w_stdin w' = lines
    \<and> (\<forall>d'. d' \<noteq> d \<longrightarrow> w_data w' d' = w_data w d')
    \<and> r = (if new \<noteq> new2 then Passwords_differ
           else if result_of (read_or_create_key KV old dd) = Inr key then Password_changed else Invalid_old_password)
    \<and> (if r = Password_changed then read_or_create_key KV new (w_data w' d) = (Inr key, w_data w' d) else w_data w' d = w_data w d)"
proof -
  let ?w = "w\<lparr>w_stdin := lines\<rparr>"
  have run: "change_password_cli_main E (prog # d # rest) w =
      (if new \<noteq> new2 then (Inr Passwords_differ, ?w)
       else bnd (at_dir d (passwd KV old new)) report_change ?w)"
    using typed by (simp add: change_password_cli_main_def arg_data_dir_def panic_unless_def read_password_def KV_def)
  show ?thesis
  proof (cases "read_or_create_key KV old dd = (Inr key, dd)")
    case True
    obtain dd' where p: "passwd KV old new dd = (Inr (), dd')" "read_or_create_key KV new dd' = (Inr key, dd')"
    proof (rule passwd_run [OF KV st])
      show "holds_key KV dd old key" using created_key_held [OF KV True] by simp
    qed (use salt new read_held_key that in auto)
    have "bnd (at_dir d (passwd KV old new)) report_change ?w = (Inr Password_changed, ?w\<lparr>w_data := (w_data w)(d := dd')\<rparr>)"
      using p(1) by (simp add: at_dir_def bnd_def report_change_def dd_def)
    with run True p(2) show ?thesis by (cases "new = new2") (simp_all add: dd_def)
  next
    case False
    then have o: "open_block (k_aead (kv_crypto KV) (kv_cipher KV)) dk 0 (take (ciphertext_block_size (k_aead (kv_crypto KV) (kv_cipher KV))) ct) = None"
      using opens by simp
    have p: "read_or_create_key KV old dd = (Inl InvalidPassword, dd)" "passwd KV old new dd = (Inl InvalidPassword, dd)"
      using wrong_password_read [OF KV derive_key_length [OF key_env_okD(1) [OF KV] old] ct(2) o] st salt old ct(1)
      by (simp_all add: read_or_create_key_def load_or_make_key_def read_or_create_salt_def passwd_def lift_err_def)
    have "bnd (at_dir d (passwd KV old new)) report_change ?w = (Inr Invalid_old_password, ?w\<lparr>w_data := (w_data w)(d := dd)\<rparr>)"
      using p(2) by (simp add: at_dir_def bnd_def report_change_def dd_def)
    with run p(1) show ?thesis by (cases "new = new2") (simp_all add: dd_def)
  qed
qed

text \<open>The data directory of password \<open>pw\<close>; typed are \<open>pw\<close> and twice \<open>ab\<close>.\<close>

definition passwd_world :: "(string \<rightharpoonup> string) cli_world" where
  "passwd_world = sample_world\<lparr>w_data := (\<lambda>_. sample_dd2), w_stdin := [''pw'', ''ab'', ''ab'']\<rparr>"

theorem change_password_cli_correct_witness:
  "\<exists>w'. change_password_cli_main sample_cli [''change_password_cli'', ''/d''] passwd_world = (Inr Password_changed, w')
     \<and> read_or_create_key sample_kv ''ab'' (w_data w' ''/d'') = (Inr (sample_fill 1 2), w_data w' ''/d'') \<and> w_data w' ''/e'' = sample_dd2"
proof -
  have kv: "ce_kv sample_cli ChaCha20Poly1305 = sample_kv" and w: "w_data passwd_world = (\<lambda>_. sample_dd2)" "w_stdin passwd_world = [''pw'', ''ab'', ''ab'']"
    by (simp_all add: sample_cli_def passwd_world_def)
  note key = read_held_key [OF sample_dd2_held]
  obtain sd salt where s: "dd_security sample_dd2 KEY_SALT_FILENAME = Some sd" "kv_de_vec sample_kv sd = Some salt" "dd_security sample_dd2 KEY_ENC_FILENAME = Some sample_ct2"
    by (simp add: sample_dd2_def sample_kv_def KEY_SALT_FILENAME_def KEY_ENC_FILENAME_def)
  have dk: "\<And>p. derive_key (kv_crypto sample_kv) p (kv_cipher sample_kv) salt = Inr (take 2 (as_bytes p @ salt @ replicate 2 0))"
    by (simp add: sample_derive)
  have ct: "NONCE_LEN \<le> length sample_ct2" by code_simp
  obtain r w' where "change_password_cli_main sample_cli [''change_password_cli'', ''/d''] passwd_world = (Inr r, w')"
    "\<forall>d'. d' \<noteq> ''/d'' \<longrightarrow> w_data w' d' = sample_dd2" "r = Password_changed"
    "read_or_create_key sample_kv ''ab'' (w_data w' ''/d'') = (Inr (sample_fill 1 2), w_data w' ''/d'')"
    using change_password_cli_correct [of sample_cli passwd_world "''/d''", unfolded kv w(1), OF sample_kv_ok sample_dd2_structure s(1,2) dk dk s(3) ct
      disjI1 [OF key] w(2), of "''change_password_cli''" "[]"] key
    by auto
  then show ?thesis by auto
qed

end
