(* ===== verification/Spec2Isabelle.thy ===== *)
theory Spec2Isabelle
  imports Crypto_Stream Crypto_Auth Fs_Rename Arc_Hashmap Expire_Value Fs_Util Fuse_Files Fs_Limits Fs_Copy Examples Example_Passwd
begin

text \<open>
  A verification development for \<^emph>\<open>rencfs\<close>, an encrypted file system in Rust that is mounted with FUSE.

  \<^bold>\<open>The program.\<close> A data directory holds one encrypted file per inode (\<open>inodes/\<close>), the content of files
  and directories (\<open>contents/\<close>) and the master key sealed under a key derived from the password
  (\<open>security/\<close>). Every encrypted file is a sequence of blocks, each a nonce, the sealed plaintext and a
  tag, with the block's index as authenticated data. \<open>src/crypto/\<close> writes and reads such files,
  \<open>src/encryptedfs.rs\<close> builds the file system on them, \<open>src/mount/linux.rs\<close> serves FUSE requests with
  permission checks, and \<open>src/main.rs\<close> is the command line program.

  \<^bold>\<open>Conventions.\<close> An operation is a function from a state to a result and a new state (type \<open>sem\<close> of
  \<open>Prelude\<close>); \<open>bnd\<close> sequences operations as \<open>?\<close> does, so that an error keeps the changes made before
  it. Errors are values of datatypes named after the code's enums; a panic of the code is a value
  too. Modes, user and group numbers are words of their width, positions and sizes natural numbers
  with casts to \<open>i64\<close> and subtraction in \<open>u64\<close> written out where the code has them. Code that is not in
  the repository is a parameter in a record (\<open>aead_env\<close>, \<open>crypto_env\<close>, \<open>fs_env\<close>, \<open>key_env\<close>, \<open>fuse_cfg\<close>,
  \<open>cli_env\<close>): the AEAD of \<open>ring\<close>, the random generator, base64, hex, BLAKE3, Argon2, \<open>bincode\<close>, the
  keyring, \<open>umount\<close>, FUSE sessions. What is relied on is named: \<open>aead_ok\<close>, \<open>crypto_ok\<close>, \<open>fs_env_ok\<close>,
  \<open>key_env_ok\<close>, \<open>ring_ok\<close>, \<open>conforms\<close>. \<open>Sample_AEAD\<close> and \<open>Sample_FS\<close> instantiate all of them, and
  witnesses evaluate on these instances.

  \<^bold>\<open>Theories.\<close>

  \<^item> \<open>Prelude\<close>, \<open>Std_IO\<close>: the combinators, their simplification rules, preservation of predicates; files,
    cursors and the contracts of readers and writers as locales (\<open>io_reader\<close>, \<open>io_writer\<close>,
    \<open>io_writer_at\<close>, \<open>io_pipe\<close>).
  \<^item> \<open>Stream_Util\<close> (\<open>src/stream_util.rs\<close>), \<open>Buf_Mut\<close> (\<open>src/crypto/buf_mut.rs\<close>): the loops over any reader
    and writer, proved once in the locales; the block buffer with its invariant.
  \<^item> \<open>Crypto_Block\<close>, \<open>Crypto_Write\<close>, \<open>Crypto_Read\<close>, \<open>Crypto_Read_Seek\<close>, \<open>Crypto_Write_Seek\<close>, \<open>Crypto_Auth\<close>,
    \<open>Crypto_Stream\<close> (\<open>src/crypto/write.rs\<close>, \<open>src/crypto/read.rs\<close>): the block format (\<open>enc_file\<close>),
    \<open>RingCryptoWrite\<close>, \<open>RingCryptoRead\<close> and \<open>RingCryptoWriteSeek\<close> operation by operation. Writing and reading
    are inverse, a session of seeks and reads refines a cursor, a session of seeks and writes refines
    editing a byte sequence, and a reader hands out authenticated bytes only. The guards of the
    refinements are exactly where the code departs from them; the theorems next to them show how.
  \<^item> \<open>Crypto\<close>, \<open>Crypto_Hash\<close> (\<open>src/crypto.rs\<close>): ciphers, names, key derivation, serialisation, copying of
    ranges; \<open>std::io::copy\<close> through the locale \<open>io_pipe\<close>, and the hash of what a reader delivers.
  \<^item> \<open>Fs_Attr\<close>, \<open>Fs_State\<close>, \<open>Fs_File\<close>, \<open>Fs_Dir\<close> (\<open>src/encryptedfs.rs\<close>): attributes; the state of
    \<open>EncryptedFs\<close> as a record of the stored files, the key, the handle tables and the caches; every
    operation on files and directories.
  \<^item> \<open>Fs_Meta\<close>, \<open>Fs_Entries\<close>, \<open>Fs_Invariant\<close>, \<open>Fs_Steps\<close>: inode files and directories as maps
    (locale \<open>dir_map\<close> and its interpretation), the invariant \<open>jinv\<close> (inode files decode, caches agree,
    handle tables are consistent) and that every operation keeps it on every path (locale
    \<open>fs_inv\<close>, interpreted for the parts of the invariant); the step relation \<open>fs_step\<close> of all
    operations and of cache evictions.
  \<^item> \<open>Fs_Create\<close>, \<open>Fs_Files\<close>, \<open>Fs_Remove\<close>, \<open>Fs_Rename\<close>, \<open>Fs_Resize\<close>, \<open>Fs_Limits\<close>: what the operations do:
    create and find, open, write, release and read back, remove, rename, change the length; reachable
    states are consistent, one writer per file, handle numbers are not reused, sizes stay within the
    cipher's limit, the search for an inode number ends.
  \<^item> \<open>Fs_Handles\<close>, \<open>Fs_Session\<close>, \<open>Fs_Shared\<close>, \<open>Fs_Copy\<close>: one writer and any number of readers of a file.
    \<open>shared\<close> says which content the writer stands for and who reads, \<open>reader_at\<close> which stored content a
    read handle stands for; each operation on handles takes the one to the other, and the sessions with a
    single handle are the case without readers. Readers beside a writer see what is stored, readers
    behind a release see what was written, a range is copied; where the loops of the code go wrong.
  \<^item> \<open>Key_Management\<close>, \<open>Restart\<close>: the structure of the data directory, the master key, \<open>passwd\<close>, and the start of
    the file system; below, that files survive a change of the password and a restart.
  \<^item> \<open>Arc_Hashmap\<close> (\<open>src/arc_hashmap.rs\<close>), \<open>Expire_Value\<close> (\<open>src/expire_value.rs\<close>), \<open>Fs_Util\<close>
    (\<open>src/fs_util.rs\<close>): the lock table and the expiring values as step relations over the interleavings
    of their atomic parts, with invariants; moving directories.
  \<^item> \<open>Fuse_Access\<close>, \<open>Fuse\<close>, \<open>Fuse_Props\<close>, \<open>Fuse_Files\<close> (\<open>src/mount/linux.rs\<close>): the permission check against the
    rules of the mode bits, every FUSE handler with its error numbers, and what the handlers check and do
    not check: opening, the sticky bit, changes of directories, lengths and owners.
  \<^item> \<open>Cli\<close> (\<open>src/main.rs\<close>, \<open>src/keyring.rs\<close>, \<open>src/mount.rs\<close>): the declared command line, the two
    subcommands, the password from prompt to keyring, unmounting and the exit status.
  \<^item> \<open>Examples\<close>, \<open>Example_Passwd\<close> (\<open>examples/\<close>): four example programs as compositions of the parts above; their
    runs end, and their assertions hold.

  \<^bold>\<open>Bounds and fuel.\<close> One loop is bounded: the search for a free inode number takes fuel \<open>v_fuel\<close>;
  \<open>Fs_Limits\<close> shows that with a fair random source all large enough fuel gives the same result, and theorems
  about \<open>create\<close> assume a fresh number within the fuel. The loops over readers and writers end because each round
  makes progress or stops; they are total functions. The copy loop of the standard library may run for ever on
  some readers and is a partial function; \<open>Crypto_Hash\<close> shows that it returns on the readers of the program. File lengths are assumed below \<open>2 ^ 63\<close> where the code casts
  them to \<open>i64\<close>; the limits of the ciphers are below that.

  \<^bold>\<open>Not modelled.\<close> Errors of the real disk (no space, permissions, limits on the length of names), a crash
  in the middle of an atomic replacement, and logging. Each operation of \<open>EncryptedFs\<close> is atomic, as its
  locks intend (two calls of \<open>lock\<close> are never awaited, see the findings); the interleavings that are
  modelled are those of the lock table and of the expiring values. Reading a serialised structure reads the whole
  plaintext of its file, where \<open>bincode\<close> may stop earlier. Handle numbers do not wrap around. The futures of a mount,
  the runtime helper in \<open>src/async_util.rs\<close>, the stubs for other systems, the set-up of logging, tests, benchmarks and
  the other examples (measurements, the bare \<open>ring\<close> crate, a mount that waits for a key) have no model.
\<close>



end
